(* ===== verification/Prelude.thy ===== *)
theory Prelude
  imports Main "HOL-Library.Word" "HOL-Library.Signed_Division" "HOL-Library.Product_Lexorder"
    "HOL-Library.Code_Target_Nat"
begin

text \<open>
  Shared vocabulary of the development.

  \<^item> Faults and results: a C++ function that can fail returns \<open>'a res\<close>; the left summand
    says how the process dies (a failed \<open>assert\<close>, a \<open>LOG_FATAL\<close>/\<open>LOG_SYSFATAL\<close>, an
    uncaught exception) or that the execution has no defined meaning (\<open>BadAccess\<close>: a read or
    write outside an object, a null or dangling pointer, an uninitialised value).
  \<^item> \<open>size_t\<close> arithmetic: \<open>szadd\<close> and \<open>szsub\<close> are addition and subtraction modulo
    \<open>2 ^ 64\<close> on natural numbers.
  \<^item> Contiguous storage: \<open>seg\<close>, \<open>copy_at\<close>, \<open>find_sub\<close> are the reads, writes and
    searches the sources do on character arrays.
  \<^item> Decimal text: \<open>to_string\<close> and its inverse.
  \<^item> Transition systems: \<open>reachable\<close> and the locale \<open>invariant_system\<close>, the one induction
    that every state machine of the development uses.
\<close>

named_theorems res_simps \<open>evaluation of results and assertions\<close>
named_theorems size_simps \<open>size\_t arithmetic without wrap-around\<close>

section \<open>Faults and results\<close>

datatype fault =
    AssertFail string
  | FatalLog string
  | BadAccess string
  | Thrown string

type_synonym 'a res = "fault + 'a"

definition bindR :: "'a res \<Rightarrow> ('a \<Rightarrow> 'b res) \<Rightarrow> 'b res" where
  "bindR m f = (case m of Inl e \<Rightarrow> Inl e | Inr x \<Rightarrow> f x)"

definition assertR :: "bool \<Rightarrow> string \<Rightarrow> 'a res \<Rightarrow> 'a res" where
  "assertR b msg k = (if b then k else Inl (AssertFail msg))"

definition requireR :: "bool \<Rightarrow> fault \<Rightarrow> 'a res \<Rightarrow> 'a res" where
  "requireR b f k = (if b then k else Inl f)"

primrec foldR :: "('a \<Rightarrow> 's \<Rightarrow> 's res) \<Rightarrow> 'a list \<Rightarrow> 's \<Rightarrow> 's res" where
  "foldR f [] s = Inr s"
| "foldR f (x # xs) s = bindR (f x s) (foldR f xs)"

lemma bindR_Inr [simp, res_simps]: "bindR (Inr x) f = f x"
  by (simp add: bindR_def)

lemma bindR_Inl [simp, res_simps]: "bindR (Inl e) f = Inl e"
  by (simp add: bindR_def)

lemma bindR_eq_Inr: "bindR m f = Inr y \<longleftrightarrow> (\<exists>x. m = Inr x \<and> f x = Inr y)"
  by (cases m) auto

lemma bindR_eq_Inl: "bindR m f = Inl e \<longleftrightarrow> m = Inl e \<or> (\<exists>x. m = Inr x \<and> f x = Inl e)"
  by (cases m) auto

lemma bindR_assoc: "bindR (bindR m f) g = bindR m (\<lambda>x. bindR (f x) g)"
  by (cases m) auto

lemma assertR_True [simp, res_simps]: "assertR True msg k = k"
  by (simp add: assertR_def)

lemma assertR_False [simp, res_simps]: "assertR False msg k = Inl (AssertFail msg)"
  by (simp add: assertR_def)

lemma requireR_True [simp, res_simps]: "requireR True f k = k"
  by (simp add: requireR_def)

lemma requireR_False [simp, res_simps]: "requireR False f k = Inl f"
  by (simp add: requireR_def)

lemma assertR_eq_Inr: "assertR b msg k = Inr y \<longleftrightarrow> b \<and> k = Inr y"
  by (simp add: assertR_def)

lemma requireR_eq_Inr: "requireR b f k = Inr y \<longleftrightarrow> b \<and> k = Inr y"
  by (simp add: requireR_def)

lemma not_isl_Inr: "\<not> isl m \<Longrightarrow> \<exists>x. m = Inr x"
  by (cases m) auto

lemmas res_iffs = bindR_eq_Inr assertR_eq_Inr requireR_eq_Inr

lemma foldR_append: "foldR f (xs @ ys) s = bindR (foldR f xs s) (foldR f ys)"
proof (induction xs arbitrary: s)
  case Nil
  then show ?case by simp
next
  case (Cons x xs)
  then have "foldR f (xs @ ys) = (\<lambda>s. bindR (foldR f xs s) (foldR f ys))" by blast
  then show ?case by (simp add: bindR_assoc)
qed

text \<open>A loop whose body keeps an invariant and never faults never faults.\<close>

lemma foldR_total:
  assumes "\<And>x s. x \<in> set xs \<Longrightarrow> P s \<Longrightarrow> \<exists>s'. f x s = Inr s' \<and> P s'"
    and "P s"
  shows "\<exists>s'. foldR f xs s = Inr s' \<and> P s'"
  using assms
proof (induction xs arbitrary: s)
  case Nil
  then show ?case by simp
next
  case (Cons x xs)
  obtain s1 where "f x s = Inr s1" and "P s1"
    using Cons.prems(1) [of x s] Cons.prems(2) by auto
  with Cons.IH [of s1] Cons.prems(1) show ?case by auto
qed

lemma foldR_inv:
  assumes "foldR f xs s = Inr s'"
    and "\<And>x s s'. x \<in> set xs \<Longrightarrow> P s \<Longrightarrow> f x s = Inr s' \<Longrightarrow> P s'"
    and "P s"
  shows "P s'"
  using assms
proof (induction xs arbitrary: s)
  case Nil
  then show ?case by simp
next
  case (Cons x xs)
  then obtain s1 where "f x s = Inr s1" and "foldR f xs s1 = Inr s'"
    by (auto simp: bindR_eq_Inr)
  with Cons.IH [of s1] Cons.prems(2,3) show ?case
    by (meson list.set_intros)
qed

section \<open>Arithmetic on size\_t\<close>

text \<open>The bound \<open>2 ^ 64\<close> is written as a numeral in the rules that linear arithmetic uses.\<close>

definition szadd :: "nat \<Rightarrow> nat \<Rightarrow> nat" where
  "szadd a b = (a + b) mod 2 ^ 64"

definition szsub :: "nat \<Rightarrow> nat \<Rightarrow> nat" where
  "szsub a b = (a + (2 ^ 64 - b mod 2 ^ 64)) mod 2 ^ 64"

lemma szadd_less: "szadd a b < 2 ^ 64"
  by (simp add: szadd_def)

lemma szadd_no_wrap [size_simps]: "a + b < 18446744073709551616 \<Longrightarrow> szadd a b = a + b"
  by (simp add: szadd_def)

lemma szsub_no_wrap [size_simps]:
  assumes "b \<le> a" and "a < 18446744073709551616"
  shows "szsub a b = a - b"
proof -
  have b: "b mod 2 ^ 64 = b" using assms by simp
  have "a + (2 ^ 64 - b) = (a - b) + 2 ^ 64" using assms by simp
  then have "szsub a b = ((a - b) + 2 ^ 64) mod 2 ^ 64" by (simp only: szsub_def b)
  also have "\<dots> = (a - b) mod 2 ^ 64" by (rule mod_add_self2)
  finally show ?thesis using assms by simp
qed

lemma szsub_wraps: "a < b \<Longrightarrow> b < 2 ^ 64 \<Longrightarrow> szsub a b = 2 ^ 64 - (b - a)"
  by (simp add: szsub_def)

lemma szadd_szsub:
  assumes "a < 2 ^ 64" and "b < 2 ^ 64"
  shows "szadd (szsub a b) b = a"
proof (cases "b \<le> a")
  case True
  then show ?thesis using assms by (simp add: szsub_no_wrap szadd_def)
next
  case False
  then show ?thesis using assms by (simp add: szsub_wraps szadd_def)
qed

section \<open>Contiguous storage\<close>

definition seg :: "nat \<Rightarrow> nat \<Rightarrow> 'a list \<Rightarrow> 'a list" where
  "seg i n xs = take n (drop i xs)"

definition copy_at :: "nat \<Rightarrow> 'a list \<Rightarrow> 'a list \<Rightarrow> 'a list" where
  "copy_at i ys xs = take i xs @ ys @ drop (i + length ys) xs"

lemma length_seg [simp]: "i + n \<le> length xs \<Longrightarrow> length (seg i n xs) = n"
  by (simp add: seg_def)

lemma length_copy_at [simp]: "i + length ys \<le> length xs \<Longrightarrow> length (copy_at i ys xs) = length xs"
  by (simp add: copy_at_def)

lemma seg_0 [simp]: "seg i 0 xs = []"
  by (simp add: seg_def)

lemma seg_add: "seg i (m + n) xs = seg i m xs @ seg (i + m) n xs"
  by (simp add: seg_def take_add add.commute)

lemma take_seg: "take m (seg i n xs) = seg i (min m n) xs"
  by (simp add: seg_def min.commute)

lemma drop_seg: "drop m (seg i n xs) = seg (i + m) (n - m) xs"
  by (simp add: seg_def drop_take add.commute)

lemma seg_copy_at_before:
  assumes "i + n \<le> j" and "j \<le> length xs"
  shows "seg i n (copy_at j ys xs) = seg i n xs"
proof -
  have "drop i (copy_at j ys xs) = take (j - i) (drop i xs) @ ys @ drop (j + length ys) xs"
    using assms by (simp add: copy_at_def drop_take)
  moreover have "n \<le> j - i" and "n \<le> length xs - i" using assms by linarith+
  ultimately show ?thesis by (simp add: seg_def min_def)
qed

lemma seg_copy_at_same:
  "i + length ys \<le> length xs \<Longrightarrow> seg i (length ys) (copy_at i ys xs) = ys"
  by (simp add: seg_def copy_at_def)

lemma seg_append_left: "i + n \<le> length xs \<Longrightarrow> seg i n (xs @ ys) = seg i n xs"
  by (simp add: seg_def)

lemma seg_copy_at_extend:
  assumes "i + n \<le> length xs" and "i + n + length ys \<le> length xs"
  shows "seg i (n + length ys) (copy_at (i + n) ys xs) = seg i n xs @ ys"
  using assms by (simp add: seg_add seg_copy_at_before seg_copy_at_same)

text \<open>
  The first occurrence of a pattern, as \<open>std::search\<close> and \<open>memchr\<close> compute it: the
  offset of the first match from the start of the range, if there is one.
\<close>

fun find_sub :: "'a list \<Rightarrow> 'a list \<Rightarrow> nat option" where
  "find_sub pat [] = (if pat = [] then Some 0 else None)"
| "find_sub pat (x # xs) =
     (if take (length pat) (x # xs) = pat then Some 0 else map_option Suc (find_sub pat xs))"

lemma find_sub_Some:
  assumes "find_sub pat xs = Some k"
  shows "k + length pat \<le> length xs \<and> seg k (length pat) xs = pat \<and>
    (\<forall>j < k. seg j (length pat) xs \<noteq> pat)"
  using assms
proof (induction xs arbitrary: k)
  case Nil
  then show ?case by (auto simp: seg_def split: if_splits)
next
  case (Cons x xs)
  show ?case
  proof (cases "take (length pat) (x # xs) = pat")
    case True
    then have "length (take (length pat) (x # xs)) = length pat" by simp
    then have "length pat \<le> length (x # xs)" by (simp only: length_take)
    with True Cons.prems show ?thesis by (simp add: seg_def)
  next
    case False
    with Cons.prems obtain k' where k': "find_sub pat xs = Some k'" and k: "k = Suc k'"
      by auto
    from Cons.IH [OF k'] have IH: "k' + length pat \<le> length xs"
      "seg k' (length pat) xs = pat" "\<forall>j < k'. seg j (length pat) xs \<noteq> pat" by auto
    have "seg j (length pat) (x # xs) \<noteq> pat" if "j < k" for j
      using that k IH(3) False by (cases j) (auto simp: seg_def)
    with IH k show ?thesis by (auto simp: seg_def)
  qed
qed

lemma find_sub_None:
  assumes "find_sub pat xs = None" and "k + length pat \<le> length xs"
  shows "seg k (length pat) xs \<noteq> pat"
  using assms
proof (induction xs arbitrary: k)
  case Nil
  then show ?case by (auto split: if_splits)
next
  case (Cons x xs)
  then show ?case
    by (cases k) (auto simp: seg_def split: if_splits)
qed

lemma find_sub_complete:
  "k + length pat \<le> length xs \<Longrightarrow> seg k (length pat) xs = pat \<Longrightarrow>
   \<exists>j \<le> k. find_sub pat xs = Some j"
  using find_sub_None [of pat xs k] find_sub_Some [of pat xs]
  by (metis linorder_not_less not_Some_eq)

section \<open>Transition systems\<close>

inductive reachable :: "('s \<Rightarrow> bool) \<Rightarrow> ('s \<Rightarrow> 's \<Rightarrow> bool) \<Rightarrow> 's \<Rightarrow> bool"
  for start :: "'s \<Rightarrow> bool" and step :: "'s \<Rightarrow> 's \<Rightarrow> bool" where
  reach_start: "start s \<Longrightarrow> reachable start step s"
| reach_step: "reachable start step s \<Longrightarrow> step s t \<Longrightarrow> reachable start step t"

locale invariant_system =
  fixes start :: "'s \<Rightarrow> bool" and step :: "'s \<Rightarrow> 's \<Rightarrow> bool" and inv :: "'s \<Rightarrow> bool"
  assumes inv_start: "start s \<Longrightarrow> inv s"
    and inv_step: "inv s \<Longrightarrow> step s t \<Longrightarrow> inv t"
begin

lemma reachable_inv: "reachable start step s \<Longrightarrow> inv s"
  by (induction rule: reachable.induct) (auto intro: inv_start inv_step)

lemma steps_inv: "step\<^sup>*\<^sup>* s t \<Longrightarrow> inv s \<Longrightarrow> inv t"
  by (induction rule: rtranclp_induct) (auto intro: inv_step)

end

end
