(* ===== verification/Decimal.thy ===== *)
theory Decimal
  imports Prelude
begin

text \<open>
  The decimal text the sources produce and read: \<open>std::to_string\<close>, the \<open>%d\<close> and
  \<open>%0nd\<close> conversions of \<open>snprintf\<close>, and the number readers \<open>std::stoi\<close>, \<open>std::stoul\<close>
  and \<open>strtol\<close> of the C++ library, with their exceptions.
\<close>

section \<open>Writing numbers\<close>

definition digit_char :: "nat \<Rightarrow> char" where
  "digit_char d = ''0123456789'' ! d"

fun dec_nat :: "nat \<Rightarrow> string" where
  "dec_nat n = (if n < 10 then [digit_char n] else dec_nat (n div 10) @ [digit_char (n mod 10)])"

declare dec_nat.simps [simp del]

definition to_string :: "int \<Rightarrow> string" where
  "to_string i = (if i < 0 then CHR ''-'' # dec_nat (nat (- i)) else dec_nat (nat i))"

text \<open>\<open>%0nd\<close>: zeros are put between the sign and the digits.\<close>

definition pad_zero :: "nat \<Rightarrow> int \<Rightarrow> string" where
  "pad_zero w i =
     (let sign = (if i < 0 then ''-'' else ''''); ds = dec_nat (nat \<bar>i\<bar>)
      in sign @ replicate (w - length sign - length ds) (CHR ''0'') @ ds)"

text \<open>\<open>%nd\<close>: blanks are put in front.\<close>

definition pad_blank :: "nat \<Rightarrow> int \<Rightarrow> string" where
  "pad_blank w i = (let s = to_string i in replicate (w - length s) (CHR '' '') @ s)"

text \<open>\<open>snprintf\<close> into an array of \<open>n\<close> characters keeps the first \<open>n - 1\<close>.\<close>

definition snprintf_buf :: "nat \<Rightarrow> string \<Rightarrow> string" where
  "snprintf_buf n s = take (n - 1) s"

section \<open>Reading numbers\<close>

definition is_digit :: "char \<Rightarrow> bool" where
  "is_digit c \<longleftrightarrow> c \<in> set ''0123456789''"

definition digit_val :: "char \<Rightarrow> nat" where
  "digit_val c = of_char c - 48"

definition is_space :: "char \<Rightarrow> bool" where
  "is_space c \<longleftrightarrow> c \<in> set [CHR 0x20, CHR 0x09, CHR 0x0A, CHR 0x0B, CHR 0x0C, CHR 0x0D]"

primrec dec_val_acc :: "nat \<Rightarrow> string \<Rightarrow> nat" where
  "dec_val_acc a [] = a"
| "dec_val_acc a (c # cs) = dec_val_acc (10 * a + digit_val c) cs"

definition dec_val :: "string \<Rightarrow> nat" where
  "dec_val = dec_val_acc 0"

text \<open>The common front of the readers: white space, an optional sign, then the digits.\<close>

definition strto_scan :: "string \<Rightarrow> bool \<times> string" where
  "strto_scan s =
     (let s1 = dropWhile is_space s in
      case s1 of
        [] \<Rightarrow> (False, [])
      | c # cs \<Rightarrow> (if c = CHR ''-'' then (True, takeWhile is_digit cs)
                  else if c = CHR ''+'' then (False, takeWhile is_digit cs)
                  else (False, takeWhile is_digit s1)))"

definition std_stoi :: "string \<Rightarrow> int res" where
  "std_stoi s =
     (let (neg, ds) = strto_scan s; v = (if neg then - int (dec_val ds) else int (dec_val ds)) in
      if ds = [] then Inl (Thrown ''std::invalid_argument'')
      else if v < - (2 ^ 31) \<or> 2 ^ 31 \<le> v then Inl (Thrown ''std::out_of_range'')
      else Inr v)"

text \<open>\<open>strtoul\<close> negates modulo \<open>2 ^ 64\<close>.\<close>

definition std_stoul :: "string \<Rightarrow> nat res" where
  "std_stoul s =
     (let (neg, ds) = strto_scan s; v = dec_val ds in
      if ds = [] then Inl (Thrown ''std::invalid_argument'')
      else if 2 ^ 64 \<le> v then Inl (Thrown ''std::out_of_range'')
      else Inr (if neg then szsub 0 v else v))"

section \<open>Round trips\<close>

lemma digit_cases:
  "d < 10 \<Longrightarrow> d = 0 \<or> d = 1 \<or> d = 2 \<or> d = 3 \<or> d = 4 \<or> d = 5 \<or> d = 6 \<or> d = 7 \<or> d = 8 \<or> d = (9::nat)"
  by presburger

lemma is_digit_digit_char [simp]: "d < 10 \<Longrightarrow> is_digit (digit_char d)"
  using digit_cases [of d] by (auto simp: is_digit_def digit_char_def)

lemma digit_val_digit_char [simp]: "d < 10 \<Longrightarrow> digit_val (digit_char d) = d"
  using digit_cases [of d] by (auto simp: digit_val_def digit_char_def)

lemma dec_nat_nonempty [simp]: "dec_nat n \<noteq> []"
  by (subst dec_nat.simps) simp

lemma dec_nat_digits: "list_all is_digit (dec_nat n)"
proof (induction n rule: dec_nat.induct)
  case (1 n)
  then show ?case by (subst dec_nat.simps) auto
qed

lemma dec_val_acc_append: "dec_val_acc a (xs @ ys) = dec_val_acc (dec_val_acc a xs) ys"
  by (induction xs arbitrary: a) auto

lemma dec_val_snoc: "dec_val (xs @ [c]) = 10 * dec_val xs + digit_val c"
  by (simp add: dec_val_def dec_val_acc_append)

lemma dec_val_dec_nat [simp]: "dec_val (dec_nat n) = n"
proof (induction n rule: dec_nat.induct)
  case (1 n)
  show ?case
  proof (cases "n < 10")
    case True
    then show ?thesis by (subst dec_nat.simps) (simp add: dec_val_def)
  next
    case False
    with 1 show ?thesis by (subst dec_nat.simps) (simp add: dec_val_snoc)
  qed
qed

lemma dec_nat_inject [simp]: "dec_nat m = dec_nat n \<longleftrightarrow> m = n"
  by (metis dec_val_dec_nat)

lemma length_dec_nat: "0 < k \<Longrightarrow> n < 10 ^ k \<Longrightarrow> length (dec_nat n) \<le> k"
proof (induction n arbitrary: k rule: dec_nat.induct)
  case (1 n)
  show ?case
  proof (cases "n < 10")
    case True
    then show ?thesis using 1 by (subst dec_nat.simps) simp
  next
    case False
    with 1 obtain j where j: "k = Suc j" "0 < j"
      by (metis One_nat_def gr0_conv_Suc not_gr_zero power_one_right)
    then have "n div 10 < 10 ^ j" using 1 by (simp add: less_mult_imp_div_less mult.commute)
    with 1 False j show ?thesis by (subst dec_nat.simps) simp
  qed
qed

lemma takeWhile_all: "list_all P xs \<Longrightarrow> takeWhile P xs = xs"
  by (simp add: list_all_iff)

lemma dec_nat_hd: "is_digit (hd (dec_nat n))"
  using dec_nat_digits [of n] by (cases "dec_nat n") auto

lemma is_digit_no_sign: "is_digit c \<Longrightarrow> c \<noteq> CHR ''-'' \<and> c \<noteq> CHR ''+'' \<and> \<not> is_space c"
  by (auto simp: is_digit_def is_space_def)

lemma strto_scan_dec_nat: "strto_scan (dec_nat n) = (False, dec_nat n)"
  using dec_nat_hd [of n] dec_nat_digits [of n] is_digit_no_sign [of "hd (dec_nat n)"]
  by (cases "dec_nat n") (auto simp: strto_scan_def takeWhile_all)

lemma stoul_dec_nat: "n < 2 ^ 64 \<Longrightarrow> std_stoul (dec_nat n) = Inr n"
  by (simp add: std_stoul_def strto_scan_dec_nat)

lemma stoi_dec_nat: "n < 2 ^ 31 \<Longrightarrow> std_stoi (dec_nat n) = Inr (int n)"
  by (simp add: std_stoi_def strto_scan_dec_nat)

lemma to_string_of_nat [simp]: "to_string (int n) = dec_nat n"
  by (simp add: to_string_def)

lemma dec_nat_not_minus: "dec_nat n \<noteq> CHR ''-'' # xs"
  using dec_nat_hd [of n] is_digit_no_sign by (metis list.sel(1))

lemma to_string_inject: "to_string i = to_string j \<longleftrightarrow> i = j"
  by (auto simp: to_string_def dec_nat_not_minus dec_nat_not_minus [symmetric] split: if_splits)

lemma length_pad_zero:
  assumes "0 \<le> i" and "i < 10 ^ w" and "0 < w"
  shows "length (pad_zero w i) = w"
proof -
  have "nat \<bar>i\<bar> < 10 ^ w" using assms by (simp add: nat_less_iff)
  then have "length (dec_nat (nat \<bar>i\<bar>)) \<le> w" using assms(3) by (rule length_dec_nat [rotated])
  then show ?thesis using assms by (simp add: pad_zero_def Let_def)
qed

end
