(* ===== verification/Channel.thy ===== *)
theory Channel
  imports Decimal
begin

unbundle bit_operations_syntax

text \<open>
  \<open>src/net/Channel.h\<close> and \<open>src/net/Channel.cc\<close>: one descriptor, the events it is
  interested in and the callbacks it dispatches to. Event masks are 32-bit words. The operations
  that reach the poller (\<open>update\<close>, \<open>remove\<close> and the \<open>enable\<close>/\<open>disable\<close> calls) are in the
  theory of the event loop, which they call; here are the object, its masks and the dispatch of
  the returned events. A callback is known by its kind; whether one is set is a flag.
\<close>

section \<open>Event masks\<close>

type_synonym events = "32 word"

definition POLLIN :: events where "POLLIN = 0x001"
definition POLLPRI :: events where "POLLPRI = 0x002"
definition POLLOUT :: events where "POLLOUT = 0x004"
definition POLLERR :: events where "POLLERR = 0x008"
definition POLLHUP :: events where "POLLHUP = 0x010"
definition POLLNVAL :: events where "POLLNVAL = 0x020"
definition POLLRDHUP :: events where "POLLRDHUP = 0x2000"

lemmas poll_flags = POLLIN_def POLLPRI_def POLLOUT_def POLLERR_def POLLHUP_def POLLNVAL_def
  POLLRDHUP_def

definition kNoneEvent :: events where
  "kNoneEvent = 0"

definition kReadEvent :: events where
  "kReadEvent = POLLIN OR POLLPRI"

definition kWriteEvent :: events where
  "kWriteEvent = POLLOUT"

text \<open>A flag test as C++ writes it: \<open>mask & flag\<close> converted to \<open>bool\<close>.\<close>

definition has :: "events \<Rightarrow> events \<Rightarrow> bool" where
  "has ev flag \<longleftrightarrow> ev AND flag \<noteq> 0"

section \<open>The object\<close>

record Channel =
  ch_loop :: nat
  ch_fd :: int
  ch_events :: events
  ch_revents :: events
  ch_index :: int
  addedToLoop :: bool
  ch_eventHandling :: bool
  tied :: bool
  tie_alive :: bool
  has_readCallback :: bool
  has_writeCallback :: bool
  has_closeCallback :: bool
  has_errorCallback :: bool

definition Channel_new :: "nat \<Rightarrow> int \<Rightarrow> Channel" where
  "Channel_new loop fd =
     \<lparr>ch_loop = loop, ch_fd = fd, ch_events = 0, ch_revents = 0, ch_index = -1,
      addedToLoop = False, ch_eventHandling = False, tied = False, tie_alive = False,
      has_readCallback = False, has_writeCallback = False, has_closeCallback = False,
      has_errorCallback = False\<rparr>"

definition Channel_setReadCallback :: "Channel \<Rightarrow> Channel" where
  "Channel_setReadCallback ch = ch\<lparr>has_readCallback := True\<rparr>"

definition Channel_setWriteCallback :: "Channel \<Rightarrow> Channel" where
  "Channel_setWriteCallback ch = ch\<lparr>has_writeCallback := True\<rparr>"

definition Channel_setCloseCallback :: "Channel \<Rightarrow> Channel" where
  "Channel_setCloseCallback ch = ch\<lparr>has_closeCallback := True\<rparr>"

definition Channel_setErrorCallback :: "Channel \<Rightarrow> Channel" where
  "Channel_setErrorCallback ch = ch\<lparr>has_errorCallback := True\<rparr>"

definition Channel_tie :: "Channel \<Rightarrow> Channel" where
  "Channel_tie ch = ch\<lparr>tie_alive := True, tied := True\<rparr>"

definition set_revents :: "Channel \<Rightarrow> events \<Rightarrow> Channel" where
  "set_revents ch revt = ch\<lparr>ch_revents := revt\<rparr>"

definition set_index :: "Channel \<Rightarrow> int \<Rightarrow> Channel" where
  "set_index ch idx = ch\<lparr>ch_index := idx\<rparr>"

definition isNoneEvent :: "Channel \<Rightarrow> bool" where
  "isNoneEvent ch \<longleftrightarrow> ch_events ch = kNoneEvent"

definition isWriting :: "Channel \<Rightarrow> bool" where
  "isWriting ch \<longleftrightarrow> has (ch_events ch) kWriteEvent"

definition isReading :: "Channel \<Rightarrow> bool" where
  "isReading ch \<longleftrightarrow> has (ch_events ch) kReadEvent"

text \<open>The changes of the interest mask, without the \<open>update()\<close> that follows each of them.\<close>

definition mask_enableReading :: "events \<Rightarrow> events" where
  "mask_enableReading ev = ev OR kReadEvent"

definition mask_disableReading :: "events \<Rightarrow> events" where
  "mask_disableReading ev = ev AND NOT kReadEvent"

definition mask_enableWriting :: "events \<Rightarrow> events" where
  "mask_enableWriting ev = ev OR kWriteEvent"

definition mask_disableWriting :: "events \<Rightarrow> events" where
  "mask_disableWriting ev = ev AND NOT kWriteEvent"

definition mask_disableAll :: "events \<Rightarrow> events" where
  "mask_disableAll ev = ev AND kNoneEvent"

definition eventsToString :: "int \<Rightarrow> events \<Rightarrow> string" where
  "eventsToString fd ev =
     to_string fd @ '': '' @
     (if has ev POLLIN then ''IN '' else '''') @
     (if has ev POLLPRI then ''PRI '' else '''') @
     (if has ev POLLOUT then ''OUT '' else '''') @
     (if has ev POLLHUP then ''HUP '' else '''') @
     (if has ev POLLRDHUP then ''RDHUP '' else '''') @
     (if has ev POLLERR then ''ERR '' else '''') @
     (if has ev POLLNVAL then ''NVAL '' else '''')"

section \<open>Dispatch\<close>

datatype chan_event = CloseEv | ErrorEv | ReadEv | WriteEv

text \<open>
  \<open>handleEventWithGuard\<close>: the callbacks it calls, in order. \<open>revents_\<close> is only written by the
  poller, so the four tests see the same value.
\<close>

definition dispatch :: "Channel \<Rightarrow> chan_event list" where
  "dispatch ch =
     (if has (ch_revents ch) POLLHUP \<and> \<not> has (ch_revents ch) POLLIN \<and> has_closeCallback ch
      then [CloseEv] else []) @
     (if has (ch_revents ch) (POLLERR OR POLLNVAL) \<and> has_errorCallback ch then [ErrorEv] else []) @
     (if has (ch_revents ch) (POLLIN OR POLLPRI OR POLLRDHUP) \<and> has_readCallback ch
      then [ReadEv] else []) @
     (if has (ch_revents ch) POLLOUT \<and> has_writeCallback ch then [WriteEv] else [])"

text \<open>\<open>handleEvent\<close>: a tied channel whose owner is gone dispatches nothing.\<close>

definition handleEvent_calls :: "Channel \<Rightarrow> chan_event list" where
  "handleEvent_calls ch = (if tied ch \<and> \<not> tie_alive ch then [] else dispatch ch)"

section \<open>Facts\<close>

lemma has_iff_bit: "has ev flag \<longleftrightarrow> (\<exists>n. bit ev n \<and> bit flag n)"
  using bit_imp_le_length [of ev] by (fastforce simp: has_def bit_eq_iff bit_and_iff)

lemma has_or: "has ev (f OR g) \<longleftrightarrow> has ev f \<or> has ev g"
  by (auto simp: has_iff_bit bit_or_iff)

lemma mask_read_write_disjoint: "kReadEvent AND kWriteEvent = 0"
  by (simp add: kReadEvent_def kWriteEvent_def poll_flags)

lemma enableReading_isReading: "has (mask_enableReading ev) kReadEvent"
proof -
  have "mask_enableReading ev AND kReadEvent = kReadEvent"
    by (simp add: mask_enableReading_def word_ao_absorbs)
  then show ?thesis by (simp add: has_def kReadEvent_def poll_flags)
qed

lemma enableWriting_isWriting: "has (mask_enableWriting ev) kWriteEvent"
proof -
  have "mask_enableWriting ev AND kWriteEvent = kWriteEvent"
    by (simp add: mask_enableWriting_def word_ao_absorbs)
  then show ?thesis by (simp add: has_def kWriteEvent_def poll_flags)
qed

lemma disableWriting_not_isWriting: "\<not> has (mask_disableWriting ev) kWriteEvent"
  by (simp add: mask_disableWriting_def has_def word_bw_assocs)

lemma enableWriting_keeps_reading:
  "has (mask_enableWriting ev) kReadEvent = has ev kReadEvent"
  by (simp add: mask_enableWriting_def has_def bit.conj_disj_distrib2 kReadEvent_def kWriteEvent_def
      poll_flags)

lemma enableReading_keeps_writing:
  "has (mask_enableReading ev) kWriteEvent = has ev kWriteEvent"
  by (simp add: mask_enableReading_def has_def bit.conj_disj_distrib2 kReadEvent_def kWriteEvent_def
      poll_flags)

lemma disableWriting_keeps_reading:
  "has (mask_disableWriting ev) kReadEvent = has ev kReadEvent"
  by (simp add: mask_disableWriting_def has_def word_bw_assocs kReadEvent_def kWriteEvent_def
      poll_flags)

lemma mask_disableAll_eq [simp]: "mask_disableAll ev = 0"
  by (simp add: mask_disableAll_def kNoneEvent_def)

lemma has_0 [simp]: "\<not> has 0 flag"
  by (simp add: has_def)

end
