(* ===== verification/Timestamp.thy ===== *)
theory Timestamp
  imports Decimal
begin

text \<open>
  \<open>src/base/Timestamp.h\<close> and \<open>src/base/Timestamp.cc\<close>: instants as microseconds since the
  epoch. The \<open>int64_t\<close> is an \<open>int\<close>; \<open>addTime_int64\<close> shows that the additions stay in range
  for every instant and delay below \<open>2 ^ 62\<close>. Division and remainder truncate towards zero, as in C++.
  A \<open>double\<close> (a delay in seconds) is a dyadic number \<open>m * 2 ^ e\<close>; its product with the
  integer \<open>1000000\<close> is rounded to 53 significant bits, ties to even, and then truncated, which
  is what \<open>static_cast<int64_t>(seconds * kMicroSecondsPerSecond)\<close> computes for normal numbers.
  The clock (\<open>gettimeofday\<close>) and the broken-down local time are inputs.
\<close>

section \<open>Instants\<close>

datatype Timestamp = Timestamp (microSecondsSinceEpoch: int)

definition Timestamp_less :: "Timestamp \<Rightarrow> Timestamp \<Rightarrow> bool" where
  [simp]: "Timestamp_less lhs rhs \<longleftrightarrow> microSecondsSinceEpoch lhs < microSecondsSinceEpoch rhs"

text \<open>\<open>operator<\<close> as the order of the type, so that sets of entries are sorted by it.\<close>

instantiation Timestamp :: linorder
begin

definition less_Timestamp :: "Timestamp \<Rightarrow> Timestamp \<Rightarrow> bool" where
  "less_Timestamp lhs rhs \<longleftrightarrow> Timestamp_less lhs rhs"

definition less_eq_Timestamp :: "Timestamp \<Rightarrow> Timestamp \<Rightarrow> bool" where
  "less_eq_Timestamp lhs rhs \<longleftrightarrow> microSecondsSinceEpoch lhs \<le> microSecondsSinceEpoch rhs"

instance
  by standard (auto simp: less_Timestamp_def less_eq_Timestamp_def Timestamp.expand)

end

definition kMicroSecondsPerSecond :: int where
  "kMicroSecondsPerSecond = 1000 * 1000"

definition Timestamp_now :: "int \<Rightarrow> int \<Rightarrow> Timestamp" where
  "Timestamp_now tv_sec tv_usec = Timestamp (tv_sec * kMicroSecondsPerSecond + tv_usec)"

definition Timestamp_invalid :: Timestamp where
  "Timestamp_invalid = Timestamp 0"

definition fromUnixTime :: "int \<Rightarrow> int \<Rightarrow> Timestamp" where
  "fromUnixTime t microseconds = Timestamp (t * kMicroSecondsPerSecond + microseconds)"

definition Timestamp_valid :: "Timestamp \<Rightarrow> bool" where
  "Timestamp_valid t \<longleftrightarrow> microSecondsSinceEpoch t > 0"

definition secondsSinceEpoch :: "Timestamp \<Rightarrow> int" where
  "secondsSinceEpoch t = microSecondsSinceEpoch t sdiv kMicroSecondsPerSecond"

definition Timestamp_toString :: "Timestamp \<Rightarrow> string" where
  "Timestamp_toString t =
     (let seconds = microSecondsSinceEpoch t sdiv kMicroSecondsPerSecond;
          microseconds = microSecondsSinceEpoch t smod kMicroSecondsPerSecond
      in snprintf_buf 32 (to_string seconds @ ''.'' @ pad_zero 6 microseconds))"

text \<open>The fields of \<open>struct tm\<close> that the formatting functions read.\<close>

record tm =
  tm_year :: int
  tm_mon :: int
  tm_mday :: int
  tm_hour :: int
  tm_min :: int
  tm_sec :: int

definition format_date_time :: "tm \<Rightarrow> string" where
  "format_date_time t =
     pad_blank 4 (tm_year t + 1900) @ ''/'' @ pad_zero 2 (tm_mon t + 1) @ ''/'' @
     pad_zero 2 (tm_mday t) @ '' '' @ pad_zero 2 (tm_hour t) @ '':'' @
     pad_zero 2 (tm_min t) @ '':'' @ pad_zero 2 (tm_sec t)"

definition toFormattedString :: "(int \<Rightarrow> tm) \<Rightarrow> Timestamp \<Rightarrow> bool \<Rightarrow> string" where
  "toFormattedString localtime t showMicroseconds =
     (let seconds = microSecondsSinceEpoch t sdiv kMicroSecondsPerSecond;
          tm_time = localtime seconds in
      if showMicroseconds
      then snprintf_buf 64 (format_date_time tm_time @ ''.'' @
             pad_zero 6 (microSecondsSinceEpoch t smod kMicroSecondsPerSecond))
      else snprintf_buf 64 (format_date_time tm_time))"

section \<open>Delays in seconds\<close>

datatype double = Dbl (mantissa: int) (exponent: int)

fun bit_length :: "nat \<Rightarrow> nat" where
  "bit_length n = (if n = 0 then 0 else Suc (bit_length (n div 2)))"

declare bit_length.simps [simp del]

definition round_half_even :: "nat \<Rightarrow> nat \<Rightarrow> nat" where
  "round_half_even n k =
     (let q = n div 2 ^ k; r = n mod 2 ^ k
      in if 2 ^ k < 2 * r \<or> (2 * r = 2 ^ k \<and> odd q) then q + 1 else q)"

text \<open>The product with an integer, rounded to 53 bits.\<close>

definition dbl_mult_int :: "double \<Rightarrow> int \<Rightarrow> double" where
  "dbl_mult_int d i =
     (let p = mantissa d * i; k = bit_length (nat \<bar>p\<bar>) - 53
      in Dbl (sgn p * int (round_half_even (nat \<bar>p\<bar>) k)) (exponent d + int k))"

definition dbl_trunc :: "double \<Rightarrow> int" where
  "dbl_trunc d =
     (if 0 \<le> exponent d then mantissa d * 2 ^ nat (exponent d)
      else mantissa d sdiv 2 ^ nat (- exponent d))"

definition dbl_positive :: "double \<Rightarrow> bool" where
  "dbl_positive d \<longleftrightarrow> 0 < mantissa d"

definition addTime_delta :: "double \<Rightarrow> int" where
  "addTime_delta seconds = dbl_trunc (dbl_mult_int seconds kMicroSecondsPerSecond)"

definition addTime :: "Timestamp \<Rightarrow> double \<Rightarrow> Timestamp" where
  "addTime timestamp seconds =
     Timestamp (microSecondsSinceEpoch timestamp + addTime_delta seconds)"

section \<open>Facts\<close>

lemma bit_length_le: "n < 2 ^ k \<Longrightarrow> bit_length n \<le> k"
proof (induction n arbitrary: k rule: bit_length.induct)
  case (1 n)
  show ?case
  proof (cases "n = 0")
    case True
    then show ?thesis by (simp add: bit_length.simps)
  next
    case False
    with 1 obtain j where j: "k = Suc j" by (cases k) auto
    with 1 have "n div 2 < 2 ^ j" by auto
    with 1 False j show ?thesis by (subst bit_length.simps) auto
  qed
qed

lemma round_half_even_0 [simp]: "round_half_even n 0 = n"
  by (simp add: round_half_even_def)

text \<open>Whole numbers of seconds are converted exactly.\<close>

lemma addTime_delta_whole:
  assumes "0 \<le> n" and "n * 1000000 < 2 ^ 53"
  shows "addTime_delta (Dbl n 0) = n * 1000000"
proof -
  have "nat (n * 1000000) < 2 ^ 53" using assms by (simp add: nat_less_iff)
  then have k: "bit_length (nat (n * 1000000)) \<le> 53" by (rule bit_length_le)
  have "\<bar>n * 1000000\<bar> = n * 1000000" using assms by simp
  then show ?thesis using assms k
    by (auto simp: addTime_delta_def dbl_mult_int_def dbl_trunc_def kMicroSecondsPerSecond_def
        Let_def sgn_if)
qed

lemma sdiv_nonneg: "0 \<le> a \<Longrightarrow> 0 \<le> b \<Longrightarrow> 0 \<le> a sdiv (b::int)"
  by (cases "a = 0") (auto simp: signed_divide_int_def sgn_if pos_imp_zdiv_nonneg_iff)

lemma addTime_delta_nonneg: "0 \<le> mantissa d \<Longrightarrow> 0 \<le> addTime_delta d"
  by (auto simp: addTime_delta_def dbl_mult_int_def dbl_trunc_def kMicroSecondsPerSecond_def
      Let_def sgn_if intro!: sdiv_nonneg)

lemma addTime_mono: "0 \<le> mantissa d \<Longrightarrow> t \<le> addTime t d"
  using addTime_delta_nonneg [of d] by (simp add: addTime_def less_eq_Timestamp_def)

lemma addTime_int64:
  assumes "\<bar>microSecondsSinceEpoch t\<bar> < 2 ^ 62" and "\<bar>addTime_delta d\<bar> < 2 ^ 62"
  shows "- (2 ^ 63) \<le> microSecondsSinceEpoch (addTime t d) \<and>
    microSecondsSinceEpoch (addTime t d) < 2 ^ 63"
  using assms by (auto simp: addTime_def)

lemma sdiv_pos_eq_div: "0 \<le> a \<Longrightarrow> 0 < b \<Longrightarrow> a sdiv b = a div (b::int)"
  by (cases "a = 0") (auto simp: signed_divide_int_def)

lemma smod_pos_eq_mod: "0 \<le> a \<Longrightarrow> 0 < b \<Longrightarrow> a smod b = a mod (b::int)"
  by (cases "a = 0") (auto simp: signed_modulo_int_def)

end
