(* ===== verification/EPollPoller.thy ===== *)
theory EPollPoller
  imports Channel Timestamp
begin

text \<open>
  \<open>src/net/Poller.h\<close>, \<open>Poller.cc\<close>, \<open>EPollPoller.h\<close>, \<open>EPollPoller.cc\<close> and the thread check of
  \<open>EventLoop.h\<close>: the map from descriptors to channels and the kernel's interest list.

  A \<open>Channel *\<close> is an address into \<open>chan_store\<close>. The kernel is not part of the repository:
  \<open>epoll_set\<close> is its interest list and \<open>epoll_ctl_fails\<close> says which \<open>epoll_ctl\<close> calls it
  refuses; what a successful call does to the list is the documented effect. \<open>epoll_wait\<close>'s
  outcome is an input of \<open>poll\<close>.
\<close>

section \<open>The owner thread\<close>

record loop_thread =
  loop_id :: nat
  threadId :: nat
  this_thread :: nat

definition isInLoopThread :: "'z loop_thread_scheme \<Rightarrow> bool" where
  "isInLoopThread st \<longleftrightarrow> threadId st = this_thread st"

definition assertInLoopThread :: "'z loop_thread_scheme \<Rightarrow> 'a res \<Rightarrow> 'a res" where
  "assertInLoopThread st k =
     (if \<not> isInLoopThread st then Inl (FatalLog ''abortNotInLoopThread'') else k)"

section \<open>The poller\<close>

datatype ctl_op = EPOLL_CTL_ADD | EPOLL_CTL_MOD | EPOLL_CTL_DEL

type_synonym chan_ptr = nat
type_synonym interest = "int \<rightharpoonup> events \<times> chan_ptr"

record Poller = loop_thread +
  chan_store :: "chan_ptr \<rightharpoonup> Channel"
  channels :: "int \<rightharpoonup> chan_ptr"
  events_size :: nat
  epoll_set :: interest
  epoll_ctl_fails :: "ctl_op \<Rightarrow> int \<Rightarrow> interest \<Rightarrow> bool"

definition kNew :: int where "kNew = -1"
definition kAdded :: int where "kAdded = 1"
definition kDeleted :: int where "kDeleted = 2"

definition kInitEventListSize :: nat where
  "kInitEventListSize = 16"

definition EPollPoller_new ::
    "nat \<Rightarrow> nat \<Rightarrow> (ctl_op \<Rightarrow> int \<Rightarrow> interest \<Rightarrow> bool) \<Rightarrow> int \<Rightarrow> Poller res" where
  "EPollPoller_new loop tid fails epollfd =
     (if epollfd < 0 then Inl (FatalLog ''EPollPoller::EPollPoller'')
      else Inr \<lparr>loop_id = loop, threadId = tid, this_thread = tid, chan_store = Map.empty,
                channels = Map.empty, events_size = kInitEventListSize, epoll_set = Map.empty,
                epoll_ctl_fails = fails\<rparr>)"

definition chan_deref :: "'z Poller_scheme \<Rightarrow> chan_ptr \<Rightarrow> Channel res" where
  "chan_deref st p =
     (case chan_store st p of None \<Rightarrow> Inl (BadAccess ''Channel'') | Some ch \<Rightarrow> Inr ch)"

definition chan_put :: "'z Poller_scheme \<Rightarrow> chan_ptr \<Rightarrow> Channel \<Rightarrow> 'z Poller_scheme" where
  "chan_put st p ch = st\<lparr>chan_store := (chan_store st)(p \<mapsto> ch)\<rparr>"

definition Poller_hasChannel :: "'z Poller_scheme \<Rightarrow> chan_ptr \<Rightarrow> bool res" where
  "Poller_hasChannel st p =
     assertInLoopThread st
       (bindR (chan_deref st p) (\<lambda>ch. Inr (channels st (ch_fd ch) = Some p)))"

fun epoll_effect :: "ctl_op \<Rightarrow> int \<Rightarrow> events \<times> chan_ptr \<Rightarrow> interest \<Rightarrow> interest" where
  "epoll_effect EPOLL_CTL_DEL fd ev m = m(fd := None)"
| "epoll_effect _ fd ev m = m(fd \<mapsto> ev)"

definition EPollPoller_update ::
    "'z Poller_scheme \<Rightarrow> ctl_op \<Rightarrow> chan_ptr \<Rightarrow> 'z Poller_scheme res" where
  "EPollPoller_update st operation p =
     bindR (chan_deref st p) (\<lambda>ch.
       let event = (ch_events ch, p); fd = ch_fd ch in
       if epoll_ctl_fails st operation fd (epoll_set st)
       then (if operation = EPOLL_CTL_DEL then Inr st
             else Inl (FatalLog ''epoll_ctl add/mod error:''))
       else Inr (st\<lparr>epoll_set := epoll_effect operation fd event (epoll_set st)\<rparr>))"

definition EPollPoller_updateChannel ::
    "'z Poller_scheme \<Rightarrow> chan_ptr \<Rightarrow> 'z Poller_scheme res" where
  "EPollPoller_updateChannel st p =
     assertInLoopThread st (bindR (chan_deref st p) (\<lambda>ch.
       let index = ch_index ch; fd = ch_fd ch in
       if index = kNew \<or> index = kDeleted
       then bindR (if index = kNew
                   then assertR (channels st fd = None) ''channels_.find(fd) == channels_.end()''
                          (Inr (st\<lparr>channels := (channels st)(fd \<mapsto> p)\<rparr>))
                   else assertR (channels st fd \<noteq> None) ''channels_.find(fd) != channels_.end()''
                          (assertR (channels st fd = Some p) ''channels_[fd] == channel'' (Inr st)))
              (\<lambda>st1. EPollPoller_update (chan_put st1 p (set_index ch kAdded)) EPOLL_CTL_ADD p)
       else assertR (channels st fd \<noteq> None) ''channels_.find(fd) != channels_.end()''
              (assertR (channels st fd = Some p) ''channels_[fd] == channel''
                (assertR (index = kAdded) ''index == kAdded''
                  (if isNoneEvent ch
                   then bindR (EPollPoller_update st EPOLL_CTL_DEL p)
                          (\<lambda>st1. Inr (chan_put st1 p (set_index ch kDeleted)))
                   else EPollPoller_update st EPOLL_CTL_MOD p)))))"

definition EPollPoller_removeChannel ::
    "'z Poller_scheme \<Rightarrow> chan_ptr \<Rightarrow> 'z Poller_scheme res" where
  "EPollPoller_removeChannel st p =
     assertInLoopThread st (bindR (chan_deref st p) (\<lambda>ch.
       let fd = ch_fd ch; index = ch_index ch in
       assertR (channels st fd \<noteq> None) ''channels_.find(fd) != channels_.end()''
         (assertR (channels st fd = Some p) ''channels_[fd] == channel''
           (assertR (isNoneEvent ch) ''channel->isNoneEvent()''
             (assertR (index = kAdded \<or> index = kDeleted) ''index == kAdded || index == kDeleted''
               (let st1 = st\<lparr>channels := (channels st)(fd := None)\<rparr> in
                bindR (if index = kAdded then EPollPoller_update st1 EPOLL_CTL_DEL p else Inr st1)
                  (\<lambda>st2. Inr (chan_put st2 p (set_index ch kNew)))))))))"

datatype wait_result = WaitErr int | WaitOk "(chan_ptr \<times> events) list"

definition fill_one ::
    "chan_ptr \<times> events \<Rightarrow> 'z Poller_scheme \<times> chan_ptr list \<Rightarrow>
     ('z Poller_scheme \<times> chan_ptr list) res" where
  "fill_one ev acc = (case ev of (channel, revt) \<Rightarrow> (case acc of (st, activeChannels) \<Rightarrow>
     bindR (chan_deref st channel) (\<lambda>ch.
       assertR (channels st (ch_fd ch) \<noteq> None) ''it != channels_.end()''
         (assertR (channels st (ch_fd ch) = Some channel) ''it->second == channel''
           (Inr (chan_put st channel (set_revents ch revt), activeChannels @ [channel]))))))"

definition fillActiveChannels ::
    "'z Poller_scheme \<Rightarrow> (chan_ptr \<times> events) list \<Rightarrow> chan_ptr list \<Rightarrow>
     ('z Poller_scheme \<times> chan_ptr list) res" where
  "fillActiveChannels st evs activeChannels =
     assertR (length evs \<le> events_size st) ''numEvents <= events_.size()''
       (foldR fill_one evs (st, activeChannels))"

definition EPollPoller_poll ::
    "'z Poller_scheme \<Rightarrow> wait_result \<Rightarrow> chan_ptr list \<Rightarrow> ('z Poller_scheme \<times> chan_ptr list) res" where
  "EPollPoller_poll st r activeChannels =
     (case r of
        WaitErr savedErrno \<Rightarrow> Inr (st, activeChannels)
      | WaitOk evs \<Rightarrow>
          if evs = [] then Inr (st, activeChannels)
          else bindR (fillActiveChannels st evs activeChannels) (\<lambda>(st1, act).
                 Inr (if length evs = events_size st1
                      then st1\<lparr>events_size := events_size st1 * 2\<rparr> else st1, act)))"

section \<open>Invariant\<close>

text \<open>
  What \<open>epoll_ctl(2)\<close> documents and the poller relies on: adding a descriptor that is not in the
  interest list, and changing or removing one that is, succeeds.
\<close>

definition epoll_contract :: "(ctl_op \<Rightarrow> int \<Rightarrow> interest \<Rightarrow> bool) \<Rightarrow> bool" where
  "epoll_contract fails \<longleftrightarrow>
     (\<forall>fd m. (m fd = None \<longrightarrow> \<not> fails EPOLL_CTL_ADD fd m) \<and>
       (m fd \<noteq> None \<longrightarrow> \<not> fails EPOLL_CTL_MOD fd m \<and> \<not> fails EPOLL_CTL_DEL fd m))"

text \<open>A kernel that keeps the contract and refuses everything else.\<close>

definition linux_epoll_fails :: "ctl_op \<Rightarrow> int \<Rightarrow> interest \<Rightarrow> bool" where
  "linux_epoll_fails opr fd m \<longleftrightarrow> ((m fd = None) \<noteq> (opr = EPOLL_CTL_ADD))"

lemma linux_epoll_contract: "epoll_contract linux_epoll_fails"
  by (simp add: epoll_contract_def linux_epoll_fails_def)

text \<open>The interest list the channels ask for.\<close>

definition registered :: "'z Poller_scheme \<Rightarrow> interest" where
  "registered st fd =
     (case channels st fd of None \<Rightarrow> None
      | Some p \<Rightarrow> (case chan_store st p of None \<Rightarrow> None
          | Some ch \<Rightarrow> if ch_index ch = kAdded then Some (ch_events ch, p) else None))"

definition chan_inv :: "'z Poller_scheme \<Rightarrow> chan_ptr \<Rightarrow> Channel \<Rightarrow> bool" where
  "chan_inv st p ch \<longleftrightarrow>
     ch_index ch \<in> {kNew, kAdded, kDeleted} \<and>
     (channels st (ch_fd ch) = Some p \<longleftrightarrow> ch_index ch \<noteq> kNew) \<and>
     (ch_index ch \<noteq> kAdded \<longrightarrow> ch_events ch = kNoneEvent)"

definition poller_inv :: "'z Poller_scheme \<Rightarrow> bool" where
  "poller_inv st \<longleftrightarrow>
     0 < events_size st \<and>
     (\<forall>p ch. chan_store st p = Some ch \<longrightarrow> chan_inv st p ch) \<and>
     (\<forall>fd p. channels st fd = Some p \<longrightarrow> (\<exists>ch. chan_store st p = Some ch \<and> ch_fd ch = fd)) \<and>
     epoll_set st = registered st"

lemmas index_defs = kNew_def kAdded_def kDeleted_def

lemma poller_invD:
  assumes "poller_inv st"
  shows "0 < events_size st"
    and "chan_store st p = Some ch \<Longrightarrow> chan_inv st p ch"
    and "channels st fd = Some p \<Longrightarrow> \<exists>ch. chan_store st p = Some ch \<and> ch_fd ch = fd"
    and "epoll_set st = registered st"
  using assms by (auto simp: poller_inv_def)

lemma chan_deref_Some [simp]: "chan_store st p = Some ch \<Longrightarrow> chan_deref st p = Inr ch"
  by (simp add: chan_deref_def)

lemma chan_deref_None [simp]: "chan_store st p = None \<Longrightarrow> chan_deref st p = Inl (BadAccess ''Channel'')"
  by (simp add: chan_deref_def)

lemma chan_put_simps [simp]:
  "chan_store (chan_put st p ch) = (chan_store st)(p \<mapsto> ch)"
  "channels (chan_put st p ch) = channels st"
  "epoll_set (chan_put st p ch) = epoll_set st"
  "events_size (chan_put st p ch) = events_size st"
  "epoll_ctl_fails (chan_put st p ch) = epoll_ctl_fails st"
  "loop_id (chan_put st p ch) = loop_id st"
  "isInLoopThread (chan_put st p ch) = isInLoopThread st"
  by (simp_all add: chan_put_def isInLoopThread_def)

lemma assertInLoopThread_simps [simp, res_simps]:
  "isInLoopThread st \<Longrightarrow> assertInLoopThread st k = k"
  "\<not> isInLoopThread st \<Longrightarrow> assertInLoopThread st k = Inl (FatalLog ''abortNotInLoopThread'')"
  by (simp_all add: assertInLoopThread_def)

lemma assertInLoopThread_eq_Inr:
  "assertInLoopThread st k = Inr y \<longleftrightarrow> isInLoopThread st \<and> k = Inr y"
  by (simp add: assertInLoopThread_def)

lemma set_index_simps [simp]:
  "ch_index (set_index ch i) = i" "ch_fd (set_index ch i) = ch_fd ch"
  "ch_events (set_index ch i) = ch_events ch" "ch_loop (set_index ch i) = ch_loop ch"
  "addedToLoop (set_index ch i) = addedToLoop ch"
  by (simp_all add: set_index_def)

lemma set_revents_simps [simp]:
  "ch_index (set_revents ch r) = ch_index ch" "ch_fd (set_revents ch r) = ch_fd ch"
  "ch_events (set_revents ch r) = ch_events ch" "ch_loop (set_revents ch r) = ch_loop ch"
  "ch_revents (set_revents ch r) = r"
  by (simp_all add: set_revents_def)

lemma epoll_contractD:
  assumes "epoll_contract fails"
  shows "m fd = None \<Longrightarrow> \<not> fails EPOLL_CTL_ADD fd m"
    and "m fd = Some x \<Longrightarrow> \<not> fails EPOLL_CTL_MOD fd m"
    and "m fd = Some x \<Longrightarrow> \<not> fails EPOLL_CTL_DEL fd m"
  using assms by (auto simp: epoll_contract_def)

section \<open>Registration\<close>

text \<open>
  \<open>updateChannel\<close> after the interest mask of channel \<open>p\<close> has changed from that of \<open>ch\<close> to that
  of \<open>ch'\<close>: the call succeeds and leaves the channel registered with the kernel for exactly the
  new mask.
\<close>

definition update_result :: "'z Poller_scheme \<Rightarrow> chan_ptr \<Rightarrow> Channel \<Rightarrow> 'z Poller_scheme" where
  "update_result st p ch =
     (if ch_index ch = kAdded \<and> isNoneEvent ch
      then st\<lparr>chan_store := (chan_store st)(p \<mapsto> set_index ch kDeleted),
              epoll_set := (epoll_set st)(ch_fd ch := None)\<rparr>
      else st\<lparr>channels := (channels st)(ch_fd ch \<mapsto> p),
              chan_store := (chan_store st)(p \<mapsto> set_index ch kAdded),
              epoll_set := (epoll_set st)(ch_fd ch \<mapsto> (ch_events ch, p))\<rparr>)"

lemma set_index_same: "ch_index ch = i \<Longrightarrow> set_index ch i = ch"
  by (simp add: set_index_def)

lemma registered_fd:
  assumes "poller_inv st" and "chan_store st p = Some ch"
    and "ch_index ch = kNew \<Longrightarrow> channels st (ch_fd ch) = None"
  shows "epoll_set st (ch_fd ch) = (if ch_index ch = kAdded then Some (ch_events ch, p) else None)"
  using poller_invD(2) [OF assms(1,2)] poller_invD(4) [OF assms(1)] assms(2,3)
  by (cases "ch_index ch = kNew") (auto simp: registered_def chan_inv_def index_defs)

lemma updateChannel_eq:
  assumes inv: "poller_inv st" and p: "chan_store st p = Some ch"
    and k: "epoll_contract (epoll_ctl_fails st)" and t: "isInLoopThread st"
    and free: "ch_index ch = kNew \<Longrightarrow> channels st (ch_fd ch) = None"
    and same: "ch_fd ch' = ch_fd ch" "ch_index ch' = ch_index ch"
  shows "EPollPoller_updateChannel (chan_put st p ch') p = Inr (update_result st p ch')"
proof -
  note reg = registered_fd [OF inv p free]
  note ci = poller_invD(2) [OF inv p]
  note kd = epoll_contractD [OF k]
  consider (new) "ch_index ch = kNew" | (deleted) "ch_index ch = kDeleted"
    | (added) "ch_index ch = kAdded" using ci by (auto simp: chan_inv_def)
  then show ?thesis
  proof cases
    case new
    with reg kd(1) free same t show ?thesis
      by (simp add: EPollPoller_updateChannel_def EPollPoller_update_def update_result_def
          chan_put_def isInLoopThread_def assertInLoopThread_def chan_deref_def index_defs Let_def)
  next
    case deleted
    with reg kd(1) ci same t show ?thesis
      by (simp add: EPollPoller_updateChannel_def EPollPoller_update_def update_result_def
          chan_put_def isInLoopThread_def assertInLoopThread_def chan_deref_def index_defs Let_def chan_inv_def
          fun_upd_idem)
  next
    case added
    with reg kd(2,3) ci same t set_index_same [of ch' kAdded] show ?thesis
      by (simp add: EPollPoller_updateChannel_def EPollPoller_update_def update_result_def
          chan_put_def isInLoopThread_def assertInLoopThread_def chan_deref_def index_defs Let_def chan_inv_def
          fun_upd_idem)
  qed
qed

lemma poller_invI:
  assumes "0 < events_size st"
    and "\<And>p ch. chan_store st p = Some ch \<Longrightarrow> chan_inv st p ch"
    and "\<And>fd p. channels st fd = Some p \<Longrightarrow> \<exists>ch. chan_store st p = Some ch \<and> ch_fd ch = fd"
    and "\<And>fd. epoll_set st fd = registered st fd"
  shows "poller_inv st"
  using assms by (auto simp: poller_inv_def)

text \<open>Two channels never own the same descriptor.\<close>

lemma owner_unique:
  assumes "poller_inv st" and "channels st fd = Some p"
    and "chan_store st q = Some c" and "ch_fd c = fd" and "q \<noteq> p"
  shows "ch_index c = kNew"
  using poller_invD(2) [OF assms(1,3)] assms(2,4,5) by (auto simp: chan_inv_def)

lemma updateChannel_inv:
  assumes inv: "poller_inv st" and p: "chan_store st p = Some ch"
    and free: "ch_index ch = kNew \<Longrightarrow> channels st (ch_fd ch) = None"
    and same: "ch_fd ch' = ch_fd ch" "ch_index ch' = ch_index ch"
  shows "poller_inv (update_result st p ch')"
proof -
  let ?s = "update_result st p ch'"
  note I = poller_invD [OF inv]
  have ci: "chan_inv st p ch" using I(2) p .
  have chans: "channels ?s = (channels st)(ch_fd ch \<mapsto> p)"
    using ci same by (auto simp: update_result_def chan_inv_def index_defs)
  have store: "chan_store ?s = (chan_store st)(p \<mapsto> set_index ch'
      (if ch_index ch = kAdded \<and> isNoneEvent ch' then kDeleted else kAdded))"
    using same by (simp add: update_result_def)
  have epoll: "epoll_set ?s = (epoll_set st)(ch_fd ch :=
      (if ch_index ch = kAdded \<and> isNoneEvent ch' then None else Some (ch_events ch', p)))"
    using same by (simp add: update_result_def)
  have owner: "q = p" if "channels st (ch_fd ch) = Some q" for q
    using that ci free by (auto simp: chan_inv_def)
  show ?thesis
  proof (rule poller_invI)
    show "0 < events_size ?s" using I(1) by (simp add: update_result_def)
  next
    fix q c assume q: "chan_store ?s q = Some c"
    show "chan_inv ?s q c"
    proof (cases "q = p")
      case True
      with q have "c = set_index ch'
          (if ch_index ch = kAdded \<and> isNoneEvent ch' then kDeleted else kAdded)"
        by (simp add: store)
      with True same show ?thesis
        by (simp add: chan_inv_def chans isNoneEvent_def index_defs)
    next
      case False
      with q have c: "chan_store st q = Some c" by (simp add: store)
      moreover have "ch_index c = kNew" if "ch_fd c = ch_fd ch"
        using I(2) [OF c] owner [of q] that False by (auto simp: chan_inv_def)
      ultimately show ?thesis using I(2) [OF c] False by (auto simp: chan_inv_def chans)
    qed
  next
    fix fd q assume "channels ?s fd = Some q"
    then show "\<exists>c. chan_store ?s q = Some c \<and> ch_fd c = fd"
      using I(3) [of fd q] p same by (auto simp: chans store split: if_splits)
  next
    fix fd
    show "epoll_set ?s fd = registered ?s fd"
    proof (cases "fd = ch_fd ch")
      case True
      then show ?thesis
        by (simp add: registered_def chans store epoll index_defs)
    next
      case False
      then have "channels st fd \<noteq> Some p" using I(3) [of fd p] p by auto
      then show ?thesis using I(4) False
        by (auto simp: registered_def chans store epoll split: option.split)
    qed
  qed
qed

definition remove_result :: "'z Poller_scheme \<Rightarrow> chan_ptr \<Rightarrow> Channel \<Rightarrow> 'z Poller_scheme" where
  "remove_result st p ch =
     st\<lparr>channels := (channels st)(ch_fd ch := None),
        chan_store := (chan_store st)(p \<mapsto> set_index ch kNew),
        epoll_set := (epoll_set st)(ch_fd ch := None)\<rparr>"

lemma removeChannel_eq:
  assumes inv: "poller_inv st" and p: "chan_store st p = Some ch"
    and k: "epoll_contract (epoll_ctl_fails st)" and t: "isInLoopThread st"
    and idx: "ch_index ch \<noteq> kNew" and none: "isNoneEvent ch"
  shows "EPollPoller_removeChannel st p = Inr (remove_result st p ch)"
proof -
  note reg = registered_fd [OF inv p] and ci = poller_invD(2) [OF inv p]
  note kd = epoll_contractD [OF k]
  consider (deleted) "ch_index ch = kDeleted" | (added) "ch_index ch = kAdded"
    using ci idx by (auto simp: chan_inv_def)
  then show ?thesis
  proof cases
    case deleted
    with reg ci t p none show ?thesis
      by (simp add: EPollPoller_removeChannel_def remove_result_def chan_put_def chan_inv_def
          Let_def index_defs fun_upd_idem)
  next
    case added
    with reg kd(3) ci t p none show ?thesis
      by (simp add: EPollPoller_removeChannel_def EPollPoller_update_def remove_result_def
          chan_put_def chan_deref_def chan_inv_def Let_def index_defs)
  qed
qed

lemma removeChannel_inv:
  assumes inv: "poller_inv st" and p: "chan_store st p = Some ch"
    and idx: "ch_index ch \<noteq> kNew" and none: "isNoneEvent ch"
  shows "poller_inv (remove_result st p ch)"
proof -
  note I = poller_invD [OF inv]
  have own: "channels st (ch_fd ch) = Some p" using I(2) [OF p] idx by (simp add: chan_inv_def)
  show ?thesis
  proof (rule poller_invI)
    fix q c assume "chan_store (remove_result st p ch) q = Some c"
    then show "chan_inv (remove_result st p ch) q c"
      using I(2) [of q c] own none
      by (auto simp: remove_result_def chan_inv_def isNoneEvent_def split: if_splits)
  next
    fix fd
    have "channels st fd \<noteq> Some p" if "fd \<noteq> ch_fd ch" using I(3) [of fd p] p that by auto
    then show "epoll_set (remove_result st p ch) fd = registered (remove_result st p ch) fd"
      using I(4) by (auto simp: remove_result_def registered_def split: option.split)
  next
    fix fd q assume "channels (remove_result st p ch) fd = Some q"
    then show "\<exists>c. chan_store (remove_result st p ch) q = Some c \<and> ch_fd c = fd"
      using I(3) [of fd q] p by (auto simp: remove_result_def split: if_splits)
  qed (use I(1) in \<open>simp add: remove_result_def\<close>)
qed

text \<open>A channel that is not registered cannot be removed.\<close>

lemma removeChannel_unregistered:
  assumes "poller_inv st" and "chan_store st p = Some ch" and "ch_index ch = kNew"
    and "isInLoopThread st"
  shows "\<exists>msg. EPollPoller_removeChannel st p = Inl (AssertFail msg)"
  using poller_invD(2) [OF assms(1,2)] assms(2-4)
  by (auto simp: EPollPoller_removeChannel_def chan_inv_def assertR_def Let_def index_defs)

section \<open>Polling\<close>

text \<open>
  What \<open>epoll_wait(2)\<close> documents: at most \<open>maxevents\<close> entries, each carrying the \<open>data\<close> of a
  descriptor in the interest list, and no descriptor twice.
\<close>

definition wait_contract :: "'z Poller_scheme \<Rightarrow> (chan_ptr \<times> events) list \<Rightarrow> bool" where
  "wait_contract st evs \<longleftrightarrow>
     length evs \<le> events_size st \<and> distinct (map fst evs) \<and>
     list_all (\<lambda>(p, _). \<exists>fd ev. epoll_set st fd = Some (ev, p)) evs"

text \<open>The store after the poller has written the returned events.\<close>

definition with_revents :: "(chan_ptr \<times> events) list \<Rightarrow> (chan_ptr \<rightharpoonup> Channel) \<Rightarrow> (chan_ptr \<rightharpoonup> Channel)" where
  "with_revents evs store p =
     (case map_of evs p of None \<Rightarrow> store p
      | Some ev \<Rightarrow> map_option (\<lambda>ch. set_revents ch ev) (store p))"

lemma fill_ok:
  assumes "poller_inv st" and "epoll_set st fd = Some (ev, p)"
  obtains ch where "chan_store st p = Some ch" "channels st (ch_fd ch) = Some p"
proof -
  have "registered st fd = Some (ev, p)" using assms by (simp add: poller_inv_def)
  then obtain ch where c: "channels st fd = Some p" "chan_store st p = Some ch"
    by (auto simp: registered_def split: option.splits if_splits)
  with poller_invD(3) [OF assms(1) c(1)] that show ?thesis by auto
qed

lemma fill_loop:
  assumes "distinct (map fst evs)"
    and "\<forall>(p, _) \<in> set evs. \<exists>ch. chan_store st p = Some ch \<and> channels st (ch_fd ch) = Some p"
  shows "foldR fill_one evs (st, act) =
    Inr (st\<lparr>chan_store := with_revents evs (chan_store st)\<rparr>, act @ map fst evs)"
  using assms
proof (induction evs arbitrary: st act)
  case Nil
  have "with_revents [] (chan_store st) = chan_store st" by (auto simp: with_revents_def)
  then show ?case by simp
next
  case (Cons e evs)
  obtain p r where e: "e = (p, r)" by (cases e)
  from Cons.prems(2) e obtain ch where ch: "chan_store st p = Some ch" "channels st (ch_fd ch) = Some p"
    by auto
  let ?st = "chan_put st p (set_revents ch r)"
  have other: "q \<noteq> p" if "(q, x) \<in> set evs" for q x
    using Cons.prems(1) e that by (auto simp: image_iff)
  have "foldR fill_one evs (?st, act @ [p]) =
      Inr (?st\<lparr>chan_store := with_revents evs (chan_store ?st)\<rparr>, (act @ [p]) @ map fst evs)"
    by (rule Cons.IH) (use Cons.prems e other in \<open>fastforce+\<close>)
  moreover have "with_revents evs (chan_store ?st) = with_revents (e # evs) (chan_store st)"
  proof
    fix q
    have "map_of evs p = None" using Cons.prems(1) e by (simp add: map_of_eq_None_iff)
    then show "with_revents evs (chan_store ?st) q = with_revents (e # evs) (chan_store st) q"
      using ch e by (auto simp: with_revents_def split: option.split)
  qed
  moreover have "fill_one e (st, act) = Inr (?st, act @ [p])" using ch e by (simp add: fill_one_def)
  ultimately show ?case using e by (simp add: chan_put_def)
qed

lemma with_revents_Some:
  "with_revents evs store p = Some ch' \<longleftrightarrow>
   (\<exists>ch. store p = Some ch \<and>
      ch' = (case map_of evs p of None \<Rightarrow> ch | Some ev \<Rightarrow> set_revents ch ev))"
  by (auto simp: with_revents_def split: option.splits)

text \<open>Writing \<open>revents_\<close> and resizing the event array is invisible to the registration.\<close>

lemma poller_inv_revents:
  assumes "poller_inv st" and "0 < n"
  shows "poller_inv (st\<lparr>chan_store := with_revents evs (chan_store st), events_size := n\<rparr>)"
proof (rule poller_invI)
  let ?s = "st\<lparr>chan_store := with_revents evs (chan_store st), events_size := n\<rparr>"
  note I = poller_invD [OF assms(1)]
  fix fd
  show "epoll_set ?s fd = registered ?s fd"
    using I(4) by (auto simp: registered_def with_revents_def split: option.split)
next
  let ?s = "st\<lparr>chan_store := with_revents evs (chan_store st), events_size := n\<rparr>"
  note I = poller_invD [OF assms(1)]
  fix q c assume "chan_store ?s q = Some c"
  then obtain ch where ch: "chan_store st q = Some ch"
    "c = (case map_of evs q of None \<Rightarrow> ch | Some ev \<Rightarrow> set_revents ch ev)"
    by (auto simp: with_revents_Some)
  then show "chan_inv ?s q c" using I(2) [OF ch(1)] by (auto simp: chan_inv_def split: option.split)
next
  let ?s = "st\<lparr>chan_store := with_revents evs (chan_store st), events_size := n\<rparr>"
  note I = poller_invD [OF assms(1)]
  fix fd q assume "channels ?s fd = Some q"
  then show "\<exists>c. chan_store ?s q = Some c \<and> ch_fd c = fd"
    using I(3) [of fd q] by (auto simp: with_revents_def split: option.split)
qed (use assms(2) in simp)

lemma poll_eq:
  assumes inv: "poller_inv st" and w: "wait_contract st evs"
  shows "EPollPoller_poll st (WaitOk evs) act =
    Inr (st\<lparr>chan_store := with_revents evs (chan_store st),
            events_size := (if length evs = events_size st then 2 * events_size st else events_size st)\<rparr>,
         act @ map fst evs)"
proof (cases "evs = []")
  case True
  have "with_revents [] (chan_store st) = chan_store st" by (auto simp: with_revents_def)
  with True poller_invD(1) [OF inv] show ?thesis by (simp add: EPollPoller_poll_def)
next
  case False
  have "\<exists>ch. chan_store st p = Some ch \<and> channels st (ch_fd ch) = Some p" if "(p, r) \<in> set evs" for p r
  proof -
    from w that obtain fd ev where "epoll_set st fd = Some (ev, p)"
      by (auto simp: wait_contract_def list_all_iff)
    with inv show ?thesis by (metis fill_ok)
  qed
  then have "\<forall>(p, _) \<in> set evs. \<exists>ch. chan_store st p = Some ch \<and> channels st (ch_fd ch) = Some p"
    by blast
  with w False show ?thesis
    by (simp add: EPollPoller_poll_def fillActiveChannels_def fill_loop wait_contract_def mult.commute)
qed

end
