(* ===== verification/Std_Set.thy ===== *)
theory Std_Set
  imports Prelude
begin

text \<open>
  \<open>std::set\<close> as the sources use it: a strictly ascending list with insertion, erasure, search
  and \<open>lower_bound\<close>. The locale \<open>ordered_set\<close> is the contract; the timer queue's lemmas rest
  on its interpretation \<open>os\<close>.
\<close>

fun oset_insert :: "'a::linorder \<Rightarrow> 'a list \<Rightarrow> 'a list" where
  "oset_insert x [] = [x]"
| "oset_insert x (y # ys) =
     (if x < y then x # y # ys else if x = y then y # ys else y # oset_insert x ys)"

fun oset_erase :: "'a::linorder \<Rightarrow> 'a list \<Rightarrow> 'a list" where
  "oset_erase x [] = []"
| "oset_erase x (y # ys) = (if x = y then ys else y # oset_erase x ys)"

definition oset_find :: "'a::linorder \<Rightarrow> 'a list \<Rightarrow> bool" where
  "oset_find x xs = List.member xs x"

text \<open>\<open>[begin(), lower_bound(x))\<close> and \<open>[lower_bound(x), end())\<close>.\<close>

definition oset_before :: "'a::linorder \<Rightarrow> 'a list \<Rightarrow> 'a list" where
  "oset_before x xs = takeWhile (\<lambda>y. y < x) xs"

definition oset_from :: "'a::linorder \<Rightarrow> 'a list \<Rightarrow> 'a list" where
  "oset_from x xs = dropWhile (\<lambda>y. y < x) xs"

abbreviation oset_inv :: "'a::linorder list \<Rightarrow> bool" where
  "oset_inv \<equiv> sorted_wrt (<)"

locale ordered_set =
  fixes inv :: "'s \<Rightarrow> bool" and elems :: "'s \<Rightarrow> 'a::linorder set"
    and ins :: "'a \<Rightarrow> 's \<Rightarrow> 's" and del :: "'a \<Rightarrow> 's \<Rightarrow> 's" and mem :: "'a \<Rightarrow> 's \<Rightarrow> bool"
    and before :: "'a \<Rightarrow> 's \<Rightarrow> 's" and rest :: "'a \<Rightarrow> 's \<Rightarrow> 's"
  assumes elems_ins: "inv s \<Longrightarrow> elems (ins x s) = insert x (elems s)"
    and elems_del: "inv s \<Longrightarrow> elems (del x s) = elems s - {x}"
    and mem_elems: "inv s \<Longrightarrow> mem x s \<longleftrightarrow> x \<in> elems s"
    and elems_before: "inv s \<Longrightarrow> elems (before x s) = {y \<in> elems s. y < x}"
    and elems_rest: "inv s \<Longrightarrow> elems (rest x s) = {y \<in> elems s. x \<le> y}"
    and inv_ins: "inv s \<Longrightarrow> inv (ins x s)"
    and inv_del: "inv s \<Longrightarrow> inv (del x s)"
    and inv_before: "inv s \<Longrightarrow> inv (before x s)"
    and inv_rest: "inv s \<Longrightarrow> inv (rest x s)"
begin

lemma split_partition:
  "inv s \<Longrightarrow> elems (before x s) \<union> elems (rest x s) = elems s \<and>
    elems (before x s) \<inter> elems (rest x s) = {}"
  by (auto simp: elems_before elems_rest not_less)

lemma mem_ins: "inv s \<Longrightarrow> mem y (ins x s) \<longleftrightarrow> y = x \<or> mem y s"
  by (simp add: mem_elems inv_ins elems_ins)

end

lemma set_oset_insert [simp]: "set (oset_insert x xs) = insert x (set xs)"
  by (induction xs) auto

lemma oset_insert_inv: "oset_inv xs \<Longrightarrow> oset_inv (oset_insert x xs)"
  by (induction xs) (auto dest: order_less_trans)

lemma set_oset_erase: "oset_inv xs \<Longrightarrow> set (oset_erase x xs) = set xs - {x}"
  by (induction xs) auto

lemma oset_erase_inv: "oset_inv xs \<Longrightarrow> oset_inv (oset_erase x xs)"
proof (induction xs)
  case Nil
  then show ?case by simp
next
  case (Cons y ys)
  have "set (oset_erase x ys) \<subseteq> set ys" using Cons.prems by (auto simp: set_oset_erase)
  with Cons show ?case by auto
qed

lemma oset_before_filter: "oset_inv xs \<Longrightarrow> oset_before x xs = filter (\<lambda>y. y < x) xs"
proof (induction xs)
  case Nil
  then show ?case by (simp add: oset_before_def)
next
  case (Cons y ys)
  then have "\<not> y < x \<Longrightarrow> filter (\<lambda>z. z < x) ys = []"
    by (auto simp: filter_empty_conv)
  with Cons show ?case by (auto simp: oset_before_def)
qed

lemma oset_from_filter: "oset_inv xs \<Longrightarrow> oset_from x xs = filter (\<lambda>y. x \<le> y) xs"
proof (induction xs)
  case Nil
  then show ?case by (simp add: oset_from_def)
next
  case (Cons y ys)
  then have "x \<le> y \<Longrightarrow> filter (\<lambda>z. x \<le> z) ys = ys"
    by (auto simp: filter_id_conv)
  with Cons show ?case by (auto simp: oset_from_def)
qed

lemma oset_split: "oset_before x xs @ oset_from x xs = xs"
  by (simp add: oset_before_def oset_from_def)

lemma oset_inv_distinct: "oset_inv xs \<Longrightarrow> distinct xs"
  by (induction xs) auto

interpretation os: ordered_set oset_inv set oset_insert oset_erase oset_find oset_before oset_from
  by unfold_locales
    (auto simp: set_oset_erase oset_insert_inv oset_erase_inv oset_find_def oset_before_filter
      oset_from_filter sorted_wrt_filter)

text \<open>The order on pairs, as \<open>std::pair\<close> has it.\<close>

lemma pair_less_iff: "(a, b) < (c, d) \<longleftrightarrow> a < c \<or> (a = c \<and> b < (d :: 'b::linorder))"
  for a c :: "'a::linorder"
  by (auto simp: less_prod_def less_le)

lemma oset_hd_le: "oset_inv xs \<Longrightarrow> y \<in> set xs \<Longrightarrow> hd xs \<le> y"
  by (cases xs) (auto simp: less_imp_le)

end
