(* ===== verification/TimerQueue.thy ===== *)
theory TimerQueue
  imports Timestamp Std_Set
begin

text \<open>
  \<open>src/net/Timer.h\<close>, \<open>Timer.cc\<close>, \<open>TimerId.h\<close>, \<open>TimerQueue.h\<close>, \<open>TimerQueue.cc\<close>: timers
  ordered by expiration behind one \<open>timerfd\<close>.

  A \<open>Timer *\<close> is an address into \<open>timer_heap\<close>, the store of live timers; following an
  address that is not in the store is a fault. The clock readings and the addresses \<open>new\<close> returns
  are inputs. A user callback is known by a number; what it does to the queue is the list of the
  \<open>addTimer\<close> and \<open>cancel\<close> calls it makes (\<open>script\<close>), and \<open>callback_log\<close> records the
  callbacks in the order they run. \<open>timerfd_setting\<close> is the last value given to
  \<open>timerfd_settime\<close>.
\<close>

section \<open>Timers\<close>

type_synonym timer_ptr = nat

definition UINTPTR_MAX :: nat where
  "UINTPTR_MAX = 2 ^ 64 - 1"

record Timer =
  callback :: nat
  expiration :: Timestamp
  interval :: double
  repeat :: bool
  sequence :: int

record TimerId =
  id_timer :: timer_ptr
  id_sequence :: int

record timespec =
  tv_sec :: int
  tv_nsec :: int

definition Timer_new :: "nat \<Rightarrow> Timestamp \<Rightarrow> double \<Rightarrow> int \<Rightarrow> Timer" where
  "Timer_new cb when intv numCreated =
     \<lparr>callback = cb, expiration = when, interval = intv, repeat = dbl_positive intv,
      sequence = numCreated\<rparr>"

definition Timer_restart :: "Timer \<Rightarrow> Timestamp \<Rightarrow> Timer" where
  "Timer_restart t now =
     (if repeat t then t\<lparr>expiration := addTime now (interval t)\<rparr>
      else t\<lparr>expiration := Timestamp_invalid\<rparr>)"

section \<open>The queue\<close>

type_synonym Entry = "Timestamp \<times> timer_ptr"
type_synonym ActiveTimer = "timer_ptr \<times> int"

record TimerQueue =
  timers :: "Entry list"
  activeTimers :: "ActiveTimer list"
  callingExpiredTimers :: bool
  cancelingTimers :: "ActiveTimer list"
  timer_heap :: "timer_ptr \<rightharpoonup> Timer"
  s_numCreated :: int
  timerfd_setting :: "(Timestamp \<times> timespec) option"
  callback_log :: "nat list"

definition TimerQueue_new :: TimerQueue where
  "TimerQueue_new =
     \<lparr>timers = [], activeTimers = [], callingExpiredTimers = False, cancelingTimers = [],
      timer_heap = Map.empty, s_numCreated = 0, timerfd_setting = None, callback_log = []\<rparr>"

definition timer_deref :: "TimerQueue \<Rightarrow> timer_ptr \<Rightarrow> Timer res" where
  "timer_deref q p =
     (case timer_heap q p of None \<Rightarrow> Inl (BadAccess ''Timer'') | Some t \<Rightarrow> Inr t)"

definition howMuchTimeFromNow :: "Timestamp \<Rightarrow> Timestamp \<Rightarrow> timespec" where
  "howMuchTimeFromNow when now =
     (let microseconds0 = microSecondsSinceEpoch when - microSecondsSinceEpoch now;
          microseconds = (if microseconds0 < 100 then 100 else microseconds0)
      in \<lparr>tv_sec = microseconds sdiv kMicroSecondsPerSecond,
          tv_nsec = (microseconds smod kMicroSecondsPerSecond) * 1000\<rparr>)"

definition resetTimerfd :: "TimerQueue \<Rightarrow> Timestamp \<Rightarrow> Timestamp \<Rightarrow> TimerQueue" where
  "resetTimerfd q expir now =
     q\<lparr>timerfd_setting := Some (expir, howMuchTimeFromNow expir now)\<rparr>"

definition TimerQueue_insert :: "TimerQueue \<Rightarrow> timer_ptr \<Rightarrow> (bool \<times> TimerQueue) res" where
  "TimerQueue_insert q p =
     bindR (timer_deref q p) (\<lambda>t.
       let when = expiration t;
           earliestChanged = (timers q = [] \<or> when < fst (hd (timers q)))
       in Inr (earliestChanged, q\<lparr>timers := oset_insert (when, p) (timers q)\<rparr>))"

definition addTimerInLoop :: "TimerQueue \<Rightarrow> timer_ptr \<Rightarrow> Timestamp \<Rightarrow> TimerQueue res" where
  "addTimerInLoop q p now =
     bindR (TimerQueue_insert q p) (\<lambda>(earliestChanged, q').
       if earliestChanged
       then bindR (timer_deref q' p) (\<lambda>t. Inr (resetTimerfd q' (expiration t) now))
       else Inr q')"

text \<open>
  \<open>addTimer\<close>: the first half allocates (the address is the allocator's choice; an address in
  use or the end of the address space stands for a failed allocation) and returns the identifier;
  the second half is \<open>addTimerInLoop\<close>, which \<open>runInLoop\<close> runs at once in the loop thread.
\<close>

definition new_Timer ::
    "TimerQueue \<Rightarrow> timer_ptr \<Rightarrow> nat \<Rightarrow> Timestamp \<Rightarrow> double \<Rightarrow> (TimerId \<times> TimerQueue) res" where
  "new_Timer q p cb when intv =
     requireR (timer_heap q p = None \<and> 0 < p \<and> p < UINTPTR_MAX) (Thrown ''std::bad_alloc'')
       (let n = s_numCreated q + 1 in
        Inr (\<lparr>id_timer = p, id_sequence = n\<rparr>,
             q\<lparr>timer_heap := (timer_heap q)(p \<mapsto> Timer_new cb when intv n), s_numCreated := n\<rparr>))"

definition TimerQueue_addTimer ::
    "TimerQueue \<Rightarrow> timer_ptr \<Rightarrow> nat \<Rightarrow> Timestamp \<Rightarrow> double \<Rightarrow> Timestamp \<Rightarrow> (TimerId \<times> TimerQueue) res" where
  "TimerQueue_addTimer q p cb when intv now =
     bindR (new_Timer q p cb when intv) (\<lambda>(tid, q1).
       bindR (addTimerInLoop q1 p now) (\<lambda>q2. Inr (tid, q2)))"

definition cancelInLoop :: "TimerQueue \<Rightarrow> TimerId \<Rightarrow> TimerQueue res" where
  "cancelInLoop q tid =
     (let timer = (id_timer tid, id_sequence tid) in
      if oset_find timer (activeTimers q)
      then bindR (timer_deref q (fst timer)) (\<lambda>t.
             Inr (q\<lparr>timers := oset_erase (expiration t, fst timer) (timers q),
                    timer_heap := (timer_heap q)(fst timer := None),
                    activeTimers := oset_erase timer (activeTimers q)\<rparr>))
      else if callingExpiredTimers q
      then Inr (q\<lparr>cancelingTimers := oset_insert timer (cancelingTimers q)\<rparr>)
      else Inr q)"

definition getExpired :: "TimerQueue \<Rightarrow> Timestamp \<Rightarrow> (Entry list \<times> TimerQueue) res" where
  "getExpired q now =
     (let sentry = (now, UINTPTR_MAX);
          expired = oset_before sentry (timers q);
          q1 = q\<lparr>timers := oset_from sentry (timers q)\<rparr>
      in bindR (foldR (\<lambda>it q. bindR (timer_deref q (snd it)) (\<lambda>t.
                  Inr (q\<lparr>activeTimers := oset_erase (snd it, sequence t) (activeTimers q)\<rparr>)))
                expired q1)
           (\<lambda>q2. Inr (expired, q2)))"

text \<open>What a user callback does to the queue.\<close>

datatype timer_call =
    CallAdd timer_ptr nat Timestamp double Timestamp
  | CallCancel TimerId

fun exec_call :: "timer_call \<Rightarrow> TimerQueue \<Rightarrow> TimerQueue res" where
  "exec_call (CallAdd p cb when intv now) q =
     bindR (TimerQueue_addTimer q p cb when intv now) (\<lambda>(_, q'). Inr q')"
| "exec_call (CallCancel tid) q = cancelInLoop q tid"

definition Timer_run :: "(nat \<Rightarrow> timer_call list) \<Rightarrow> Entry \<Rightarrow> TimerQueue \<Rightarrow> TimerQueue res" where
  "Timer_run script it q =
     bindR (timer_deref q (snd it)) (\<lambda>t.
       foldR exec_call (script (callback t)) (q\<lparr>callback_log := callback_log q @ [callback t]\<rparr>))"

definition reset_entry :: "Timestamp \<Rightarrow> Entry \<Rightarrow> TimerQueue \<Rightarrow> TimerQueue res" where
  "reset_entry now it q =
     bindR (timer_deref q (snd it)) (\<lambda>t.
       if repeat t \<and> \<not> oset_find (snd it, sequence t) (cancelingTimers q)
       then bindR (TimerQueue_insert
                     (q\<lparr>timer_heap := (timer_heap q)(snd it \<mapsto> Timer_restart t now)\<rparr>) (snd it))
              (\<lambda>(_, q'). Inr q')
       else Inr (q\<lparr>timer_heap := (timer_heap q)(snd it := None)\<rparr>))"

definition TimerQueue_reset ::
    "TimerQueue \<Rightarrow> Entry list \<Rightarrow> Timestamp \<Rightarrow> Timestamp \<Rightarrow> TimerQueue res" where
  "TimerQueue_reset q expired now clk =
     bindR (foldR (reset_entry now) expired q) (\<lambda>q1.
       bindR (if timers q1 = [] then Inr Timestamp_invalid
              else bindR (timer_deref q1 (snd (hd (timers q1)))) (\<lambda>t. Inr (expiration t)))
         (\<lambda>nextExpire.
           Inr (if Timestamp_valid nextExpire then resetTimerfd q1 nextExpire clk else q1)))"

definition TimerQueue_handleRead ::
    "(nat \<Rightarrow> timer_call list) \<Rightarrow> TimerQueue \<Rightarrow> Timestamp \<Rightarrow> Timestamp \<Rightarrow> TimerQueue res" where
  "TimerQueue_handleRead script q now clk =
     bindR (getExpired q now) (\<lambda>(expired, q1).
       bindR (foldR (Timer_run script) expired
                (q1\<lparr>callingExpiredTimers := True, cancelingTimers := []\<rparr>)) (\<lambda>q2.
         TimerQueue_reset (q2\<lparr>callingExpiredTimers := False\<rparr>) expired now clk))"

text \<open>The destructor deletes what is still in the ordered set.\<close>

definition TimerQueue_destroy :: "TimerQueue \<Rightarrow> TimerQueue res" where
  "TimerQueue_destroy q =
     foldR (\<lambda>it q. bindR (timer_deref q (snd it)) (\<lambda>_.
              Inr (q\<lparr>timer_heap := (timer_heap q)(snd it := None)\<rparr>))) (timers q) q"

text \<open>The queue as a transition system, as the loop thread drives it.\<close>

inductive tq_step :: "(nat \<Rightarrow> timer_call list) \<Rightarrow> TimerQueue \<Rightarrow> TimerQueue \<Rightarrow> bool"
  for script :: "nat \<Rightarrow> timer_call list" where
  step_add: "TimerQueue_addTimer q p cb when intv now = Inr (tid, q') \<Longrightarrow> tq_step script q q'"
| step_cancel: "cancelInLoop q tid = Inr q' \<Longrightarrow> tq_step script q q'"
| step_fire: "TimerQueue_handleRead script q now clk = Inr q' \<Longrightarrow> tq_step script q q'"


section \<open>Invariant\<close>

text \<open>
  \<open>E\<close> is the list of expired entries a running \<open>handleRead\<close> holds; it is empty at rest. Every
  live timer is owned by exactly one entry, of the ordered set or of \<open>E\<close>, which carries its
  expiration.
\<close>

definition tq_inv :: "Entry list \<Rightarrow> TimerQueue \<Rightarrow> bool" where
  "tq_inv E q \<longleftrightarrow>
     oset_inv (timers q) \<and> distinct E \<and> set (timers q) \<inter> set E = {} \<and>
     inj_on snd (set (timers q) \<union> set E) \<and>
     (\<forall>e \<in> set (timers q) \<union> set E. \<exists>t. timer_heap q (snd e) = Some t \<and> expiration t = fst e) \<and>
     dom (timer_heap q) = snd ` (set (timers q) \<union> set E) \<and>
     (\<forall>p \<in> dom (timer_heap q). p < UINTPTR_MAX) \<and>
     activeTimers q = [] \<and> oset_inv (cancelingTimers q)"

text \<open>The \<open>timerfd\<close> is set for the earliest timer.\<close>

definition tq_armed :: "TimerQueue \<Rightarrow> bool" where
  "tq_armed q \<longleftrightarrow> (timers q \<noteq> [] \<longrightarrow> Timestamp_valid (fst (hd (timers q))) \<longrightarrow>
     (\<exists>clk. timerfd_setting q =
        Some (fst (hd (timers q)), howMuchTimeFromNow (fst (hd (timers q))) clk)))"

definition tq_rest :: "TimerQueue \<Rightarrow> bool" where
  "tq_rest q \<longleftrightarrow> tq_inv [] q \<and> tq_armed q \<and> \<not> callingExpiredTimers q"

lemma TimerQueue_new_rest: "tq_rest TimerQueue_new"
  by (simp add: tq_rest_def tq_inv_def tq_armed_def TimerQueue_new_def)

lemma tq_deref:
  assumes "tq_inv E q" and "e \<in> set (timers q) \<union> set E"
  obtains t where "timer_heap q (snd e) = Some t" "expiration t = fst e" "timer_deref q (snd e) = Inr t"
  using assms by (fastforce simp: tq_inv_def timer_deref_def)

section \<open>Insertion\<close>

lemma tq_insert_entry:
  assumes inv: "tq_inv ((w, p) # E) q"
  shows "TimerQueue_insert q p =
      Inr (timers q = [] \<or> w < fst (hd (timers q)), q\<lparr>timers := oset_insert (w, p) (timers q)\<rparr>)"
    and "tq_inv E (q\<lparr>timers := oset_insert (w, p) (timers q)\<rparr>)"
proof -
  obtain t where "timer_deref q p = Inr t" "expiration t = w"
    using tq_deref [OF inv, of "(w, p)"] by auto
  then show "TimerQueue_insert q p =
      Inr (timers q = [] \<or> w < fst (hd (timers q)), q\<lparr>timers := oset_insert (w, p) (timers q)\<rparr>)"
    by (simp add: TimerQueue_insert_def Let_def)
  show "tq_inv E (q\<lparr>timers := oset_insert (w, p) (timers q)\<rparr>)"
    using inv by (auto simp: tq_inv_def os.inv_ins)
qed

lemma hd_oset_insert:
  "hd (oset_insert x xs) = (if xs = [] \<or> x < hd xs then x else hd xs)"
  by (cases xs) auto

lemma tq_armed_insert:
  assumes "tq_armed q" and "timers q \<noteq> []" and "\<not> w < fst (hd (timers q))"
  shows "tq_armed (q\<lparr>timers := oset_insert (w, p) (timers q)\<rparr>)"
proof -
  have "fst (hd (oset_insert (w, p) (timers q))) = fst (hd (timers q))"
    using assms(2,3) by (cases "hd (timers q)") (auto simp: hd_oset_insert pair_less_iff)
  then show ?thesis using assms by (auto simp: tq_armed_def)
qed

lemma addTimerInLoop_spec:
  assumes inv: "tq_inv ((w, p) # E) q"
  shows "\<exists>q'. addTimerInLoop q p now = Inr q' \<and> tq_inv E q' \<and> (tq_armed q \<longrightarrow> tq_armed q') \<and>
    set (timers q') = insert (w, p) (set (timers q)) \<and> timer_heap q' = timer_heap q \<and>
    callingExpiredTimers q' = callingExpiredTimers q \<and> cancelingTimers q' = cancelingTimers q \<and>
    callback_log q' = callback_log q"
proof (cases "timers q = [] \<or> w < fst (hd (timers q))")
  case True
  let ?q = "q\<lparr>timers := oset_insert (w, p) (timers q)\<rparr>"
  obtain t where t: "timer_heap q p = Some t" "expiration t = w"
    using tq_deref [OF inv, of "(w, p)"] by auto
  then have d: "timer_deref ?q p = Inr t" by (simp add: timer_deref_def)
  have "tq_inv E (resetTimerfd ?q w now)"
    using tq_insert_entry(2) [OF inv] by (simp add: tq_inv_def resetTimerfd_def)
  moreover have "tq_armed (resetTimerfd ?q w now)"
    using True by (cases "timers q") (auto simp: tq_armed_def resetTimerfd_def pair_less_iff)
  ultimately show ?thesis
    using True tq_insert_entry(1) [OF inv] d t
    by (auto simp: addTimerInLoop_def resetTimerfd_def)
next
  case False
  then show ?thesis
    using tq_insert_entry [OF inv] tq_armed_insert [of q w p] by (auto simp: addTimerInLoop_def)
qed

lemma new_Timer_spec:
  assumes inv: "tq_inv E q"
  shows "new_Timer q p cb w iv = Inl (Thrown ''std::bad_alloc'') \<or>
    (\<exists>tid q'. new_Timer q p cb w iv = Inr (tid, q') \<and> tq_inv ((w, p) # E) q' \<and>
       timers q' = timers q \<and> (tq_armed q \<longrightarrow> tq_armed q') \<and> timer_heap q p = None \<and>
       timer_heap q' = (timer_heap q)(p \<mapsto> Timer_new cb w iv (s_numCreated q + 1)) \<and>
       callingExpiredTimers q' = callingExpiredTimers q \<and> cancelingTimers q' = cancelingTimers q \<and>
       callback_log q' = callback_log q)"
proof (cases "timer_heap q p = None \<and> 0 < p \<and> p < UINTPTR_MAX")
  case True
  then have fresh: "p \<notin> snd ` (set (timers q) \<union> set E)"
    using inv by (auto simp: tq_inv_def)
  then have new: "(w, p) \<notin> set (timers q) \<union> set E" by force
  let ?q = "q\<lparr>timer_heap := (timer_heap q)(p \<mapsto> Timer_new cb w iv (s_numCreated q + 1)),
              s_numCreated := s_numCreated q + 1\<rparr>"
  have "tq_inv ((w, p) # E) ?q"
    unfolding tq_inv_def
  proof (intro conjI)
    show "\<forall>e \<in> set (timers ?q) \<union> set ((w, p) # E).
        \<exists>t. timer_heap ?q (snd e) = Some t \<and> expiration t = fst e"
      using inv fresh by (auto simp: tq_inv_def Timer_new_def image_iff)
  qed (use inv fresh new True in \<open>auto simp: tq_inv_def image_iff\<close>)
  moreover have "new_Timer q p cb w iv =
      Inr (\<lparr>id_timer = p, id_sequence = s_numCreated q + 1\<rparr>, ?q)"
    using True by (simp add: new_Timer_def Let_def)
  ultimately show ?thesis using True by (intro disjI2 exI) (auto simp: tq_armed_def)
next
  case False
  then show ?thesis by (auto simp: new_Timer_def requireR_def)
qed

text \<open>The frame of the queue's public operations, and of every callback.\<close>

definition tq_frame :: "Entry list \<Rightarrow> TimerQueue \<Rightarrow> TimerQueue \<Rightarrow> bool" where
  "tq_frame E q q' \<longleftrightarrow>
     tq_inv E q' \<and> (tq_armed q \<longrightarrow> tq_armed q') \<and> set (timers q) \<subseteq> set (timers q') \<and>
     (\<forall>p \<in> dom (timer_heap q). timer_heap q' p = timer_heap q p) \<and>
     callingExpiredTimers q' = callingExpiredTimers q \<and>
     set (cancelingTimers q) \<subseteq> set (cancelingTimers q')"

lemma tq_frame_refl: "tq_inv E q \<Longrightarrow> tq_frame E q q"
  by (simp add: tq_frame_def)

lemma tq_frame_trans:
  assumes "tq_frame E q1 q2" and "tq_frame E q2 q3"
  shows "tq_frame E q1 q3"
proof -
  have "timer_heap q3 p = timer_heap q1 p" if "p \<in> dom (timer_heap q1)" for p
  proof -
    from assms(1) that have e: "timer_heap q2 p = timer_heap q1 p" by (simp add: tq_frame_def)
    with that have "p \<in> dom (timer_heap q2)" by auto
    with assms(2) e show ?thesis by (simp add: tq_frame_def)
  qed
  with assms show ?thesis by (auto simp: tq_frame_def)
qed

lemma TimerQueue_addTimer_spec:
  assumes "tq_inv E q"
  shows "TimerQueue_addTimer q p cb w iv now = Inl (Thrown ''std::bad_alloc'') \<or>
    (\<exists>tid q'. TimerQueue_addTimer q p cb w iv now = Inr (tid, q') \<and> tq_frame E q q' \<and>
       set (timers q') = insert (w, p) (set (timers q)) \<and> callback_log q' = callback_log q)"
  using new_Timer_spec [OF assms, of p cb w iv]
proof
  assume "new_Timer q p cb w iv = Inl (Thrown ''std::bad_alloc'')"
  then show ?thesis by (simp add: TimerQueue_addTimer_def)
next
  assume "\<exists>tid q'. new_Timer q p cb w iv = Inr (tid, q') \<and> tq_inv ((w, p) # E) q' \<and>
       timers q' = timers q \<and> (tq_armed q \<longrightarrow> tq_armed q') \<and> timer_heap q p = None \<and>
       timer_heap q' = (timer_heap q)(p \<mapsto> Timer_new cb w iv (s_numCreated q + 1)) \<and>
       callingExpiredTimers q' = callingExpiredTimers q \<and> cancelingTimers q' = cancelingTimers q \<and>
       callback_log q' = callback_log q"
  then obtain tid q1 where q1: "new_Timer q p cb w iv = Inr (tid, q1)" "tq_inv ((w, p) # E) q1"
    "timers q1 = timers q" "tq_armed q \<longrightarrow> tq_armed q1" "timer_heap q p = None"
    "timer_heap q1 = (timer_heap q)(p \<mapsto> Timer_new cb w iv (s_numCreated q + 1))"
    "callingExpiredTimers q1 = callingExpiredTimers q" "cancelingTimers q1 = cancelingTimers q"
    "callback_log q1 = callback_log q" by blast
  from addTimerInLoop_spec [OF q1(2), of now] obtain q2 where q2: "addTimerInLoop q1 p now = Inr q2"
    "tq_inv E q2" "tq_armed q1 \<longrightarrow> tq_armed q2" "set (timers q2) = insert (w, p) (set (timers q1))"
    "timer_heap q2 = timer_heap q1" "callingExpiredTimers q2 = callingExpiredTimers q1"
    "cancelingTimers q2 = cancelingTimers q1" "callback_log q2 = callback_log q1" by blast
  have "\<forall>r \<in> dom (timer_heap q). timer_heap q2 r = timer_heap q r"
    using q1(5,6) q2(5) by auto
  with q1 q2 have "tq_frame E q q2" by (simp add: tq_frame_def) blast
  with q1 q2 show ?thesis by (simp add: TimerQueue_addTimer_def)
qed

lemma cancelInLoop_spec:
  assumes "tq_inv E q"
  shows "cancelInLoop q tid =
      Inr (if callingExpiredTimers q
           then q\<lparr>cancelingTimers := oset_insert (id_timer tid, id_sequence tid) (cancelingTimers q)\<rparr>
           else q)"
    and "\<exists>q'. cancelInLoop q tid = Inr q' \<and> tq_frame E q q' \<and> callback_log q' = callback_log q \<and>
      timers q' = timers q"
proof -
  show eq: "cancelInLoop q tid =
      Inr (if callingExpiredTimers q
           then q\<lparr>cancelingTimers := oset_insert (id_timer tid, id_sequence tid) (cancelingTimers q)\<rparr>
           else q)"
    using assms by (simp add: cancelInLoop_def tq_inv_def oset_find_def)
  show "\<exists>q'. cancelInLoop q tid = Inr q' \<and> tq_frame E q q' \<and> callback_log q' = callback_log q \<and>
      timers q' = timers q"
    unfolding eq using assms by (auto simp: tq_frame_def tq_inv_def tq_armed_def os.inv_ins)
qed


section \<open>Running callbacks\<close>

abbreviation bad_alloc :: fault where
  "bad_alloc \<equiv> Thrown ''std::bad_alloc''"

lemma exec_call_spec:
  assumes "tq_inv E q"
  shows "exec_call c q = Inl bad_alloc \<or>
    (\<exists>q'. exec_call c q = Inr q' \<and> tq_frame E q q' \<and> callback_log q' = callback_log q)"
proof (cases c)
  case (CallAdd p cb w iv now)
  then show ?thesis using TimerQueue_addTimer_spec [OF assms, of p cb w iv now] by auto
next
  case (CallCancel tid)
  then show ?thesis using cancelInLoop_spec(2) [OF assms, of tid] by auto
qed

lemma exec_calls_spec:
  assumes "tq_inv E q"
  shows "foldR exec_call cs q = Inl bad_alloc \<or>
    (\<exists>q'. foldR exec_call cs q = Inr q' \<and> tq_frame E q q' \<and> callback_log q' = callback_log q)"
  using assms
proof (induction cs arbitrary: q)
  case Nil
  then show ?case by (simp add: tq_frame_refl)
next
  case (Cons c cs)
  from exec_call_spec [OF Cons.prems, of c] show ?case
  proof
    assume "\<exists>q'. exec_call c q = Inr q' \<and> tq_frame E q q' \<and> callback_log q' = callback_log q"
    then obtain q1 where q1: "exec_call c q = Inr q1" "tq_frame E q q1"
      "callback_log q1 = callback_log q" by blast
    then have "tq_inv E q1" by (simp add: tq_frame_def)
    from Cons.IH [OF this] q1 show ?thesis by (auto dest: tq_frame_trans)
  qed simp
qed

lemma tq_frame_log: "tq_frame E (q\<lparr>callback_log := l\<rparr>) q' = tq_frame E q q'"
  by (simp add: tq_frame_def tq_armed_def)

lemma tq_inv_log [simp]: "tq_inv E (q\<lparr>callback_log := l\<rparr>) = tq_inv E q"
  by (simp add: tq_inv_def)

text \<open>The callback of an entry, read off the store.\<close>

definition entry_callback :: "TimerQueue \<Rightarrow> Entry \<Rightarrow> nat" where
  "entry_callback q e = callback (the (timer_heap q (snd e)))"

lemma entry_callback_frame:
  assumes "tq_inv E q" and "tq_frame E q q'" and "e \<in> set E"
  shows "entry_callback q' e = entry_callback q e"
proof -
  have "snd e \<in> dom (timer_heap q)" using assms(1,3) by (auto simp: tq_inv_def)
  then show ?thesis using assms(2) by (simp add: entry_callback_def tq_frame_def)
qed

lemma run_callbacks_spec:
  assumes "tq_inv E q" and "set xs \<subseteq> set E"
  shows "foldR (Timer_run script) xs q = Inl bad_alloc \<or>
    (\<exists>q'. foldR (Timer_run script) xs q = Inr q' \<and> tq_frame E q q' \<and>
       callback_log q' = callback_log q @ map (entry_callback q) xs)"
  using assms
proof (induction xs arbitrary: q)
  case Nil
  then show ?case by (simp add: tq_frame_refl)
next
  case (Cons e xs)
  have "e \<in> set (timers q) \<union> set E" using Cons.prems by simp
  from tq_deref [OF Cons.prems(1) this] obtain t
    where t: "timer_heap q (snd e) = Some t" "timer_deref q (snd e) = Inr t" by metis
  let ?q = "q\<lparr>callback_log := callback_log q @ [callback t]\<rparr>"
  have run: "Timer_run script e q = foldR exec_call (script (callback t)) ?q"
    using t by (simp add: Timer_run_def)
  have "tq_inv E ?q" using Cons.prems by simp
  from exec_calls_spec [OF this, of "script (callback t)"] show ?case
  proof
    assume "\<exists>q'. foldR exec_call (script (callback t)) ?q = Inr q' \<and> tq_frame E ?q q' \<and>
      callback_log q' = callback_log ?q"
    then obtain q1 where q1: "Timer_run script e q = Inr q1" "tq_frame E q q1"
      "callback_log q1 = callback_log q @ [entry_callback q e]"
      using run t by (auto simp: tq_frame_log entry_callback_def)
    then have "tq_inv E q1" by (simp add: tq_frame_def)
    moreover have "map (entry_callback q1) xs = map (entry_callback q) xs"
      using Cons.prems q1(2) by (auto intro: entry_callback_frame)
    ultimately show ?thesis using Cons.IH [of q1] Cons.prems(2) q1
      by (auto dest: tq_frame_trans)
  qed (simp add: run)
qed

section \<open>Expiry\<close>

definition expired_at :: "Timestamp \<Rightarrow> Entry \<Rightarrow> bool" where
  "expired_at now e \<longleftrightarrow> fst e \<le> now"

lemma sentry_before:
  assumes "tq_inv [] q" and "e \<in> set (timers q)"
  shows "e < (now, UINTPTR_MAX) \<longleftrightarrow> expired_at now e"
proof -
  have "snd e < UINTPTR_MAX" using assms by (auto simp: tq_inv_def)
  then show ?thesis by (cases e) (auto simp: expired_at_def pair_less_iff)
qed

lemma getExpired_spec:
  assumes inv: "tq_inv [] q"
  shows "getExpired q now =
      Inr (filter (expired_at now) (timers q),
           q\<lparr>timers := filter (\<lambda>e. \<not> expired_at now e) (timers q)\<rparr>)"
    and "tq_inv (filter (expired_at now) (timers q))
      (q\<lparr>timers := filter (\<lambda>e. \<not> expired_at now e) (timers q)\<rparr>)"
proof -
  let ?s = "(now, UINTPTR_MAX)"
  have o: "oset_inv (timers q)" using inv by (simp add: tq_inv_def)
  have b: "oset_before ?s (timers q) = filter (expired_at now) (timers q)"
    unfolding oset_before_filter [OF o] by (rule filter_cong) (auto simp: sentry_before [OF inv])
  have r: "oset_from ?s (timers q) = filter (\<lambda>e. \<not> expired_at now e) (timers q)"
    unfolding oset_from_filter [OF o] by (rule filter_cong)
      (auto simp: sentry_before [OF inv, symmetric])
  let ?q1 = "q\<lparr>timers := filter (\<lambda>e. \<not> expired_at now e) (timers q)\<rparr>"
  let ?f = "\<lambda>it q. bindR (timer_deref q (snd it)) (\<lambda>t.
                  Inr (q\<lparr>activeTimers := oset_erase (snd it, sequence t) (activeTimers q)\<rparr>))"
  have fold: "foldR ?f xs ?q1 = Inr ?q1" if "set xs \<subseteq> set (timers q)" for xs
    using that
  proof (induction xs)
    case Nil
    then show ?case by simp
  next
    case (Cons e xs)
    then obtain t where "timer_deref q (snd e) = Inr t" using tq_deref [OF inv, of e] by auto
    then have "timer_deref ?q1 (snd e) = Inr t" by (simp add: timer_deref_def)
    moreover have "?q1\<lparr>activeTimers := []\<rparr> = ?q1" and "activeTimers ?q1 = []"
      using inv by (simp_all add: tq_inv_def)
    ultimately have "?f e ?q1 = Inr ?q1" by simp
    then show ?case using Cons by simp
  qed
  have "foldR ?f (filter (expired_at now) (timers q)) ?q1 = Inr ?q1" by (rule fold) auto
  then show "getExpired q now =
      Inr (filter (expired_at now) (timers q), ?q1)"
    by (simp add: getExpired_def b r Let_def)
  have "set (filter (\<lambda>e. \<not> expired_at now e) (timers q)) \<union> set (filter (expired_at now) (timers q))
      = set (timers q)" by auto
  then show "tq_inv (filter (expired_at now) (timers q)) ?q1"
    using inv by (auto simp: tq_inv_def sorted_wrt_filter oset_inv_distinct)
qed

section \<open>Re-arming\<close>

text \<open>The entries a reset produces: one for every repeating timer that was not cancelled.\<close>

definition rearms :: "TimerQueue \<Rightarrow> Entry \<Rightarrow> bool" where
  "rearms q e \<longleftrightarrow> (case timer_heap q (snd e) of None \<Rightarrow> False
     | Some t \<Rightarrow> repeat t \<and> (snd e, sequence t) \<notin> set (cancelingTimers q))"

definition rearmed :: "TimerQueue \<Rightarrow> Timestamp \<Rightarrow> Entry \<Rightarrow> Entry" where
  "rearmed q now e = (addTime now (interval (the (timer_heap q (snd e)))), snd e)"

lemma tq_inv_replace:
  assumes inv: "tq_inv ((w, p) # E) q" and t: "expiration t = w'"
  shows "tq_inv ((w', p) # E) (q\<lparr>timer_heap := (timer_heap q)(p \<mapsto> t)\<rparr>)"
proof -
  have p: "p \<notin> snd ` (set (timers q) \<union> set E)"
    using inv by (auto simp: tq_inv_def inj_on_def)
  then have "(w', p) \<notin> set (timers q) \<union> set E" by force
  with p inv t show ?thesis
    unfolding tq_inv_def by (auto simp: image_iff inj_on_def)
qed

lemma tq_inv_delete:
  assumes inv: "tq_inv (e # E) q"
  shows "tq_inv E (q\<lparr>timer_heap := (timer_heap q)(snd e := None)\<rparr>)"
proof -
  have p: "snd e \<notin> snd ` (set (timers q) \<union> set E)"
    using inv by (auto simp: tq_inv_def inj_on_def)
  then have "\<forall>a. (a, snd e) \<notin> set (timers q) \<union> set E" by (metis image_eqI snd_conv)
  with p inv show ?thesis
    unfolding tq_inv_def by (auto simp: image_iff)
qed

lemma reset_entry_spec:
  assumes inv: "tq_inv (e # E) q"
  shows "\<exists>q'. reset_entry now e q = Inr q' \<and> tq_inv E q' \<and>
    set (timers q') = set (timers q) \<union> (if rearms q e then {rearmed q now e} else {}) \<and>
    (\<forall>x \<in> set E. timer_heap q' (snd x) = timer_heap q (snd x)) \<and>
    callingExpiredTimers q' = callingExpiredTimers q \<and> cancelingTimers q' = cancelingTimers q \<and>
    callback_log q' = callback_log q"
proof -
  obtain w p where e: "e = (w, p)" by (cases e)
  obtain t where t: "timer_heap q p = Some t" "timer_deref q p = Inr t"
    using tq_deref [OF inv, of e] e by auto
  have c: "oset_find (p, sequence t) (cancelingTimers q) \<longleftrightarrow> (p, sequence t) \<in> set (cancelingTimers q)"
    by (simp add: oset_find_def)
  have other: "\<forall>x \<in> set E. snd x \<noteq> p" using inv e by (auto simp: tq_inv_def inj_on_def)
  show ?thesis
  proof (cases "rearms q e")
    case True
    let ?w = "addTime now (interval t)"
    let ?q = "q\<lparr>timer_heap := (timer_heap q)(p \<mapsto> Timer_restart t now)\<rparr>"
    have "repeat t" using True t e by (simp add: rearms_def)
    then have w: "expiration (Timer_restart t now) = ?w" by (simp add: Timer_restart_def)
    have i: "tq_inv ((?w, p) # E) ?q" using tq_inv_replace [OF inv [unfolded e] w] by simp
    from tq_insert_entry [OF i] show ?thesis
      using True t e c other by (auto simp: reset_entry_def rearms_def rearmed_def)
  next
    case False
    with tq_inv_delete [OF inv] t e c other show ?thesis
      by (auto simp: reset_entry_def rearms_def)
  qed
qed


lemma reset_entries_spec:
  assumes "tq_inv E q"
  shows "\<exists>q'. foldR (reset_entry now) E q = Inr q' \<and> tq_inv [] q' \<and>
    set (timers q') = set (timers q) \<union> rearmed q now ` {e \<in> set E. rearms q e} \<and>
    callingExpiredTimers q' = callingExpiredTimers q \<and> callback_log q' = callback_log q"
  using assms
proof (induction E arbitrary: q)
  case Nil
  then show ?case by simp
next
  case (Cons e E)
  obtain q1 where q1: "reset_entry now e q = Inr q1" "tq_inv E q1"
    "set (timers q1) = set (timers q) \<union> (if rearms q e then {rearmed q now e} else {})"
    "\<forall>x \<in> set E. timer_heap q1 (snd x) = timer_heap q (snd x)"
    "callingExpiredTimers q1 = callingExpiredTimers q" "cancelingTimers q1 = cancelingTimers q"
    "callback_log q1 = callback_log q"
    using reset_entry_spec [OF Cons.prems] by blast
  have "rearms q1 x = rearms q x \<and> rearmed q1 now x = rearmed q now x" if "x \<in> set E" for x
    using q1(4,6) that by (simp add: rearms_def rearmed_def split: option.split)
  then have "rearmed q1 now ` {x \<in> set E. rearms q1 x} = rearmed q now ` {x \<in> set E. rearms q x}"
    by (auto simp: image_iff)
  with Cons.IH [OF q1(2)] q1 show ?case by auto
qed

lemma TimerQueue_reset_spec:
  assumes "tq_inv E q"
  shows "\<exists>q'. TimerQueue_reset q E now clk = Inr q' \<and> tq_inv [] q' \<and> tq_armed q' \<and>
    set (timers q') = set (timers q) \<union> rearmed q now ` {e \<in> set E. rearms q e} \<and>
    callingExpiredTimers q' = callingExpiredTimers q \<and> callback_log q' = callback_log q"
proof -
  obtain q1 where q1: "foldR (reset_entry now) E q = Inr q1" "tq_inv [] q1"
    "set (timers q1) = set (timers q) \<union> rearmed q now ` {e \<in> set E. rearms q e}"
    "callingExpiredTimers q1 = callingExpiredTimers q" "callback_log q1 = callback_log q"
    using reset_entries_spec [OF assms] by blast
  show ?thesis
  proof (cases "timers q1 = []")
    case True
    with q1 show ?thesis
      by (simp add: TimerQueue_reset_def Timestamp_valid_def Timestamp_invalid_def tq_armed_def)
  next
    case False
    then have "hd (timers q1) \<in> set (timers q1) \<union> set []" by simp
    from tq_deref [OF q1(2) this] obtain t where t: "timer_deref q1 (snd (hd (timers q1))) = Inr t"
      "expiration t = fst (hd (timers q1))" by metis
    then show ?thesis using False q1
      by (auto simp: TimerQueue_reset_def tq_armed_def resetTimerfd_def tq_inv_def)
  qed
qed

section \<open>One alarm\<close>

abbreviation expired_entries :: "TimerQueue \<Rightarrow> Timestamp \<Rightarrow> Entry list" where
  "expired_entries q now \<equiv> filter (expired_at now) (timers q)"

abbreviation pending_entries :: "TimerQueue \<Rightarrow> Timestamp \<Rightarrow> Entry list" where
  "pending_entries q now \<equiv> filter (\<lambda>e. \<not> expired_at now e) (timers q)"

text \<open>The state in which the expired callbacks start to run.\<close>

abbreviation calling_state :: "TimerQueue \<Rightarrow> Timestamp \<Rightarrow> TimerQueue" where
  "calling_state q now \<equiv>
     q\<lparr>timers := pending_entries q now, callingExpiredTimers := True, cancelingTimers := []\<rparr>"

lemma tq_inv_calling:
  assumes "tq_inv [] q"
  shows "tq_inv (expired_entries q now) (calling_state q now)"
  using getExpired_spec(2) [OF assms, of now] by (simp add: tq_inv_def)

lemma handleRead_cases:
  assumes inv: "tq_inv [] q"
  obtains (alloc_failed) "TimerQueue_handleRead script q now clk = Inl bad_alloc"
  | (finished) q2 q' where
      "foldR (Timer_run script) (expired_entries q now) (calling_state q now) = Inr q2"
      "tq_frame (expired_entries q now) (calling_state q now) q2"
      "callback_log q2 = callback_log q @ map (entry_callback q) (expired_entries q now)"
      "TimerQueue_handleRead script q now clk = Inr q'" "tq_inv [] q'" "tq_armed q'"
      "set (timers q') = set (timers q2) \<union>
         rearmed q2 now ` {e \<in> set (expired_entries q now). rearms q2 e}"
      "\<not> callingExpiredTimers q'" "callback_log q' = callback_log q2"
proof -
  let ?E = "expired_entries q now"
  let ?q1 = "calling_state q now"
  have hr: "TimerQueue_handleRead script q now clk =
      bindR (foldR (Timer_run script) ?E ?q1)
        (\<lambda>q2. TimerQueue_reset (q2\<lparr>callingExpiredTimers := False\<rparr>) ?E now clk)"
    by (simp add: TimerQueue_handleRead_def getExpired_spec(1) [OF inv])
  have log: "map (entry_callback ?q1) ?E = map (entry_callback q) ?E"
    by (simp add: entry_callback_def)
  from run_callbacks_spec [OF tq_inv_calling [OF inv] subset_refl, of script] show thesis
  proof
    assume "foldR (Timer_run script) ?E ?q1 = Inl bad_alloc"
    then show thesis using hr alloc_failed by simp
  next
    assume "\<exists>q'. foldR (Timer_run script) ?E ?q1 = Inr q' \<and> tq_frame ?E ?q1 q' \<and>
       callback_log q' = callback_log ?q1 @ map (entry_callback ?q1) ?E"
    then obtain q2 where q2: "foldR (Timer_run script) ?E ?q1 = Inr q2" "tq_frame ?E ?q1 q2"
      "callback_log q2 = callback_log q @ map (entry_callback q) ?E" using log by auto
    let ?q2 = "q2\<lparr>callingExpiredTimers := False\<rparr>"
    have i2: "tq_inv ?E ?q2" using q2(2) by (simp add: tq_frame_def tq_inv_def)
    have r: "rearms ?q2 = rearms q2" "rearmed ?q2 now = rearmed q2 now"
      by (simp_all add: rearms_def rearmed_def fun_eq_iff split: option.split)
    obtain q' where "TimerQueue_reset ?q2 ?E now clk = Inr q'" "tq_inv [] q'" "tq_armed q'"
      "set (timers q') = set (timers q2) \<union> rearmed q2 now ` {e \<in> set ?E. rearms q2 e}"
      "\<not> callingExpiredTimers q'" "callback_log q' = callback_log q2"
      using TimerQueue_reset_spec [OF i2, of now clk] r by auto
    then show thesis using finished [OF q2] hr q2(1) by simp
  qed
qed

lemma tq_rest_step:
  assumes "tq_rest q" and "tq_step script q q'"
  shows "tq_rest q'"
  using assms(2,1)
proof (induction rule: tq_step.induct)
  case (step_add q p cb w iv now tid q')
  then show ?case
    using TimerQueue_addTimer_spec [of "[]" q p cb w iv now]
    by (auto simp: tq_rest_def tq_frame_def)
next
  case (step_cancel q tid q')
  then show ?case
    using cancelInLoop_spec(2) [of "[]" q tid] by (auto simp: tq_rest_def tq_frame_def)
next
  case (step_fire q now clk q')
  then have "tq_inv [] q" by (simp add: tq_rest_def)
  then show ?case
    by (rule handleRead_cases [of q script now clk]) (use step_fire in \<open>auto simp: tq_rest_def\<close>)
qed

interpretation tq: invariant_system "\<lambda>q. q = TimerQueue_new" "tq_step script" tq_rest for script
  by unfold_locales (auto simp: TimerQueue_new_rest intro: tq_rest_step)


section \<open>Cancelling from a callback\<close>

lemma exec_calls_cancel:
  assumes "tq_inv E q" and "callingExpiredTimers q" and "foldR exec_call cs q = Inr q'"
    and "CallCancel tid \<in> set cs"
  shows "(id_timer tid, id_sequence tid) \<in> set (cancelingTimers q')"
proof -
  obtain xs ys where cs: "cs = xs @ CallCancel tid # ys" using assms(4) by (meson split_list)
  with assms(3) obtain q1 q2 where q1: "foldR exec_call xs q = Inr q1"
    and q2: "cancelInLoop q1 tid = Inr q2" and q3: "foldR exec_call ys q2 = Inr q'"
    by (auto simp: foldR_append bindR_eq_Inr)
  have f1: "tq_frame E q q1" using exec_calls_spec [OF assms(1), of xs] q1 by auto
  then have i1: "tq_inv E q1" "callingExpiredTimers q1" using assms(2) by (auto simp: tq_frame_def)
  then have i2: "(id_timer tid, id_sequence tid) \<in> set (cancelingTimers q2)" and "tq_inv E q2"
    using cancelInLoop_spec [OF i1(1), of tid] q2 by (auto simp: tq_frame_def)
  then show ?thesis using exec_calls_spec [of E q2 ys] q3 by (auto simp: tq_frame_def)
qed

lemma run_callbacks_cancel:
  assumes inv: "tq_inv E q" and "callingExpiredTimers q" and sub: "set xs \<subseteq> set E"
    and run: "foldR (Timer_run script) xs q = Inr q'" and e: "e \<in> set xs"
    and c: "CallCancel tid \<in> set (script (entry_callback q e))"
  shows "(id_timer tid, id_sequence tid) \<in> set (cancelingTimers q')"
proof -
  obtain ys zs where xs: "xs = ys @ e # zs" using e by (meson split_list)
  with run obtain q1 q2 where q1: "foldR (Timer_run script) ys q = Inr q1"
    and q2: "Timer_run script e q1 = Inr q2" and q3: "foldR (Timer_run script) zs q2 = Inr q'"
    by (auto simp: foldR_append bindR_eq_Inr)
  have f1: "tq_frame E q q1" using run_callbacks_spec [OF inv, of ys script] sub xs q1 by auto
  then have i1: "tq_inv E q1" "callingExpiredTimers q1" using assms(2) by (auto simp: tq_frame_def)
  have "e \<in> set E" using sub xs by simp
  then obtain t where t: "timer_heap q1 (snd e) = Some t" "timer_deref q1 (snd e) = Inr t"
    using tq_deref [OF i1(1), of e] by (metis UnI2)
  have cb: "callback t = entry_callback q e"
    using entry_callback_frame [OF inv f1 \<open>e \<in> set E\<close>] t by (simp add: entry_callback_def)
  let ?q = "q1\<lparr>callback_log := callback_log q1 @ [callback t]\<rparr>"
  have q2': "foldR exec_call (script (callback t)) ?q = Inr q2" using q2 t by (simp add: Timer_run_def)
  have m: "(id_timer tid, id_sequence tid) \<in> set (cancelingTimers q2)"
    by (rule exec_calls_cancel [OF _ _ q2']) (use i1 c cb in auto)
  have "tq_inv E q2" using exec_calls_spec [of E ?q "script (callback t)"] i1 q2'
    by (auto simp: tq_frame_def)
  then show ?thesis using run_callbacks_spec [of E q2 zs script] sub xs q3 m
    by (auto simp: tq_frame_def)
qed

section \<open>Callbacks that leave the queue alone\<close>

lemma run_quiet:
  assumes "tq_inv E q" and "set xs \<subseteq> set E" and "\<And>cb. script cb = []"
  shows "foldR (Timer_run script) xs q =
    Inr (q\<lparr>callback_log := callback_log q @ map (entry_callback q) xs\<rparr>)"
  using assms(1,2)
proof (induction xs arbitrary: q)
  case (Cons e xs)
  then obtain t where t: "timer_heap q (snd e) = Some t" "timer_deref q (snd e) = Inr t"
    using tq_deref [OF Cons.prems(1), of e] by (metis UnI2 insert_subset list.set(2))
  let ?q = "q\<lparr>callback_log := callback_log q @ [callback t]\<rparr>"
  have "map (entry_callback ?q) xs = map (entry_callback q) xs" by (simp add: entry_callback_def)
  then show ?case using Cons t assms(3) by (simp add: Timer_run_def entry_callback_def)
qed simp

lemma handleRead_quiet:
  assumes inv: "tq_inv [] q" and quiet: "\<And>cb. script cb = []"
  shows "\<exists>q'. TimerQueue_handleRead script q now clk = Inr q' \<and>
    set (timers q') = set (pending_entries q now) \<union>
      rearmed q now ` {e \<in> set (expired_entries q now). \<exists>t. timer_heap q (snd e) = Some t \<and> repeat t}"
proof -
  let ?E = "expired_entries q now"
  let ?q1 = "calling_state q now"
  let ?q2 = "?q1\<lparr>callback_log := callback_log ?q1 @ map (entry_callback ?q1) ?E,
               callingExpiredTimers := False\<rparr>"
  have "TimerQueue_handleRead script q now clk = TimerQueue_reset ?q2 ?E now clk"
    by (simp add: TimerQueue_handleRead_def getExpired_spec(1) [OF inv]
        run_quiet [OF tq_inv_calling [OF inv] subset_refl quiet])
  moreover have "tq_inv ?E ?q2" using tq_inv_calling [OF inv, of now] by (simp add: tq_inv_def)
  moreover have "rearms ?q2 e \<longleftrightarrow> (\<exists>t. timer_heap q (snd e) = Some t \<and> repeat t)"
    and "rearmed ?q2 now e = rearmed q now e" for e
    by (simp_all add: rearms_def rearmed_def split: option.split)
  ultimately show ?thesis using TimerQueue_reset_spec [of ?E ?q2 now clk] by auto
qed

section \<open>Properties\<close>

text \<open>C15. One alarm is memory-safe and complete: from any queue at rest, \<open>handleRead\<close> either stops
  because a callback's allocation failed, or it returns with the invariant restored, having run the
  callbacks of exactly the timers whose expiration is not after \<open>now\<close>, in the order of their
  expiration; every other pending timer is still there. No timer is used after it was deleted and
  none is deleted twice, whatever the callbacks add or cancel.\<close>
theorem handleRead_runs_expired:
  assumes "tq_rest q"
  shows "TimerQueue_handleRead script q now clk = Inl bad_alloc \<or>
    (\<exists>q'. TimerQueue_handleRead script q now clk = Inr q' \<and> tq_rest q' \<and>
       callback_log q' = callback_log q @
         map (entry_callback q) (filter (\<lambda>e. fst e \<le> now) (timers q)) \<and>
       {e \<in> set (timers q). now < fst e} \<subseteq> set (timers q'))"
proof -
  have inv: "tq_inv [] q" using assms by (simp add: tq_rest_def)
  have e: "expired_at now = (\<lambda>e. fst e \<le> now)" by (simp add: fun_eq_iff expired_at_def)
  show ?thesis
    by (rule handleRead_cases [OF inv, of script now clk])
      (auto simp: tq_rest_def tq_frame_def e not_le subset_iff)
qed

definition demo_queue :: TimerQueue where
  "demo_queue =
     \<lparr>timers = [(Timestamp 5, 16), (Timestamp 9, 32)], activeTimers = [],
      callingExpiredTimers = False, cancelingTimers = [],
      timer_heap = [16 \<mapsto> Timer_new 1 (Timestamp 5) (Dbl 1 0) 1, 32 \<mapsto> Timer_new 2 (Timestamp 9) (Dbl 0 0) 2],
      s_numCreated = 2, timerfd_setting = Some (Timestamp 5, howMuchTimeFromNow (Timestamp 5) (Timestamp 0)),
      callback_log = []\<rparr>"

lemma demo_queue_rest: "tq_rest demo_queue"
  by (auto simp: tq_rest_def tq_inv_def tq_armed_def demo_queue_def Timer_new_def UINTPTR_MAX_def
      pair_less_iff less_Timestamp_def dom_def split: if_splits)

theorem handleRead_runs_expired_witness:
  "TimerQueue_handleRead (\<lambda>_. []) demo_queue (Timestamp 7) (Timestamp 7) = Inl bad_alloc \<or>
    (\<exists>q'. TimerQueue_handleRead (\<lambda>_. []) demo_queue (Timestamp 7) (Timestamp 7) = Inr q' \<and>
       tq_rest q' \<and> callback_log q' = [1] \<and> (Timestamp 9, 32) \<in> set (timers q'))"
proof -
  have "map (entry_callback demo_queue) (filter (\<lambda>e. fst e \<le> Timestamp 7) (timers demo_queue)) = [1]"
    and "callback_log demo_queue = []"
    and "(Timestamp 9, 32) \<in> {e \<in> set (timers demo_queue). Timestamp 7 < fst e}"
    by (auto simp: demo_queue_def entry_callback_def Timer_new_def less_Timestamp_def less_eq_Timestamp_def)
  then show ?thesis
    using handleRead_runs_expired [OF demo_queue_rest, of "\<lambda>_. []" "Timestamp 7" "Timestamp 7"] by auto
qed


text \<open>Re-arming: when the callbacks leave the queue alone, an alarm never fails, the expired
  one-shot timers are gone and every expired repeating timer is pending again, one interval
  after \<open>now\<close>; nothing else changes.\<close>
theorem handleRead_rearms:
  assumes "tq_rest q" and "\<And>cb. script cb = []"
  shows "\<exists>q'. TimerQueue_handleRead script q now clk = Inr q' \<and>
    set (timers q') = {e \<in> set (timers q). now < fst e} \<union>
      {(addTime now (interval t), p) |t p w. (w, p) \<in> set (timers q) \<and> w \<le> now \<and>
         timer_heap q p = Some t \<and> repeat t}"
proof -
  have inv: "tq_inv [] q" using assms(1) by (simp add: tq_rest_def)
  have "rearmed q now ` {e \<in> set (expired_entries q now). \<exists>t. timer_heap q (snd e) = Some t \<and> repeat t} =
      {(addTime now (interval t), p) |t p w. (w, p) \<in> set (timers q) \<and> w \<le> now \<and>
         timer_heap q p = Some t \<and> repeat t}"
    by (force simp: rearmed_def expired_at_def)
  moreover have "set (pending_entries q now) = {e \<in> set (timers q). now < fst e}"
    by (auto simp: expired_at_def not_le)
  ultimately show ?thesis using handleRead_quiet [where script = script and now = now and clk = clk, OF inv assms(2)]
    by simp
qed

theorem handleRead_rearms_witness:
  "\<exists>q'. TimerQueue_handleRead (\<lambda>_. []) demo_queue (Timestamp 7) (Timestamp 7) = Inr q' \<and>
     set (timers q') = {(Timestamp 9, 32), (Timestamp 1000007, 16)}"
proof -
  have d: "addTime (Timestamp 7) (Dbl 1 0) = Timestamp 1000007"
    by (simp add: addTime_def addTime_delta_whole)
  have "{e \<in> set (timers demo_queue). Timestamp 7 < fst e} \<union>
      {(addTime (Timestamp 7) (interval t), p) |t p w. (w, p) \<in> set (timers demo_queue) \<and>
         w \<le> Timestamp 7 \<and> timer_heap demo_queue p = Some t \<and> repeat t}
      = {(Timestamp 9, 32), (Timestamp 1000007, 16)}"
    by (auto simp: demo_queue_def Timer_new_def less_Timestamp_def less_eq_Timestamp_def d
        dbl_positive_def)
  then show ?thesis
    using handleRead_rearms [OF demo_queue_rest, of "\<lambda>_. []" "Timestamp 7" "Timestamp 7"] by simp
qed

text \<open>A repeating timer that a callback cancels while its own alarm is being handled is not
  re-armed: it is deleted when the alarm has been handled.\<close>
theorem cancel_in_callback:
  assumes "tq_rest q" and "TimerQueue_handleRead script q now clk = Inr q'"
    and "e \<in> set (timers q)" and "fst e \<le> now"
    and "(w, p) \<in> set (timers q)" and "w \<le> now" and "timer_heap q p = Some t"
    and "CallCancel \<lparr>id_timer = p, id_sequence = sequence t\<rparr> \<in> set (script (entry_callback q e))"
  shows "timer_heap q' p = None \<and> p \<notin> snd ` set (timers q')"
proof -
  have inv: "tq_inv [] q" using assms(1) by (simp add: tq_rest_def)
  let ?E = "expired_entries q now"
  show ?thesis
  proof (rule handleRead_cases [OF inv, of script now clk])
    assume "TimerQueue_handleRead script q now clk = Inl bad_alloc"
    then show ?thesis using assms(2) by simp
  next
    fix q2 q''
    assume run: "foldR (Timer_run script) ?E (calling_state q now) = Inr q2"
      and fr: "tq_frame ?E (calling_state q now) q2"
      and q'': "TimerQueue_handleRead script q now clk = Inr q''" "tq_inv [] q''"
      and ts: "set (timers q'') = set (timers q2) \<union> rearmed q2 now ` {e \<in> set ?E. rearms q2 e}"
    have i2: "tq_inv ?E q2" using fr by (simp add: tq_frame_def)
    have wp: "(w, p) \<in> set ?E" using assms(5,6) by (simp add: expired_at_def)
    have ec: "entry_callback (calling_state q now) e = entry_callback q e"
      by (simp add: entry_callback_def)
    have "(p, sequence t) \<in> set (cancelingTimers q2)"
      using run_callbacks_cancel [OF tq_inv_calling [OF inv] _ subset_refl run, of e
          "\<lparr>id_timer = p, id_sequence = sequence t\<rparr>"] assms(3,4,8) ec
      by (simp add: expired_at_def)
    moreover have "p \<in> dom (timer_heap (calling_state q now))" using assms(7) by auto
    then have "timer_heap q2 p = Some t" using fr assms(7) unfolding tq_frame_def by simp
    ultimately have no: "\<not> rearms q2 (w, p)" by (simp add: rearms_def)
    have "p \<notin> snd ` set (timers q'')"
    proof
      assume "p \<in> snd ` set (timers q'')"
      then consider x where "x \<in> set (timers q2)" "snd x = p"
        | x where "x \<in> set ?E" "rearms q2 x" "snd x = p"
        using ts by (auto simp: rearmed_def)
      then show False
      proof cases
        case 1
        then have "x = (w, p)" using i2 wp by (auto simp: tq_inv_def inj_on_def)
        then show False using 1 wp i2 by (auto simp: tq_inv_def)
      next
        case 2
        then have "x = (w, p)" using i2 wp unfolding tq_inv_def inj_on_def by (metis UnI2 snd_conv)
        then show False using 2 no by simp
      qed
    qed
    moreover have "dom (timer_heap q'') = snd ` set (timers q'')" using q''(2) by (simp add: tq_inv_def)
    ultimately show ?thesis using q''(1) assms(2) by auto
  qed
qed


theorem cancel_in_callback_witness:
  "\<exists>q'. TimerQueue_handleRead (\<lambda>_. [CallCancel \<lparr>id_timer = 16, id_sequence = 1\<rparr>]) demo_queue
      (Timestamp 7) (Timestamp 7) = Inr q' \<and> timer_heap q' 16 = None \<and> 16 \<notin> snd ` set (timers q')"
proof -
  let ?s = "\<lambda>_::nat. [CallCancel \<lparr>id_timer = 16, id_sequence = 1\<rparr>]"
  have "\<not> isl (TimerQueue_handleRead ?s demo_queue (Timestamp 7) (Timestamp 7))" by code_simp
  then obtain q' where q': "TimerQueue_handleRead ?s demo_queue (Timestamp 7) (Timestamp 7) = Inr q'"
    using not_isl_Inr by blast
  have "timer_heap q' 16 = None \<and> 16 \<notin> snd ` set (timers q')"
    by (rule cancel_in_callback [OF demo_queue_rest q', where e = "(Timestamp 5, 16)"
          and w = "Timestamp 5" and t = "Timer_new 1 (Timestamp 5) (Dbl 1 0) 1"])
      (simp_all add: demo_queue_def less_eq_Timestamp_def Timer_new_def)
  then show ?thesis using q' by blast
qed

text \<open>\<open>cancel\<close> outside a callback has no effect at all: \<open>insert\<close> never records a timer in
  \<open>activeTimers_\<close>, so in every reachable queue that set is empty, \<open>cancelInLoop\<close> finds nothing
  and leaves the queue as it is, the pending timer with it.\<close>
theorem cancel_has_no_effect:
  assumes "reachable (\<lambda>q. q = TimerQueue_new) (tq_step script) q"
  shows "activeTimers q = [] \<and> cancelInLoop q tid = Inr q"
proof -
  have "tq_rest q" by (rule tq.reachable_inv [OF assms])
  then have "tq_inv [] q" and "\<not> callingExpiredTimers q" by (simp_all add: tq_rest_def)
  then show ?thesis using cancelInLoop_spec(1) [of "[]" q tid] by (simp add: tq_inv_def)
qed

theorem cancel_has_no_effect_witness:
  "\<exists>q. TimerQueue_addTimer TimerQueue_new 16 1 (Timestamp 60000000) (Dbl 0 0) (Timestamp 1) =
      Inr (\<lparr>id_timer = 16, id_sequence = 1\<rparr>, q) \<and>
    timers q = [(Timestamp 60000000, 16)] \<and> activeTimers q = [] \<and>
    cancelInLoop q \<lparr>id_timer = 16, id_sequence = 1\<rparr> = Inr q"
proof -
  obtain q where q: "TimerQueue_addTimer TimerQueue_new 16 1 (Timestamp 60000000) (Dbl 0 0) (Timestamp 1) =
      Inr (\<lparr>id_timer = 16, id_sequence = 1\<rparr>, q)" and ts: "timers q = [(Timestamp 60000000, 16)]"
    by (simp add: TimerQueue_addTimer_def new_Timer_def addTimerInLoop_def TimerQueue_insert_def
        timer_deref_def TimerQueue_new_def Timer_new_def UINTPTR_MAX_def resetTimerfd_def Let_def)
  have "reachable (\<lambda>q. q = TimerQueue_new) (tq_step (\<lambda>_. [])) q"
    by (rule reach_step [OF reach_start]) (auto intro: step_add [OF q])
  from cancel_has_no_effect [OF this] q ts show ?thesis by blast
qed

text \<open>C28. The alarm is always set: in every reachable queue with a pending timer, the \<open>timerfd\<close>
  was last set for the expiration of the earliest one (when that is a valid instant), so no timer
  is forgotten.\<close>
theorem timerfd_set_for_earliest:
  assumes "reachable (\<lambda>q. q = TimerQueue_new) (tq_step script) q"
    and "e \<in> set (timers q)" and "\<forall>x \<in> set (timers q). Timestamp_valid (fst x)"
  shows "\<exists>w clk. timerfd_setting q = Some (w, howMuchTimeFromNow w clk) \<and> w \<le> fst e \<and>
    (\<exists>x \<in> set (timers q). fst x = w)"
proof -
  have r: "tq_rest q" by (rule tq.reachable_inv [OF assms(1)])
  then have o: "oset_inv (timers q)" and a: "tq_armed q" by (simp_all add: tq_rest_def tq_inv_def)
  have ne: "timers q \<noteq> []" using assms(2) by auto
  then have h: "hd (timers q) \<in> set (timers q)" by simp
  have "hd (timers q) \<le> e" using o assms(2) by (rule oset_hd_le)
  then have "fst (hd (timers q)) \<le> fst e" by (auto simp: less_eq_prod_def)
  moreover obtain clk where "timerfd_setting q =
      Some (fst (hd (timers q)), howMuchTimeFromNow (fst (hd (timers q))) clk)"
    using a ne h assms(3) unfolding tq_armed_def by blast
  ultimately show ?thesis using h by blast
qed

theorem timerfd_set_for_earliest_witness:
  "\<exists>(q::TimerQueue) w clk. timers q = [(Timestamp 60000000, 16)] \<and>
     timerfd_setting q = Some (w, howMuchTimeFromNow w clk) \<and> w \<le> Timestamp 60000000"
proof -
  obtain q tid where q: "TimerQueue_addTimer TimerQueue_new 16 1 (Timestamp 60000000) (Dbl 0 0) (Timestamp 1) =
      Inr (tid, q)" and ts: "timers q = [(Timestamp 60000000, 16)]"
    by (simp add: TimerQueue_addTimer_def new_Timer_def addTimerInLoop_def TimerQueue_insert_def
        timer_deref_def TimerQueue_new_def Timer_new_def UINTPTR_MAX_def resetTimerfd_def Let_def)
  have "reachable (\<lambda>q. q = TimerQueue_new) (tq_step (\<lambda>_. [])) q"
    by (rule reach_step [OF reach_start]) (auto intro: step_add [OF q])
  from timerfd_set_for_earliest [OF this, of "(Timestamp 60000000, 16)"] ts
  have "\<exists>w clk. timerfd_setting q = Some (w, howMuchTimeFromNow w clk) \<and> w \<le> Timestamp 60000000"
    by (auto simp: Timestamp_valid_def)
  with ts show ?thesis by blast
qed

text \<open>The relative time given to \<open>timerfd_settime\<close> is at least 100 microseconds, so it never
  disarms the \<open>timerfd\<close>; its nanoseconds are normalised; and it is exactly the distance to the
  expiration whenever that is not shorter.\<close>
theorem howMuchTimeFromNow_bounds:
  defines "us w n \<equiv> microSecondsSinceEpoch w - microSecondsSinceEpoch n"
  shows "0 \<le> tv_sec (howMuchTimeFromNow w n) \<and> 0 \<le> tv_nsec (howMuchTimeFromNow w n) \<and>
    tv_nsec (howMuchTimeFromNow w n) < 1000000000 \<and>
    tv_sec (howMuchTimeFromNow w n) * 1000000000 + tv_nsec (howMuchTimeFromNow w n) =
      max 100 (us w n) * 1000"
proof -
  let ?m = "max 100 (us w n)"
  have m: "0 \<le> ?m" by simp
  have e: "tv_sec (howMuchTimeFromNow w n) = ?m div 1000000"
    "tv_nsec (howMuchTimeFromNow w n) = ?m mod 1000000 * 1000"
    by (auto simp: howMuchTimeFromNow_def us_def kMicroSecondsPerSecond_def Let_def max_def
        sdiv_pos_eq_div smod_pos_eq_mod)
  have "?m div 1000000 * 1000000 + ?m mod 1000000 = ?m" by (rule div_mult_mod_eq)
  then have "?m div 1000000 * 1000000000 + ?m mod 1000000 * 1000 = ?m * 1000" by linarith
  moreover have "0 \<le> ?m div 1000000" using m by (simp add: pos_imp_zdiv_nonneg_iff)
  moreover have "0 \<le> ?m mod 1000000" "?m mod 1000000 < 1000000" by simp_all
  ultimately show ?thesis unfolding e by linarith
qed

end
