(* ===== verification/EventLoop.thy ===== *)
theory EventLoop
  imports EPollPoller TimerQueue
begin

text \<open>
  \<open>src/net/EventLoop.h\<close>, \<open>EventLoop.cc\<close> and the operations of \<open>Channel.h\<close> and \<open>Channel.cc\<close> that
  go through the loop: registration of channels, the wake-up descriptor, the queue of pending
  functors, one iteration of the loop and the loop itself.

  The record extends the poller's, so every operation of the poller is one of the loop. A
  \<open>Functor\<close> is the object \<open>std::bind\<close> makes, known by the function it binds and its arguments;
  what calling it does is a parameter \<open>exec\<close>, as the callbacks of the channels are a parameter
  \<open>cb\<close>. \<open>this_thread\<close> is the thread that makes the call, \<open>clock\<close> the reading of
  \<open>Timestamp::now()\<close>, \<open>wakeup_counter\<close> the counter of the \<open>eventfd\<close>.
\<close>

section \<open>State\<close>

datatype Functor =
    F_addTimerInLoop timer_ptr
  | F_cancelInLoop TimerId
  | F_sendInLoop nat string
  | F_shutdownInLoop nat
  | F_forceCloseInLoop nat
  | F_writeComplete nat
  | F_connectEstablished nat
  | F_connectDestroyed nat
  | F_removeConnectionInLoop nat
  | F_listen
  | F_Connector_startInLoop
  | F_Connector_stopInLoop
  | F_Connector_resetChannel
  | F_TcpClient_setCloseCallback nat
  | F_user nat

record EventLoop = Poller +
  looping :: bool
  quit :: bool
  eventHandling :: bool
  callingPendingFunctors :: bool
  pollReturnTime :: Timestamp
  timerQueue :: TimerQueue
  timerfdChannel :: chan_ptr
  wakeupChannel :: chan_ptr
  wakeup_counter :: nat
  activeChannels :: "chan_ptr list"
  pendingFunctors :: "Functor list"
  clock :: Timestamp

definition kPollTimeMs :: nat where
  "kPollTimeMs = 10000"

section \<open>Channels and the loop\<close>

definition EventLoop_updateChannel ::
    "'z EventLoop_scheme \<Rightarrow> chan_ptr \<Rightarrow> 'z EventLoop_scheme res" where
  "EventLoop_updateChannel st p =
     bindR (chan_deref st p) (\<lambda>ch.
       assertR (ch_loop ch = loop_id st) ''channel->ownerLoop() == this''
         (assertInLoopThread st (EPollPoller_updateChannel st p)))"

definition EventLoop_removeChannel ::
    "'z EventLoop_scheme \<Rightarrow> chan_ptr \<Rightarrow> 'z EventLoop_scheme res" where
  "EventLoop_removeChannel st p =
     bindR (chan_deref st p) (\<lambda>ch.
       assertR (ch_loop ch = loop_id st) ''channel->ownerLoop() == this''
         (assertInLoopThread st
           (if eventHandling st
            then assertR (p \<notin> set (activeChannels st)) ''std::find(activeChannels_, channel) == end''
                   (EPollPoller_removeChannel st p)
            else EPollPoller_removeChannel st p)))"

definition EventLoop_hasChannel :: "'z EventLoop_scheme \<Rightarrow> chan_ptr \<Rightarrow> bool res" where
  "EventLoop_hasChannel st p =
     bindR (chan_deref st p) (\<lambda>ch.
       assertR (ch_loop ch = loop_id st) ''channel->ownerLoop() == this''
         (assertInLoopThread st (Poller_hasChannel st p)))"

definition Channel_update :: "'z EventLoop_scheme \<Rightarrow> chan_ptr \<Rightarrow> 'z EventLoop_scheme res" where
  "Channel_update st p =
     bindR (chan_deref st p) (\<lambda>ch.
       EventLoop_updateChannel (chan_put st p (ch\<lparr>addedToLoop := True\<rparr>)) p)"

definition change_events ::
    "(events \<Rightarrow> events) \<Rightarrow> 'z EventLoop_scheme \<Rightarrow> chan_ptr \<Rightarrow> 'z EventLoop_scheme res" where
  "change_events f st p =
     bindR (chan_deref st p) (\<lambda>ch.
       Channel_update (chan_put st p (ch\<lparr>ch_events := f (ch_events ch)\<rparr>)) p)"

definition Channel_enableReading ::
    "'z EventLoop_scheme \<Rightarrow> chan_ptr \<Rightarrow> 'z EventLoop_scheme res" where
  "Channel_enableReading = change_events mask_enableReading"

definition Channel_disableReading ::
    "'z EventLoop_scheme \<Rightarrow> chan_ptr \<Rightarrow> 'z EventLoop_scheme res" where
  "Channel_disableReading = change_events mask_disableReading"

definition Channel_enableWriting ::
    "'z EventLoop_scheme \<Rightarrow> chan_ptr \<Rightarrow> 'z EventLoop_scheme res" where
  "Channel_enableWriting = change_events mask_enableWriting"

definition Channel_disableWriting ::
    "'z EventLoop_scheme \<Rightarrow> chan_ptr \<Rightarrow> 'z EventLoop_scheme res" where
  "Channel_disableWriting = change_events mask_disableWriting"

definition Channel_disableAll ::
    "'z EventLoop_scheme \<Rightarrow> chan_ptr \<Rightarrow> 'z EventLoop_scheme res" where
  "Channel_disableAll = change_events mask_disableAll"

definition Channel_remove :: "'z EventLoop_scheme \<Rightarrow> chan_ptr \<Rightarrow> 'z EventLoop_scheme res" where
  "Channel_remove st p =
     bindR (chan_deref st p) (\<lambda>ch.
       assertR (isNoneEvent ch) ''isNoneEvent()''
         (bindR (EventLoop_removeChannel st p) (\<lambda>st1.
            bindR (chan_deref st1 p) (\<lambda>ch1.
              Inr (chan_put st1 p (ch1\<lparr>addedToLoop := False\<rparr>))))))"

definition new_Channel ::
    "'z EventLoop_scheme \<Rightarrow> chan_ptr \<Rightarrow> Channel \<Rightarrow> 'z EventLoop_scheme res" where
  "new_Channel st p ch =
     requireR (chan_store st p = None) (Thrown ''std::bad_alloc'') (Inr (chan_put st p ch))"

definition delete_Channel :: "'z EventLoop_scheme \<Rightarrow> chan_ptr \<Rightarrow> 'z EventLoop_scheme res" where
  "delete_Channel st p =
     bindR (chan_deref st p) (\<lambda>ch.
       assertR (\<not> addedToLoop ch) ''!addedToLoop_''
         (assertR (\<not> ch_eventHandling ch) ''!eventHandling_''
           (bindR (if isInLoopThread st
                   then bindR (EventLoop_hasChannel st p)
                          (\<lambda>b. assertR (\<not> b) ''!loop_->hasChannel(this)'' (Inr st))
                   else Inr st)
              (\<lambda>st1. Inr (st1\<lparr>chan_store := (chan_store st1)(p := None)\<rparr>)))))"

text \<open>
  \<open>handleEvent\<close>: \<open>cb\<close> runs a callback of the channel. The channel is read again after the last
  callback, to reset \<open>eventHandling_\<close>: a callback that deleted it leaves a dangling access.
\<close>

definition Channel_handleEvent ::
    "(chan_ptr \<Rightarrow> chan_event \<Rightarrow> 'z EventLoop_scheme \<Rightarrow> 'z EventLoop_scheme res) \<Rightarrow>
     chan_ptr \<Rightarrow> 'z EventLoop_scheme \<Rightarrow> 'z EventLoop_scheme res" where
  "Channel_handleEvent cb p st =
     bindR (chan_deref st p) (\<lambda>ch.
       if tied ch \<and> \<not> tie_alive ch then Inr st
       else bindR (foldR (cb p) (dispatch ch) (chan_put st p (ch\<lparr>ch_eventHandling := True\<rparr>)))
              (\<lambda>st1. bindR (chan_deref st1 p) (\<lambda>ch1.
                 Inr (chan_put st1 p (ch1\<lparr>ch_eventHandling := False\<rparr>)))))"

section \<open>Functors\<close>

text \<open>
  The write to the \<open>eventfd\<close> adds one to its 64-bit counter, whose largest value is
  \<open>2 ^ 64 - 2\<close>; there the non-blocking write fails, which is only logged. A read resets it.
\<close>

definition wakeup :: "'z EventLoop_scheme \<Rightarrow> 'z EventLoop_scheme" where
  "wakeup st =
     (if wakeup_counter st < 2 ^ 64 - 2 then st\<lparr>wakeup_counter := wakeup_counter st + 1\<rparr> else st)"

definition EventLoop_handleRead :: "'z EventLoop_scheme \<Rightarrow> 'z EventLoop_scheme" where
  "EventLoop_handleRead st = st\<lparr>wakeup_counter := 0\<rparr>"

definition queueInLoop :: "Functor \<Rightarrow> 'z EventLoop_scheme \<Rightarrow> 'z EventLoop_scheme" where
  "queueInLoop cb st =
     (let st1 = st\<lparr>pendingFunctors := pendingFunctors st @ [cb]\<rparr> in
      if \<not> isInLoopThread st1 \<or> callingPendingFunctors st1 then wakeup st1 else st1)"

definition runInLoop ::
    "(Functor \<Rightarrow> 'z EventLoop_scheme \<Rightarrow> 'z EventLoop_scheme res) \<Rightarrow> Functor \<Rightarrow>
     'z EventLoop_scheme \<Rightarrow> 'z EventLoop_scheme res" where
  "runInLoop exec cb st =
     (if isInLoopThread st then exec cb st else Inr (queueInLoop cb st))"

definition EventLoop_quit :: "'z EventLoop_scheme \<Rightarrow> 'z EventLoop_scheme" where
  "EventLoop_quit st =
     (let st1 = st\<lparr>quit := True\<rparr> in if \<not> isInLoopThread st1 then wakeup st1 else st1)"

definition doPendingFunctors ::
    "(Functor \<Rightarrow> 'z EventLoop_scheme \<Rightarrow> 'z EventLoop_scheme res) \<Rightarrow>
     'z EventLoop_scheme \<Rightarrow> 'z EventLoop_scheme res" where
  "doPendingFunctors exec st =
     (let functors = pendingFunctors st;
          st1 = st\<lparr>callingPendingFunctors := True, pendingFunctors := []\<rparr>
      in bindR (foldR exec functors st1) (\<lambda>st2. Inr (st2\<lparr>callingPendingFunctors := False\<rparr>)))"

section \<open>Timers\<close>

text \<open>The functors the timer queue binds.\<close>

fun exec_timer_functor :: "Functor \<Rightarrow> 'z EventLoop_scheme \<Rightarrow> 'z EventLoop_scheme res" where
  "exec_timer_functor (F_addTimerInLoop p) st =
     bindR (addTimerInLoop (timerQueue st) p (clock st)) (\<lambda>q. Inr (st\<lparr>timerQueue := q\<rparr>))"
| "exec_timer_functor (F_cancelInLoop tid) st =
     bindR (cancelInLoop (timerQueue st) tid) (\<lambda>q. Inr (st\<lparr>timerQueue := q\<rparr>))"
| "exec_timer_functor _ st = Inr st"

definition EventLoop_addTimer ::
    "timer_ptr \<Rightarrow> nat \<Rightarrow> Timestamp \<Rightarrow> double \<Rightarrow> 'z EventLoop_scheme \<Rightarrow>
     (TimerId \<times> 'z EventLoop_scheme) res" where
  "EventLoop_addTimer p cb when intv st =
     bindR (new_Timer (timerQueue st) p cb when intv) (\<lambda>(tid, q).
       bindR (runInLoop exec_timer_functor (F_addTimerInLoop p) (st\<lparr>timerQueue := q\<rparr>))
         (\<lambda>st1. Inr (tid, st1)))"

definition runAt ::
    "timer_ptr \<Rightarrow> Timestamp \<Rightarrow> nat \<Rightarrow> 'z EventLoop_scheme \<Rightarrow> (TimerId \<times> 'z EventLoop_scheme) res" where
  "runAt p time cb st = EventLoop_addTimer p cb time (Dbl 0 0) st"

definition runAfter ::
    "timer_ptr \<Rightarrow> double \<Rightarrow> nat \<Rightarrow> 'z EventLoop_scheme \<Rightarrow> (TimerId \<times> 'z EventLoop_scheme) res" where
  "runAfter p delay cb st = runAt p (addTime (clock st) delay) cb st"

definition runEvery ::
    "timer_ptr \<Rightarrow> double \<Rightarrow> nat \<Rightarrow> 'z EventLoop_scheme \<Rightarrow> (TimerId \<times> 'z EventLoop_scheme) res" where
  "runEvery p intv cb st = EventLoop_addTimer p cb (addTime (clock st) intv) intv st"

definition EventLoop_cancel :: "TimerId \<Rightarrow> 'z EventLoop_scheme \<Rightarrow> 'z EventLoop_scheme res" where
  "EventLoop_cancel tid st = runInLoop exec_timer_functor (F_cancelInLoop tid) st"

section \<open>The loop\<close>

definition loop_iteration ::
    "(chan_ptr \<Rightarrow> chan_event \<Rightarrow> 'z EventLoop_scheme \<Rightarrow> 'z EventLoop_scheme res) \<Rightarrow>
     (Functor \<Rightarrow> 'z EventLoop_scheme \<Rightarrow> 'z EventLoop_scheme res) \<Rightarrow>
     wait_result \<times> Timestamp \<Rightarrow> 'z EventLoop_scheme \<Rightarrow> 'z EventLoop_scheme res" where
  "loop_iteration cb exec r st =
     bindR (EPollPoller_poll (st\<lparr>activeChannels := []\<rparr>) (fst r) []) (\<lambda>(st1, act).
       bindR (foldR (Channel_handleEvent cb) act
                (st1\<lparr>activeChannels := act, pollReturnTime := snd r, eventHandling := True\<rparr>))
         (\<lambda>st2. doPendingFunctors exec (st2\<lparr>eventHandling := False\<rparr>)))"

text \<open>
  \<open>loop()\<close> on the outcomes of the successive polls. When the outcomes run out the loop is waiting
  in \<open>epoll_wait\<close>, with \<open>looping_\<close> still true.
\<close>

fun loop_while ::
    "(chan_ptr \<Rightarrow> chan_event \<Rightarrow> 'z EventLoop_scheme \<Rightarrow> 'z EventLoop_scheme res) \<Rightarrow>
     (Functor \<Rightarrow> 'z EventLoop_scheme \<Rightarrow> 'z EventLoop_scheme res) \<Rightarrow>
     (wait_result \<times> Timestamp) list \<Rightarrow> 'z EventLoop_scheme \<Rightarrow> 'z EventLoop_scheme res" where
  "loop_while cb exec rs st =
     (if quit st then Inr (st\<lparr>looping := False\<rparr>)
      else (case rs of [] \<Rightarrow> Inr st
            | r # rs' \<Rightarrow> bindR (loop_iteration cb exec r st) (loop_while cb exec rs')))"

definition EventLoop_loop ::
    "(chan_ptr \<Rightarrow> chan_event \<Rightarrow> 'z EventLoop_scheme \<Rightarrow> 'z EventLoop_scheme res) \<Rightarrow>
     (Functor \<Rightarrow> 'z EventLoop_scheme \<Rightarrow> 'z EventLoop_scheme res) \<Rightarrow>
     (wait_result \<times> Timestamp) list \<Rightarrow> 'z EventLoop_scheme \<Rightarrow> 'z EventLoop_scheme res" where
  "EventLoop_loop cb exec rs st =
     assertR (\<not> looping st) ''!looping_''
       (assertInLoopThread st
         (loop_while cb exec rs (st\<lparr>looping := True, quit := False\<rparr>)))"

section \<open>Construction and destruction\<close>

definition Channel_new_read :: "nat \<Rightarrow> int \<Rightarrow> Channel" where
  "Channel_new_read loop fd = Channel_setReadCallback (Channel_new loop fd)"

definition TimerQueue_ctor ::
    "chan_ptr \<Rightarrow> int \<Rightarrow> 'z EventLoop_scheme \<Rightarrow> 'z EventLoop_scheme res" where
  "TimerQueue_ctor p timerfd st =
     (if timerfd < 0 then Inl (FatalLog ''Failed in timerfd_create'')
      else bindR (new_Channel st p (Channel_new_read (loop_id st) timerfd)) (\<lambda>st1.
             Channel_enableReading (st1\<lparr>timerQueue := TimerQueue_new, timerfdChannel := p\<rparr>) p))"

text \<open>
  \<open>Poller::newDefaultPoller\<close>: \<open>use_poll\<close> says whether \<open>MUDUO_USE_POLL\<close> is in the environment, and then
  the result is the null pointer.
\<close>

definition newDefaultPoller ::
    "bool \<Rightarrow> nat \<Rightarrow> nat \<Rightarrow> (ctl_op \<Rightarrow> int \<Rightarrow> interest \<Rightarrow> bool) \<Rightarrow> int \<Rightarrow> Poller option res" where
  "newDefaultPoller use_poll loop tid fails epollfd =
     (if use_poll then Inr None
      else bindR (EPollPoller_new loop tid fails epollfd) (\<lambda>pl. Inr (Some pl)))"

text \<open>
  \<open>EventLoop()\<close>: \<open>other\<close> says whether the thread already has a loop (\<open>t_loopInThisThread\<close>);
  \<open>tp\<close> and \<open>wp\<close> are the addresses of the two channels, \<open>timerfd\<close> and \<open>evtfd\<close> the descriptors
  the kernel returned. On a null \<open>poller_\<close> the timer queue's channel cannot be registered.
\<close>

definition EventLoop_new ::
    "bool \<Rightarrow> nat \<Rightarrow> nat \<Rightarrow> (ctl_op \<Rightarrow> int \<Rightarrow> interest \<Rightarrow> bool) \<Rightarrow> int \<Rightarrow> chan_ptr \<Rightarrow> int \<Rightarrow> chan_ptr \<Rightarrow> int \<Rightarrow>
     bool \<Rightarrow> Timestamp \<Rightarrow> EventLoop res" where
  "EventLoop_new use_poll loop tid fails epollfd tp timerfd wp evtfd other now =
     bindR (newDefaultPoller use_poll loop tid fails epollfd) (\<lambda>poller.
       case poller of
         None \<Rightarrow> if timerfd < 0 then Inl (FatalLog ''Failed in timerfd_create'') else Inl (BadAccess ''poller_'')
       | Some pl \<Rightarrow>
           bindR (TimerQueue_ctor tp timerfd (Poller.extend pl
             (EventLoop.fields False False False False Timestamp_invalid TimerQueue_new tp wp 0 [] [] now)))
           (\<lambda>st1.
             if evtfd < 0 then Inl (FatalLog ''Failed in eventfd'')
             else bindR (new_Channel st1 wp (Channel_new loop evtfd)) (\<lambda>st2.
                    if other then Inl (FatalLog ''Another EventLoop exists in this thread'')
                    else bindR (chan_deref st2 wp) (\<lambda>ch.
                           Channel_enableReading (chan_put st2 wp (Channel_setReadCallback ch)) wp))))"

definition TimerQueue_dtor :: "'z EventLoop_scheme \<Rightarrow> 'z EventLoop_scheme res" where
  "TimerQueue_dtor st =
     bindR (Channel_disableAll st (timerfdChannel st)) (\<lambda>st1.
       bindR (Channel_remove st1 (timerfdChannel st1)) (\<lambda>st2.
         bindR (TimerQueue_destroy (timerQueue st2)) (\<lambda>q.
           delete_Channel (st2\<lparr>timerQueue := q\<rparr>) (timerfdChannel st2))))"

definition EventLoop_delete :: "'z EventLoop_scheme \<Rightarrow> 'z EventLoop_scheme res" where
  "EventLoop_delete st =
     bindR (Channel_disableAll st (wakeupChannel st)) (\<lambda>st1.
       bindR (Channel_remove st1 (wakeupChannel st1)) (\<lambda>st2.
         bindR (delete_Channel st2 (wakeupChannel st2)) TimerQueue_dtor))"

section \<open>The registration invariant\<close>

lemma poller_inv_cong:
  assumes "events_size st = events_size st'" and "chan_store st = chan_store st'"
    and "channels st = channels st'" and "epoll_set st = epoll_set st'"
  shows "poller_inv st = poller_inv st'"
proof -
  have "registered st = registered st'"
    unfolding registered_def assms ..
  moreover have "chan_inv st = chan_inv st'"
    using assms by (intro ext) (simp add: chan_inv_def)
  ultimately show ?thesis using assms by (simp add: poller_inv_def)
qed

lemma poller_inv_loop_fields [simp]:
  fixes st :: "'z EventLoop_scheme"
  shows "poller_inv (st\<lparr>activeChannels := a\<rparr>) = poller_inv st"
    and "poller_inv (st\<lparr>pendingFunctors := f\<rparr>) = poller_inv st"
    and "poller_inv (st\<lparr>wakeup_counter := n\<rparr>) = poller_inv st"
    and "poller_inv (st\<lparr>timerQueue := q\<rparr>) = poller_inv st"
    and "poller_inv (st\<lparr>timerfdChannel := tp\<rparr>) = poller_inv st"
    and "poller_inv (st\<lparr>this_thread := t\<rparr>) = poller_inv st"
  by (rule poller_inv_cong; simp)+

definition loop_inv :: "'z EventLoop_scheme \<Rightarrow> bool" where
  "loop_inv st \<longleftrightarrow> poller_inv st \<and> epoll_contract (epoll_ctl_fails st)"

text \<open>When a change of the interest mask succeeds, and what it leaves.\<close>

definition fd_free :: "'z Poller_scheme \<Rightarrow> Channel \<Rightarrow> bool" where
  "fd_free st ch \<longleftrightarrow> (ch_index ch = kNew \<longrightarrow> channels st (ch_fd ch) = None)"

lemma change_events_eq:
  assumes inv: "loop_inv st" and p: "chan_store st p = Some ch" and l: "ch_loop ch = loop_id st"
    and t: "isInLoopThread st" and free: "fd_free st ch"
  shows "change_events f st p =
    Inr (update_result st p (ch\<lparr>ch_events := f (ch_events ch), addedToLoop := True\<rparr>))"
proof -
  let ?ch = "ch\<lparr>ch_events := f (ch_events ch), addedToLoop := True\<rparr>"
  have "EPollPoller_updateChannel (chan_put st p ?ch) p = Inr (update_result st p ?ch)"
    by (rule updateChannel_eq [of st p ch]) (use assms in \<open>auto simp: loop_inv_def fd_free_def\<close>)
  moreover have "chan_put (chan_put st p c) p c' = chan_put st p c'" for c c'
    by (simp add: chan_put_def)
  ultimately show ?thesis using p l t
    by (simp add: change_events_def Channel_update_def EventLoop_updateChannel_def)
qed

lemma change_events_Inr:
  assumes "change_events f st p = Inr st'"
  obtains ch where "chan_store st p = Some ch" "ch_loop ch = loop_id st" "isInLoopThread st" "fd_free st ch"
proof (cases "chan_store st p")
  case None
  then show ?thesis using assms by (simp add: change_events_def)
next
  case (Some ch)
  with assms show ?thesis
    by (intro that [of ch])
      (auto simp: change_events_def Channel_update_def EventLoop_updateChannel_def res_iffs
        assertInLoopThread_eq_Inr EPollPoller_updateChannel_def fd_free_def Let_def)
qed

lemma update_result_simps [simp]:
  "epoll_ctl_fails (update_result st p ch) = epoll_ctl_fails st"
  "loop_id (update_result st p ch) = loop_id st"
  "isInLoopThread (update_result st p ch) = isInLoopThread st"
  by (simp_all add: update_result_def isInLoopThread_def)

lemma remove_result_simps [simp]:
  "epoll_ctl_fails (remove_result st p ch) = epoll_ctl_fails st"
  "loop_id (remove_result st p ch) = loop_id st"
  "isInLoopThread (remove_result st p ch) = isInLoopThread st"
  "chan_store (remove_result st p ch) = (chan_store st)(p \<mapsto> set_index ch kNew)"
  by (simp_all add: remove_result_def isInLoopThread_def)

lemma change_events_inv:
  assumes "loop_inv st" and "change_events f st p = Inr st'"
  shows "loop_inv st'"
proof -
  obtain ch where ch: "chan_store st p = Some ch" "ch_loop ch = loop_id st" "isInLoopThread st"
    "fd_free st ch" using change_events_Inr [OF assms(2)] .
  let ?ch = "ch\<lparr>ch_events := f (ch_events ch), addedToLoop := True\<rparr>"
  have "poller_inv (update_result st p ?ch)"
    by (rule updateChannel_inv [of st p ch]) (use assms(1) ch in \<open>auto simp: loop_inv_def fd_free_def\<close>)
  with change_events_eq [OF assms(1) ch, of f] assms show ?thesis by (simp add: loop_inv_def)
qed

text \<open>Changing a flag that the poller does not read.\<close>

lemma chan_put_inv:
  assumes inv: "poller_inv st" and p: "chan_store st p = Some ch"
    and same: "ch_fd ch' = ch_fd ch" "ch_index ch' = ch_index ch" "ch_events ch' = ch_events ch"
  shows "poller_inv (chan_put st p ch')"
proof (rule poller_invI)
  note I = poller_invD [OF inv]
  fix fd
  show "epoll_set (chan_put st p ch') fd = registered (chan_put st p ch') fd"
    using I(4) p same by (auto simp: registered_def split: option.split)
next
  note I = poller_invD [OF inv]
  fix q c assume "chan_store (chan_put st p ch') q = Some c"
  then show "chan_inv (chan_put st p ch') q c"
    using I(2) [of q] I(2) [OF p] same by (cases "q = p") (auto simp: chan_inv_def)
next
  note I = poller_invD [OF inv]
  fix fd q assume "channels (chan_put st p ch') fd = Some q"
  then show "\<exists>c. chan_store (chan_put st p ch') q = Some c \<and> ch_fd c = fd"
    using I(3) [of fd q] p same by auto
qed (use poller_invD(1) [OF inv] in simp)

lemma Channel_remove_eq:
  assumes inv: "loop_inv st" and p: "chan_store st p = Some ch" and l: "ch_loop ch = loop_id st"
    and t: "isInLoopThread st" and idx: "ch_index ch \<noteq> kNew" and none: "isNoneEvent ch"
    and act: "eventHandling st \<Longrightarrow> p \<notin> set (activeChannels st)"
  shows "Channel_remove st p =
    Inr (chan_put (remove_result st p ch) p (set_index ch kNew\<lparr>addedToLoop := False\<rparr>))"
proof -
  have "EPollPoller_removeChannel st p = Inr (remove_result st p ch)"
    by (rule removeChannel_eq) (use assms in \<open>auto simp: loop_inv_def\<close>)
  then show ?thesis using p l t none act
    by (simp add: Channel_remove_def EventLoop_removeChannel_def)
qed

lemma Channel_remove_Inr:
  assumes "loop_inv st" and "Channel_remove st p = Inr st'"
  obtains ch where "chan_store st p = Some ch" "ch_loop ch = loop_id st" "isInLoopThread st"
    "ch_index ch \<noteq> kNew" "isNoneEvent ch" "eventHandling st \<Longrightarrow> p \<notin> set (activeChannels st)"
proof (cases "chan_store st p")
  case None
  then show ?thesis using assms by (simp add: Channel_remove_def)
next
  case (Some ch)
  with assms(2) have *: "ch_loop ch = loop_id st" "isInLoopThread st" "isNoneEvent ch"
    "eventHandling st \<longrightarrow> p \<notin> set (activeChannels st)" "\<exists>s. EPollPoller_removeChannel st p = Inr s"
    by (auto simp: Channel_remove_def EventLoop_removeChannel_def res_iffs assertInLoopThread_eq_Inr
        split: if_splits)
  moreover have "ch_index ch \<noteq> kNew"
    using *(2,5) removeChannel_unregistered [of st p ch] Some assms(1) by (auto simp: loop_inv_def)
  ultimately show ?thesis using Some that [of ch] by blast
qed

lemma Channel_remove_inv:
  assumes "loop_inv st" and "Channel_remove st p = Inr st'"
  shows "loop_inv st'"
proof -
  obtain ch where ch: "chan_store st p = Some ch" "ch_loop ch = loop_id st" "isInLoopThread st"
    "ch_index ch \<noteq> kNew" "isNoneEvent ch" "eventHandling st \<Longrightarrow> p \<notin> set (activeChannels st)"
    using Channel_remove_Inr [OF assms] by blast
  have "poller_inv (remove_result st p ch)"
    using removeChannel_inv [of st p ch] assms(1) ch by (simp add: loop_inv_def)
  then have "poller_inv (chan_put (remove_result st p ch) p (set_index ch kNew\<lparr>addedToLoop := False\<rparr>))"
    by (rule chan_put_inv [where ch = "set_index ch kNew"]) auto
  with Channel_remove_eq [OF assms(1) ch] assms show ?thesis by (simp add: loop_inv_def)
qed

lemma delete_Channel_inv:
  assumes "loop_inv st" and "delete_Channel st p = Inr st'" and "isInLoopThread st"
  shows "loop_inv st'"
proof -
  from assms(2,3) obtain ch where ch: "chan_store st p = Some ch"
    and st': "st' = st\<lparr>chan_store := (chan_store st)(p := None)\<rparr>"
    and no: "channels st (ch_fd ch) \<noteq> Some p"
    by (cases "chan_store st p")
      (auto simp: delete_Channel_def EventLoop_hasChannel_def Poller_hasChannel_def res_iffs
        assertInLoopThread_eq_Inr)
  note I = poller_invD [of st]
  have inv: "poller_inv st" and k: "epoll_contract (epoll_ctl_fails st)"
    using assms(1) by (auto simp: loop_inv_def)
  have notin: "channels st fd \<noteq> Some p" for fd using I(3) [OF inv, of fd p] ch no by auto
  have "poller_inv st'"
  proof (rule poller_invI)
    fix fd show "epoll_set st' fd = registered st' fd"
      using I(4) [OF inv] notin by (auto simp: st' registered_def split: option.split)
  next
    fix q c assume "chan_store st' q = Some c"
    then show "chan_inv st' q c" using I(2) [OF inv, of q c]
      by (auto simp: st' chan_inv_def split: if_splits)
  next
    fix fd q assume "channels st' fd = Some q"
    then show "\<exists>c. chan_store st' q = Some c \<and> ch_fd c = fd"
      using I(3) [OF inv, of fd q] notin by (auto simp: st')
  qed (use I(1) [OF inv] st' in simp)
  then show ?thesis using k by (simp add: loop_inv_def st')
qed

lemma new_Channel_inv:
  assumes "loop_inv st" and "new_Channel st p ch = Inr st'"
    and fresh: "ch_index ch = kNew" "ch_events ch = kNoneEvent"
  shows "loop_inv st'"
proof -
  have inv: "poller_inv st" using assms(1) by (simp add: loop_inv_def)
  note I = poller_invD [OF inv]
  from assms(2) have p: "chan_store st p = None" and st': "st' = chan_put st p ch"
    by (auto simp: new_Channel_def requireR_eq_Inr)
  have notin: "channels st fd \<noteq> Some p" for fd using I(3) [of fd p] p by auto
  have "poller_inv st'"
  proof (rule poller_invI)
    fix fd show "epoll_set st' fd = registered st' fd"
      using I(4) notin by (auto simp: st' registered_def split: option.split)
  next
    fix q c assume "chan_store st' q = Some c"
    then show "chan_inv st' q c" using I(2) [of q c] notin fresh
      by (auto simp: st' chan_inv_def split: if_splits)
  next
    fix fd q assume "channels st' fd = Some q"
    then show "\<exists>c. chan_store st' q = Some c \<and> ch_fd c = fd"
      using I(3) [of fd q] notin by (auto simp: st')
  qed (use I(1) st' in simp)
  then show ?thesis using assms(1) by (simp add: loop_inv_def st')
qed

lemma poll_inv:
  assumes "loop_inv st" and "wait_contract st evs"
    and "EPollPoller_poll st (WaitOk evs) act = Inr (st', act')"
  shows "loop_inv st'"
  using poll_eq [of st evs act] assms poller_inv_revents [of st] poller_invD(1) [of st]
  by (auto simp: loop_inv_def)

lemma wakeup_inv [simp]: "loop_inv (wakeup st) = loop_inv st"
  by (simp add: wakeup_def loop_inv_def)

lemma queueInLoop_inv [simp]: "loop_inv (queueInLoop f st) = loop_inv st"
  by (simp add: queueInLoop_def Let_def) (simp add: loop_inv_def)

text \<open>The loop as the library drives it: channels made, changed, removed, deleted and polled.\<close>

inductive loop_step :: "EventLoop \<Rightarrow> EventLoop \<Rightarrow> bool" where
  ls_new: "new_Channel st p (Channel_new (loop_id st) fd) = Inr st' \<Longrightarrow> loop_step st st'"
| ls_enableReading: "Channel_enableReading st p = Inr st' \<Longrightarrow> loop_step st st'"
| ls_disableReading: "Channel_disableReading st p = Inr st' \<Longrightarrow> loop_step st st'"
| ls_enableWriting: "Channel_enableWriting st p = Inr st' \<Longrightarrow> loop_step st st'"
| ls_disableWriting: "Channel_disableWriting st p = Inr st' \<Longrightarrow> loop_step st st'"
| ls_disableAll: "Channel_disableAll st p = Inr st' \<Longrightarrow> loop_step st st'"
| ls_remove: "Channel_remove st p = Inr st' \<Longrightarrow> loop_step st st'"
| ls_delete: "isInLoopThread st \<Longrightarrow> delete_Channel st p = Inr st' \<Longrightarrow> loop_step st st'"
| ls_poll: "wait_contract st evs \<Longrightarrow> EPollPoller_poll st (WaitOk evs) [] = Inr (st', act) \<Longrightarrow>
    loop_step st (st'\<lparr>activeChannels := act\<rparr>)"
| ls_queue: "loop_step st (queueInLoop f st)"
| ls_woken: "loop_step st (EventLoop_handleRead st)"
| ls_thread: "loop_step st (st\<lparr>this_thread := t\<rparr>)"

lemma loop_step_inv:
  assumes "loop_inv st" and "loop_step st st'"
  shows "loop_inv st'"
  using assms(2,1)
proof cases
  case (ls_new p fd)
  show ?thesis
    by (rule new_Channel_inv [OF assms(1) ls_new]) (simp_all add: Channel_new_def kNew_def kNoneEvent_def)
next
  case (ls_poll evs st1 act)
  then show ?thesis using poll_inv [OF assms(1) ls_poll(2,3)] by (simp add: loop_inv_def)
next
  case (ls_delete p)
  then show ?thesis using delete_Channel_inv [OF assms(1)] by blast
next
  case (ls_queue f)
  then show ?thesis using assms(1) by simp
next
  case (ls_remove p)
  then show ?thesis using Channel_remove_inv [OF assms(1)] by blast
qed (use assms(1) change_events_inv [OF assms(1)] in \<open>auto simp: Channel_enableReading_def
      Channel_disableReading_def Channel_enableWriting_def Channel_disableWriting_def
      Channel_disableAll_def EventLoop_handleRead_def loop_inv_def\<close>)

section \<open>A new loop\<close>

definition loop_start :: "EventLoop \<Rightarrow> bool" where
  "loop_start st \<longleftrightarrow> (\<exists>use_poll l t fails efd tp tfd wp wfd other now. epoll_contract fails \<and>
     EventLoop_new use_poll l t fails efd tp tfd wp wfd other now = Inr st)"

lemma empty_loop_inv:
  assumes "EPollPoller_new l t fails efd = Inr pl" and "epoll_contract fails"
  shows "loop_inv (Poller.extend pl x :: EventLoop)"
  using assms
  by (auto simp: EPollPoller_new_def loop_inv_def poller_inv_def Poller.defs kInitEventListSize_def
      registered_def split: if_splits)

lemma TimerQueue_ctor_inv:
  assumes "loop_inv st" and "TimerQueue_ctor tp tfd st = Inr st'"
  shows "loop_inv st'"
proof -
  from assms(2) obtain st1 where st1: "new_Channel st tp (Channel_new_read (loop_id st) tfd) = Inr st1"
    "Channel_enableReading (st1\<lparr>timerQueue := TimerQueue_new, timerfdChannel := tp\<rparr>) tp = Inr st'"
    by (auto simp: TimerQueue_ctor_def bindR_eq_Inr split: if_splits)
  have "loop_inv st1"
    by (rule new_Channel_inv [OF assms(1) st1(1)])
      (simp_all add: Channel_new_read_def Channel_setReadCallback_def Channel_new_def kNew_def kNoneEvent_def)
  then have "loop_inv (st1\<lparr>timerQueue := TimerQueue_new, timerfdChannel := tp\<rparr>)"
    by (simp add: loop_inv_def)
  then show ?thesis using change_events_inv st1(2) by (simp add: Channel_enableReading_def)
qed

lemma EventLoop_new_parts:
  assumes "EventLoop_new use_poll l t fails efd tp tfd wp wfd other now = Inr st"
  obtains pl st1 st2 ch where "\<not> use_poll" "EPollPoller_new l t fails efd = Inr pl"
    "TimerQueue_ctor tp tfd (Poller.extend pl (EventLoop.fields False False False False
       Timestamp_invalid TimerQueue_new tp wp 0 [] [] now)) = Inr st1"
    "new_Channel st1 wp (Channel_new l wfd) = Inr st2" "chan_deref st2 wp = Inr ch"
    "Channel_enableReading (chan_put st2 wp (Channel_setReadCallback ch)) wp = Inr st"
  using assms by (auto simp: EventLoop_new_def newDefaultPoller_def bindR_eq_Inr split: if_splits)

text \<open>Under \<open>MUDUO_USE_POLL\<close> no loop can be constructed.\<close>

lemma use_poll_faults:
  assumes "0 \<le> tfd"
  shows "EventLoop_new True l t fails efd tp tfd wp wfd other now = Inl (BadAccess ''poller_'')"
  using assms by (simp add: EventLoop_new_def newDefaultPoller_def)

lemma EventLoop_new_inv:
  assumes "epoll_contract fails" and "EventLoop_new use_poll l t fails efd tp tfd wp wfd other now = Inr st"
  shows "loop_inv st"
proof -
  obtain pl st1 st2 ch where *: "EPollPoller_new l t fails efd = Inr pl"
    "TimerQueue_ctor tp tfd (Poller.extend pl (EventLoop.fields False False False False
       Timestamp_invalid TimerQueue_new tp wp 0 [] [] now)) = Inr st1"
    "new_Channel st1 wp (Channel_new l wfd) = Inr st2" "chan_deref st2 wp = Inr ch"
    "Channel_enableReading (chan_put st2 wp (Channel_setReadCallback ch)) wp = Inr st"
    using EventLoop_new_parts [OF assms(2)] .
  have "loop_inv st1" by (rule TimerQueue_ctor_inv [OF empty_loop_inv [OF *(1) assms(1)] *(2)])
  then have 2: "loop_inv st2"
    by (rule new_Channel_inv [OF _ *(3)]) (simp_all add: Channel_new_def kNew_def kNoneEvent_def)
  have "chan_store st2 wp = Some ch" using *(4) by (simp add: chan_deref_def split: option.splits)
  then have "poller_inv (chan_put st2 wp (Channel_setReadCallback ch))"
    using 2 by (intro chan_put_inv [where ch = ch]) (simp_all add: loop_inv_def Channel_setReadCallback_def)
  with 2 have "loop_inv (chan_put st2 wp (Channel_setReadCallback ch))" by (simp add: loop_inv_def)
  then show ?thesis using change_events_inv *(5) by (simp add: Channel_enableReading_def)
qed

interpretation el: invariant_system loop_start loop_step loop_inv
  by unfold_locales (auto simp: loop_start_def EventLoop_new_inv intro: loop_step_inv)

text \<open>The two views of the registration agree.\<close>

definition interest_in_sync :: "'z Poller_scheme \<Rightarrow> bool" where
  "interest_in_sync st \<longleftrightarrow>
     (\<forall>p ch. chan_store st p = Some ch \<longrightarrow> ch_events ch \<noteq> kNoneEvent \<longrightarrow>
        epoll_set st (ch_fd ch) = Some (ch_events ch, p)) \<and>
     (\<forall>fd ev p. epoll_set st fd = Some (ev, p) \<longrightarrow>
        (\<exists>ch. chan_store st p = Some ch \<and> ch_fd ch = fd \<and> ch_events ch = ev \<and> channels st fd = Some p))"

lemma loop_inv_sync:
  assumes "loop_inv st"
  shows "interest_in_sync st"
proof -
  have inv: "poller_inv st" using assms by (simp add: loop_inv_def)
  note I = poller_invD [OF inv]
  have "epoll_set st (ch_fd ch) = Some (ch_events ch, p)"
    if "chan_store st p = Some ch" "ch_events ch \<noteq> kNoneEvent" for p ch
    using I(2) [OF that(1)] I(4) that by (auto simp: chan_inv_def registered_def index_defs)
  moreover have "\<exists>ch. chan_store st p = Some ch \<and> ch_fd ch = fd \<and> ch_events ch = ev \<and> channels st fd = Some p"
    if "epoll_set st fd = Some (ev, p)" for fd ev p
    using that I(3) [of fd p] I(4)
    by (fastforce simp: registered_def split: option.splits if_splits)
  ultimately show ?thesis by (auto simp: interest_in_sync_def)
qed

lemmas loop_eval = EventLoop_new_def newDefaultPoller_def EPollPoller_new_def TimerQueue_ctor_def new_Channel_def
  Channel_enableReading_def Channel_disableAll_def change_events_def Channel_update_def
  EventLoop_updateChannel_def EPollPoller_updateChannel_def EPollPoller_update_def Let_def
  assertR_def assertInLoopThread_def isInLoopThread_def chan_deref_def chan_put_def
  Channel_new_read_def Channel_new_def Channel_setReadCallback_def index_defs set_index_def
  Poller.defs EventLoop.defs

lemma demo_loop_exists: "\<exists>st. EventLoop_new False 1 7 linux_epoll_fails 3 10 4 11 5 False (Timestamp 0) = Inr st"
  by (rule not_isl_Inr) (simp add: loop_eval linux_epoll_fails_def)

text \<open>C7. Whatever sequence of channel operations the library makes on a loop, the kernel's
  interest list is exactly what the channels ask for: a channel with a non-empty mask is registered
  under its descriptor with that mask and its own address, and every registration belongs to a
  live channel with that mask.\<close>

theorem epoll_interest_in_sync:
  assumes "reachable loop_start loop_step st"
  shows "interest_in_sync st"
  using el.reachable_inv [OF assms] by (rule loop_inv_sync)

theorem epoll_interest_in_sync_witness:
  "\<exists>st. loop_start st \<and> reachable loop_start loop_step st \<and> interest_in_sync st"
proof -
  obtain st where st: "EventLoop_new False 1 7 linux_epoll_fails 3 10 4 11 5 False (Timestamp 0) = Inr st"
    using demo_loop_exists by blast
  then have "loop_start st" using linux_epoll_contract unfolding loop_start_def by blast
  then have r: "reachable loop_start loop_step st" by (rule reach_start)
  from \<open>loop_start st\<close> r epoll_interest_in_sync [OF r] show ?thesis by blast
qed

text \<open>C24. Constructing a loop on distinct descriptors succeeds and registers exactly the timer
  descriptor and the wake-up descriptor for reading; destroying it in its own thread succeeds,
  passes every assertion of the destructors and leaves no channel and no registration.\<close>

theorem loop_lifecycle:
  assumes "epoll_contract fails" and "0 \<le> efd" and "0 \<le> tfd" and "0 \<le> wfd" and "tfd \<noteq> wfd"
    and "tp \<noteq> wp"
  shows "\<exists>st st'. EventLoop_new False l t fails efd tp tfd wp wfd False now = Inr st \<and>
    epoll_set st = [tfd \<mapsto> (kReadEvent, tp), wfd \<mapsto> (kReadEvent, wp)] \<and>
    EventLoop_delete st = Inr st' \<and> epoll_set st' = Map.empty \<and> channels st' = Map.empty \<and>
    chan_store st' = Map.empty"
  using assms epoll_contractD [OF assms(1)]
  by (simp add: loop_eval EventLoop_delete_def TimerQueue_dtor_def Channel_remove_def
      EventLoop_removeChannel_def EPollPoller_removeChannel_def delete_Channel_def
      EventLoop_hasChannel_def Poller_hasChannel_def isNoneEvent_def TimerQueue_destroy_def
      TimerQueue_new_def mask_enableReading_def kReadEvent_def poll_flags kNoneEvent_def)

theorem loop_lifecycle_witness:
  "\<exists>st st'. EventLoop_new False 1 7 linux_epoll_fails 3 10 4 11 5 False (Timestamp 0) = Inr st \<and>
    epoll_set st = [4 \<mapsto> (kReadEvent, 10), 5 \<mapsto> (kReadEvent, 11)] \<and>
    EventLoop_delete st = Inr st' \<and> epoll_set st' = Map.empty \<and> channels st' = Map.empty \<and>
    chan_store st' = Map.empty"
  by (rule loop_lifecycle) (simp_all add: linux_epoll_contract)

section \<open>Timers\<close>

text \<open>In the loop's thread a timer with a fresh address is entered at once.\<close>

lemma addTimer_in_loop:
  fixes st :: "'z EventLoop_scheme"
  assumes "tq_rest (timerQueue st)" and "isInLoopThread st" and "timer_heap (timerQueue st) tp = None"
    and "0 < tp" and "tp < UINTPTR_MAX"
  shows "\<exists>tid q. EventLoop_addTimer tp cb w iv st = Inr (tid, st\<lparr>timerQueue := q\<rparr>) \<and> tq_rest q \<and>
    set (timers q) = insert (w, tp) (set (timers (timerQueue st))) \<and>
    timer_heap q = (timer_heap (timerQueue st))(tp \<mapsto> Timer_new cb w iv (s_numCreated (timerQueue st) + 1))"
proof -
  let ?q = "timerQueue st"
  have inv: "tq_inv [] ?q" "tq_armed ?q" "\<not> callingExpiredTimers ?q" using assms(1) by (auto simp: tq_rest_def)
  have "new_Timer ?q tp cb w iv \<noteq> Inl (Thrown ''std::bad_alloc'')"
    using assms(3-5) by (simp add: new_Timer_def Let_def)
  then obtain tid q1 where q1: "new_Timer ?q tp cb w iv = Inr (tid, q1)" "tq_inv [(w, tp)] q1"
    "timers q1 = timers ?q" "tq_armed q1"
    "timer_heap q1 = (timer_heap ?q)(tp \<mapsto> Timer_new cb w iv (s_numCreated ?q + 1))"
    "callingExpiredTimers q1 = callingExpiredTimers ?q"
    using new_Timer_spec [OF inv(1), of tp cb w iv] inv(2) by auto
  obtain q2 where q2: "addTimerInLoop q1 tp (clock st) = Inr q2" "tq_inv [] q2" "tq_armed q2"
    "set (timers q2) = insert (w, tp) (set (timers q1))" "timer_heap q2 = timer_heap q1"
    "callingExpiredTimers q2 = callingExpiredTimers q1"
    using addTimerInLoop_spec [OF q1(2), of "clock st"] q1(4) by auto
  have "EventLoop_addTimer tp cb w iv st = Inr (tid, st\<lparr>timerQueue := q2\<rparr>)"
    using q1(1) q2(1) assms(2) by (simp add: EventLoop_addTimer_def runInLoop_def isInLoopThread_def)
  then show ?thesis using q1 q2 inv(3) by (auto simp: tq_rest_def)
qed

section \<open>Polling\<close>

text \<open>In every reachable state, when \<open>epoll_wait\<close> returns what it documents, \<open>poll\<close> passes
  its assertions, returns the reported channels in the kernel's order, stores in each of them the
  events reported for it, and doubles the event array exactly when it was full.\<close>

theorem poll_reports_active_channels:
  assumes "reachable loop_start loop_step st" and "wait_contract st evs"
  shows "\<exists>st'. EPollPoller_poll st (WaitOk evs) [] = Inr (st', map fst evs) \<and>
    list_all (\<lambda>(p, ev). \<exists>ch. chan_store st' p = Some ch \<and> ch_revents ch = ev) evs \<and>
    events_size st' = (if length evs = events_size st then 2 * events_size st else events_size st) \<and>
    epoll_set st' = epoll_set st \<and> channels st' = channels st"
proof -
  have inv: "poller_inv st" using el.reachable_inv [OF assms(1)] by (simp add: loop_inv_def)
  have "\<exists>ch. with_revents evs (chan_store st) p = Some ch \<and> ch_revents ch = ev" if "(p, ev) \<in> set evs" for p ev
  proof -
    from assms(2) that obtain fd x where "epoll_set st fd = Some (x, p)"
      by (auto simp: wait_contract_def list_all_iff)
    then obtain ch where "chan_store st p = Some ch" using fill_ok [OF inv] by metis
    moreover have "map_of evs p = Some ev"
      using assms(2) that by (auto simp: wait_contract_def intro: map_of_is_SomeI)
    ultimately show ?thesis by (simp add: with_revents_def)
  qed
  then show ?thesis using poll_eq [OF inv assms(2), of "[]"] by (auto simp: list_all_iff)
qed

theorem poll_reports_active_channels_witness:
  "\<exists>st st'. reachable loop_start loop_step st \<and> EPollPoller_poll st (WaitOk [(11, 1)]) [] = Inr (st', [11]) \<and>
    (\<exists>ch. chan_store st' 11 = Some ch \<and> ch_revents ch = 1)"
proof -
  obtain st where st: "EventLoop_new False 1 7 linux_epoll_fails 3 10 4 11 5 False (Timestamp 0) = Inr st"
    using demo_loop_exists by blast
  then have "loop_start st" using linux_epoll_contract unfolding loop_start_def by blast
  then have r: "reachable loop_start loop_step st" by (rule reach_start)
  have "epoll_set st 5 = Some (3, 11)" "events_size st = 16"
    using st by (auto simp: loop_eval linux_epoll_fails_def mask_enableReading_def kReadEvent_def
        poll_flags kInitEventListSize_def)
  then have "wait_contract st [(11, 1)]" by (auto simp: wait_contract_def)
  from r poll_reports_active_channels [OF r this] show ?thesis by auto
qed

section \<open>Pending functors\<close>

text \<open>
  User functors whose work is known: each logs itself, then queues the functors of its script on
  the loop it runs in.
\<close>

record scripted = EventLoop +
  run_log :: "Functor list"

definition exec_script :: "(Functor \<Rightarrow> Functor list) \<Rightarrow> Functor \<Rightarrow> scripted \<Rightarrow> scripted res" where
  "exec_script script f st =
     Inr (fold queueInLoop (script f) (st\<lparr>run_log := run_log st @ [f]\<rparr>))"

lemma queueInLoop_simps [simp]:
  "pendingFunctors (queueInLoop f st) = pendingFunctors st @ [f]"
  "isInLoopThread (queueInLoop f st) = isInLoopThread st"
  "callingPendingFunctors (queueInLoop f st) = callingPendingFunctors st"
  by (simp_all add: queueInLoop_def wakeup_def Let_def isInLoopThread_def)

lemma queueInLoop_run_log [simp]: "run_log (queueInLoop f st) = run_log st"
  by (simp add: queueInLoop_def wakeup_def Let_def)

lemma queueInLoop_wakes:
  "callingPendingFunctors st \<or> \<not> isInLoopThread st \<Longrightarrow> 0 < wakeup_counter (queueInLoop f st)"
  "wakeup_counter st \<le> wakeup_counter (queueInLoop f st)"
  by (auto simp: queueInLoop_def wakeup_def Let_def isInLoopThread_def)

lemma fold_queueInLoop:
  "pendingFunctors (fold queueInLoop fs st) = pendingFunctors st @ fs \<and>
   callingPendingFunctors (fold queueInLoop fs st) = callingPendingFunctors st \<and>
   run_log (fold queueInLoop fs st) = run_log st \<and>
   wakeup_counter st \<le> wakeup_counter (fold queueInLoop fs st) \<and>
   (callingPendingFunctors st \<longrightarrow> fs \<noteq> [] \<longrightarrow> 0 < wakeup_counter (fold queueInLoop fs st))"
proof (induction fs arbitrary: st)
  case Nil
  then show ?case by simp
next
  case (Cons f fs)
  have "0 < wakeup_counter (queueInLoop f st)" if "callingPendingFunctors st"
    using queueInLoop_wakes(1) that by blast
  with Cons [of "queueInLoop f st"] queueInLoop_wakes(2) [of st f] show ?case
    by (auto intro: order_trans less_le_trans)
qed

lemma run_functors:
  assumes "callingPendingFunctors st" and "pendingFunctors st \<noteq> [] \<longrightarrow> 0 < wakeup_counter st"
  shows "\<exists>st'. foldR (exec_script script) fs st = Inr st' \<and> run_log st' = run_log st @ fs \<and>
    pendingFunctors st' = pendingFunctors st @ concat (map script fs) \<and> callingPendingFunctors st' \<and>
    (pendingFunctors st' \<noteq> [] \<longrightarrow> 0 < wakeup_counter st')"
  using assms
proof (induction fs arbitrary: st)
  case Nil
  then show ?case by simp
next
  case (Cons f fs)
  let ?st = "fold queueInLoop (script f) (st\<lparr>run_log := run_log st @ [f]\<rparr>)"
  note F = fold_queueInLoop [of "script f" "st\<lparr>run_log := run_log st @ [f]\<rparr>"]
  have "callingPendingFunctors ?st" using F Cons.prems by simp
  moreover have "pendingFunctors ?st \<noteq> [] \<longrightarrow> 0 < wakeup_counter ?st"
    using F Cons.prems by (cases "script f = []") auto
  ultimately show ?case using Cons.IH [of ?st] F by (auto simp: exec_script_def)
qed

text \<open>\<open>doPendingFunctors\<close> runs exactly the functors that were pending when it started, each
  once and in the order they were queued; the functors they queue are not run but kept, in order,
  and then the wake-up counter is positive, so the next poll returns at once.\<close>

theorem doPendingFunctors_fifo:
  "\<exists>st'. doPendingFunctors (exec_script script) st = Inr st' \<and>
    run_log st' = run_log st @ pendingFunctors st \<and>
    pendingFunctors st' = concat (map script (pendingFunctors st)) \<and>
    \<not> callingPendingFunctors st' \<and>
    (pendingFunctors st' \<noteq> [] \<longrightarrow> 0 < wakeup_counter st')"
proof -
  let ?st = "st\<lparr>callingPendingFunctors := True, pendingFunctors := []\<rparr>"
  have "callingPendingFunctors ?st" "pendingFunctors ?st \<noteq> [] \<longrightarrow> 0 < wakeup_counter ?st" by simp_all
  from run_functors [OF this, of script "pendingFunctors st"] show ?thesis
    by (auto simp: doPendingFunctors_def Let_def)
qed

theorem doPendingFunctors_fifo_witness:
  "\<exists>st st'. pendingFunctors (st::scripted) = [F_user 1, F_user 2] \<and>
    doPendingFunctors (exec_script (\<lambda>f. if f = F_user 1 then [F_user 3] else [])) st = Inr st' \<and>
    run_log st' = run_log st @ [F_user 1, F_user 2] \<and> pendingFunctors st' = [F_user 3] \<and>
    0 < wakeup_counter st'"
proof -
  define st :: scripted where "st = undefined\<lparr>pendingFunctors := [F_user 1, F_user 2]\<rparr>"
  have "pendingFunctors st = [F_user 1, F_user 2]" by (simp add: st_def)
  moreover obtain st' where
    "doPendingFunctors (exec_script (\<lambda>f. if f = F_user 1 then [F_user 3] else [])) st = Inr st'"
    "run_log st' = run_log st @ pendingFunctors st"
    "pendingFunctors st' = concat (map (\<lambda>f. if f = F_user 1 then [F_user 3] else []) (pendingFunctors st))"
    "pendingFunctors st' \<noteq> [] \<longrightarrow> 0 < wakeup_counter st'"
    using doPendingFunctors_fifo [of "\<lambda>f. if f = F_user 1 then [F_user 3] else []" st] by blast
  ultimately show ?thesis by (intro exI [of _ st] exI [of _ st']) simp
qed

end
