(* ===== verification/Wakeup.thy ===== *)
theory Wakeup
  imports EventLoop
begin

text \<open>
  \<open>queueInLoop\<close>, \<open>wakeup\<close>, \<open>quit\<close>, \<open>loop\<close>, \<open>handleRead\<close> and \<open>doPendingFunctors\<close> of
  \<open>src/net/EventLoop.cc\<close> under interleaving. Every access to shared data is one step: the append
  under the mutex, the write to the \<open>eventfd\<close>, the store to \<open>quit_\<close>, the test of \<open>quit_\<close>, the
  poll, the read of the \<open>eventfd\<close>, the store to \<open>callingPendingFunctors_\<close>, the swap, each functor
  and the appends it makes. Any number of threads post functors or ask the loop to quit.

  The fields added to the loop's record are the program counter of the loop thread, the threads
  that have appended (or set \<open>quit_\<close>) but not yet written to the \<open>eventfd\<close>, and two histories:
  the functors in the order they were appended and in the order they were run.
\<close>

section \<open>Steps\<close>

datatype loop_pc =
    AtTest                        \<comment> \<open>about to test \<open>quit_\<close>\<close>
  | AtPoll                        \<comment> \<open>in \<open>epoll_wait\<close>\<close>
  | AtEvents bool                 \<comment> \<open>handling events; the flag says the \<open>eventfd\<close> is still to be read\<close>
  | AtCalling                     \<comment> \<open>about to set \<open>callingPendingFunctors_\<close>\<close>
  | AtSwap                        \<comment> \<open>about to swap the queue\<close>
  | AtRun "Functor list"          \<comment> \<open>running the local functors\<close>
  | AtWake "Functor list"         \<comment> \<open>inside \<open>queueInLoop\<close> of a running functor, before \<open>wakeup\<close>\<close>
  | Stopped

record threaded = EventLoop +
  pc :: loop_pc
  posting :: "nat set"
  pushed :: "Functor list"
  executed :: "Functor list"

definition push_functor :: "Functor \<Rightarrow> threaded \<Rightarrow> threaded" where
  "push_functor f st =
     st\<lparr>pendingFunctors := pendingFunctors st @ [f], pushed := pushed st @ [f]\<rparr>"

inductive thread_step :: "threaded \<Rightarrow> threaded \<Rightarrow> bool" where
  other_push: "i \<notin> posting st \<Longrightarrow> thread_step st ((push_functor f st)\<lparr>posting := insert i (posting st)\<rparr>)"
| other_quit: "i \<notin> posting st \<Longrightarrow> thread_step st (st\<lparr>quit := True, posting := insert i (posting st)\<rparr>)"
| other_wakeup: "i \<in> posting st \<Longrightarrow> thread_step st ((wakeup st)\<lparr>posting := posting st - {i}\<rparr>)"
| test_quit: "pc st = AtTest \<Longrightarrow> quit st \<Longrightarrow> thread_step st (st\<lparr>looping := False, pc := Stopped\<rparr>)"
| test_go: "pc st = AtTest \<Longrightarrow> \<not> quit st \<Longrightarrow> thread_step st (st\<lparr>pc := AtPoll\<rparr>)"
| poll_woken: "pc st = AtPoll \<Longrightarrow> 0 < wakeup_counter st \<Longrightarrow> thread_step st (st\<lparr>pc := AtEvents True\<rparr>)"
| poll_other: "pc st = AtPoll \<Longrightarrow> thread_step st (st\<lparr>pc := AtEvents False\<rparr>)"
| event_read: "pc st = AtEvents True \<Longrightarrow>
    thread_step st ((EventLoop_handleRead st)\<lparr>pc := AtEvents False\<rparr>)"
| event_push: "pc st = AtEvents b \<Longrightarrow> thread_step st (push_functor f st)"
| event_quit: "pc st = AtEvents b \<Longrightarrow> thread_step st (st\<lparr>quit := True\<rparr>)"
| event_done: "pc st = AtEvents False \<Longrightarrow> thread_step st (st\<lparr>pc := AtCalling\<rparr>)"
| set_calling: "pc st = AtCalling \<Longrightarrow>
    thread_step st (st\<lparr>callingPendingFunctors := True, pc := AtSwap\<rparr>)"
| swap_queue: "pc st = AtSwap \<Longrightarrow>
    thread_step st (st\<lparr>pendingFunctors := [], pc := AtRun (pendingFunctors st)\<rparr>)"
| run_one: "pc st = AtRun (f # fs) \<Longrightarrow>
    thread_step st (st\<lparr>pc := AtRun fs, executed := executed st @ [f]\<rparr>)"
| run_push: "pc st = AtRun fs \<Longrightarrow> callingPendingFunctors st \<Longrightarrow>
    thread_step st ((push_functor f st)\<lparr>pc := AtWake fs\<rparr>)"
| run_push_quiet: "pc st = AtRun fs \<Longrightarrow> \<not> callingPendingFunctors st \<Longrightarrow>
    thread_step st (push_functor f st)"
| run_wake: "pc st = AtWake fs \<Longrightarrow> thread_step st ((wakeup st)\<lparr>pc := AtRun fs\<rparr>)"
| run_quit: "pc st = AtRun fs \<Longrightarrow> thread_step st (st\<lparr>quit := True\<rparr>)"
| run_done: "pc st = AtRun [] \<Longrightarrow>
    thread_step st (st\<lparr>callingPendingFunctors := False, pc := AtTest\<rparr>)"

inductive_cases thread_stepE: "thread_step st st'"

text \<open>\<open>loop()\<close> is entered with an empty queue and nobody posting.\<close>

definition threaded_start :: "threaded \<Rightarrow> bool" where
  "threaded_start st \<longleftrightarrow> pc st = AtTest \<and> pendingFunctors st = [] \<and> \<not> callingPendingFunctors st \<and>
     posting st = {} \<and> pushed st = [] \<and> executed st = []"

section \<open>Invariant\<close>

text \<open>The functors the loop thread holds after the swap.\<close>

fun held :: "loop_pc \<Rightarrow> Functor list" where
  "held (AtRun fs) = fs"
| "held (AtWake fs) = fs"
| "held _ = []"

text \<open>The loop thread will look at the queue before it sleeps again.\<close>

fun before_swap :: "loop_pc \<Rightarrow> bool" where
  "before_swap (AtEvents _) = True"
| "before_swap AtCalling = True"
| "before_swap AtSwap = True"
| "before_swap (AtWake _) = True"
| "before_swap _ = False"

definition woken :: "threaded \<Rightarrow> bool" where
  "woken st \<longleftrightarrow> 0 < wakeup_counter st \<or> posting st \<noteq> {}"

definition thread_inv :: "threaded \<Rightarrow> bool" where
  "thread_inv st \<longleftrightarrow>
     executed st @ held (pc st) @ pendingFunctors st = pushed st \<and>
     (pendingFunctors st \<noteq> [] \<longrightarrow> pc st \<noteq> Stopped \<longrightarrow> before_swap (pc st) \<or> woken st) \<and>
     (quit st \<longrightarrow> pc st = AtPoll \<longrightarrow> woken st) \<and>
     (callingPendingFunctors st \<longleftrightarrow> pc st = AtSwap \<or> (\<exists>fs. pc st = AtRun fs \<or> pc st = AtWake fs)) \<and>
     (pc st = AtEvents True \<longrightarrow> 0 < wakeup_counter st)"

lemma wakeup_simps [simp]:
  fixes st :: threaded
  shows "pc (wakeup st) = pc st" "pendingFunctors (wakeup st) = pendingFunctors st"
    "pushed (wakeup st) = pushed st" "executed (wakeup st) = executed st" "quit (wakeup st) = quit st"
    "callingPendingFunctors (wakeup st) = callingPendingFunctors st" "posting (wakeup st) = posting st"
    "0 < wakeup_counter (wakeup st)"
  by (simp_all add: wakeup_def)

lemma thread_inv_start: "threaded_start st \<Longrightarrow> thread_inv st"
  by (simp add: threaded_start_def thread_inv_def)

lemma thread_inv_step:
  assumes "thread_inv st" and "thread_step st st'"
  shows "thread_inv st'"
  using assms(2,1)
  by (cases rule: thread_step.cases)
    (auto simp: thread_inv_def woken_def push_functor_def EventLoop_handleRead_def)

interpretation wk: invariant_system threaded_start thread_step thread_inv
  by unfold_locales (auto intro: thread_inv_start thread_inv_step)

text \<open>The steps of one call, taken without interruption, are the call.\<close>

lemma queueInLoop_steps:
  assumes "\<not> isInLoopThread st \<or> callingPendingFunctors st"
  shows "(queueInLoop f st)\<lparr>pushed := pushed st @ [f]\<rparr> = wakeup (push_functor f st)"
  using assms
  by (auto simp: queueInLoop_def push_functor_def wakeup_def Let_def isInLoopThread_def)

lemma queueInLoop_step_quiet:
  assumes "isInLoopThread st" and "\<not> callingPendingFunctors st"
  shows "(queueInLoop f st)\<lparr>pushed := pushed st @ [f]\<rparr> = push_functor f st"
  using assms by (auto simp: queueInLoop_def push_functor_def Let_def isInLoopThread_def)

section \<open>The loop thread alone\<close>

text \<open>What the loop thread does next when no other thread runs, the functors and the events it runs post nothing, and
  \<open>epoll_wait\<close> reports the \<open>eventfd\<close> only: there is no next step while it sleeps, with the \<open>eventfd\<close> not
  readable, and when the loop has ended.\<close>

definition loop_next :: "threaded \<Rightarrow> threaded option" where
  "loop_next st =
     (case pc st of
        AtTest \<Rightarrow> Some (if quit st then st\<lparr>looping := False, pc := Stopped\<rparr> else st\<lparr>pc := AtPoll\<rparr>)
      | AtPoll \<Rightarrow> if 0 < wakeup_counter st then Some (st\<lparr>pc := AtEvents True\<rparr>) else None
      | AtEvents woke \<Rightarrow>
          Some (if woke then (EventLoop_handleRead st)\<lparr>pc := AtEvents False\<rparr> else st\<lparr>pc := AtCalling\<rparr>)
      | AtCalling \<Rightarrow> Some (st\<lparr>callingPendingFunctors := True, pc := AtSwap\<rparr>)
      | AtSwap \<Rightarrow> Some (st\<lparr>pendingFunctors := [], pc := AtRun (pendingFunctors st)\<rparr>)
      | AtRun fs \<Rightarrow>
          (case fs of
             f # fs' \<Rightarrow> Some (st\<lparr>pc := AtRun fs', executed := executed st @ [f]\<rparr>)
           | [] \<Rightarrow> Some (st\<lparr>callingPendingFunctors := False, pc := AtTest\<rparr>))
      | AtWake fs \<Rightarrow> Some ((wakeup st)\<lparr>pc := AtRun fs\<rparr>)
      | Stopped \<Rightarrow> None)"

primrec loop_run :: "nat \<Rightarrow> threaded \<Rightarrow> threaded option" where
  "loop_run 0 st = Some st"
| "loop_run (Suc n) st = (case loop_next st of None \<Rightarrow> None | Some st' \<Rightarrow> loop_run n st')"

lemma loop_next_step: "loop_next st = Some st' \<Longrightarrow> thread_step st st'"
  by (auto simp: loop_next_def intro: thread_step.intros split: loop_pc.splits list.splits if_splits)

lemma loop_run_steps: "loop_run n st = Some st' \<Longrightarrow> thread_step\<^sup>*\<^sup>* st st'"
  by (induction n arbitrary: st) (auto split: option.splits intro: loop_next_step converse_rtranclp_into_rtranclp)

lemma run_held:
  assumes "pc st = AtRun fs"
  shows "loop_run (Suc (length fs)) st =
    Some (st\<lparr>pc := AtTest, executed := executed st @ fs, callingPendingFunctors := False\<rparr>)"
  using assms
proof (induction fs arbitrary: st)
  case (Cons f fs)
  then have "loop_run (Suc (length (f # fs))) st = loop_run (Suc (length fs)) (st\<lparr>pc := AtRun fs, executed := executed st @ [f]\<rparr>)"
    by (simp add: loop_next_def del: loop_run.simps(2)) (simp add: loop_next_def)
  with Cons.IH [of "st\<lparr>pc := AtRun fs, executed := executed st @ [f]\<rparr>"] show ?case by simp
qed (simp add: loop_next_def)

text \<open>What had been posted by \<open>st\<close> is what the swap of the iteration takes, at the latest.\<close>

fun past_swap :: "loop_pc \<Rightarrow> bool" where
  "past_swap (AtRun _) = True"
| "past_swap (AtWake _) = True"
| "past_swap AtTest = True"
| "past_swap Stopped = True"
| "past_swap _ = False"

definition taken_since :: "Functor list \<Rightarrow> threaded \<Rightarrow> bool" where
  "taken_since fs st \<longleftrightarrow> thread_inv st \<and> (\<exists>zs. pushed st = fs @ zs) \<and>
     (past_swap (pc st) \<longrightarrow> (\<exists>zs. executed st @ held (pc st) = fs @ zs))"

lemma thread_step_pushed: "thread_step st st' \<Longrightarrow> \<exists>zs. pushed st' = pushed st @ zs"
  by (cases rule: thread_step.cases) (auto simp: push_functor_def EventLoop_handleRead_def)

lemma taken_since_step:
  assumes "taken_since fs st" and "thread_step st st'"
  shows "taken_since fs st'"
proof -
  have inv: "thread_inv st'" using assms thread_inv_step unfolding taken_since_def by blast
  obtain zs ys where zs: "pushed st = fs @ zs" "pushed st' = pushed st @ ys"
    using assms(1) thread_step_pushed [OF assms(2)] unfolding taken_since_def by blast
  have "\<exists>us. executed st' @ held (pc st') = fs @ us" if past: "past_swap (pc st')"
    using assms(2,1) past zs
    by (cases rule: thread_step.cases) (auto simp: taken_since_def thread_inv_def push_functor_def)
  with inv zs show ?thesis by (simp add: taken_since_def)
qed

lemma taken_since_steps: "thread_step\<^sup>*\<^sup>* st st' \<Longrightarrow> taken_since fs st \<Longrightarrow> taken_since fs st'"
  by (induction rule: rtranclp_induct) (auto intro: taken_since_step)

section \<open>Properties\<close>

text \<open>C1. No wake-up is lost. Under every interleaving of any number of posting threads with the
  loop thread, when the loop thread is in \<open>epoll_wait\<close> while a functor is pending or a quit has
  been requested, and no thread is still on its way to the \<open>eventfd\<close>, the \<open>eventfd\<close> is readable.\<close>

theorem no_lost_wakeup:
  assumes "reachable threaded_start thread_step st" and "pc st = AtPoll"
    and "pendingFunctors st \<noteq> [] \<or> quit st" and "posting st = {}"
  shows "0 < wakeup_counter st"
  using wk.reachable_inv [OF assms(1)] assms(2-4) by (auto simp: thread_inv_def woken_def)

text \<open>C16. Functors are neither lost, nor duplicated, nor reordered: under every interleaving the
  functors run so far, then those the loop thread holds, then those in the queue are the functors
  posted, in the order of their appends.\<close>

theorem functors_conserved:
  assumes "reachable threaded_start thread_step st"
  shows "executed st @ held (pc st) @ pendingFunctors st = pushed st"
  using wk.reachable_inv [OF assms] by (simp add: thread_inv_def)

text \<open>C25. Pending functors are run in the next iteration. When the loop thread is in \<open>epoll_wait\<close> with functors
  pending and no thread is still on its way to the \<open>eventfd\<close>, it does not go on sleeping: left alone, it gets in
  exactly six steps and one for each functor to the end of the iteration, with everything posted run and the queue
  empty. And in whatever way other threads and the functors themselves post in between, and for whatever other
  events \<open>epoll_wait\<close> returns, at the end of that iteration and of every later one everything posted by now has
  been run, in the order of the posts.\<close>

theorem loop_drains_queue:
  assumes "reachable threaded_start thread_step st" and "pc st = AtPoll"
    and "pendingFunctors st \<noteq> []" and "posting st = {}"
  shows "(\<exists>st'. loop_run (6 + length (pendingFunctors st)) st = Some st' \<and> thread_step\<^sup>*\<^sup>* st st' \<and>
      pc st' = AtTest \<and> executed st' = pushed st \<and> pendingFunctors st' = []) \<and>
    (\<forall>st'. thread_step\<^sup>*\<^sup>* st st' \<and> pc st' = AtTest \<longrightarrow> (\<exists>later. executed st' = pushed st @ later))"
proof -
  have inv: "thread_inv st" using wk.reachable_inv [OF assms(1)] .
  then have cnt: "0 < wakeup_counter st" and all: "executed st @ pendingFunctors st = pushed st"
    using assms(2-4) by (simp_all add: thread_inv_def woken_def)
  let ?e = "(EventLoop_handleRead (st\<lparr>pc := AtEvents True\<rparr>))\<lparr>callingPendingFunctors := True, pendingFunctors := [],
    pc := AtRun (pendingFunctors st)\<rparr>"
  let ?g = "?e\<lparr>pc := AtTest, executed := executed ?e @ pendingFunctors st, callingPendingFunctors := False\<rparr>"
  have "loop_run (6 + length (pendingFunctors st)) st = loop_run (Suc (length (pendingFunctors st))) ?e"
    using assms(2) cnt by (simp add: eval_nat_numeral loop_next_def EventLoop_handleRead_def)
  also have "\<dots> = Some ?g" by (rule run_held) simp
  finally have run: "loop_run (6 + length (pendingFunctors st)) st = Some ?g" .
  have "taken_since (pushed st) st" using inv assms(2) by (simp add: taken_since_def)
  then have "\<exists>later. executed st' = pushed st @ later" if "thread_step\<^sup>*\<^sup>* st st'" "pc st' = AtTest" for st'
    using taken_since_steps [OF that(1)] that(2) by (simp add: taken_since_def)
  moreover have "pc ?g = AtTest" "executed ?g = pushed st" "pendingFunctors ?g = []"
    using all by (simp_all add: EventLoop_handleRead_def)
  ultimately show ?thesis using run loop_run_steps [OF run] by blast
qed

text \<open>A posting thread has appended a functor and written while the loop thread sleeps.\<close>

lemma demo_threaded:
  "\<exists>st. reachable threaded_start thread_step st \<and> pc st = AtPoll \<and> pendingFunctors st = [F_user 1] \<and>
    posting st = {} \<and> pushed st = [F_user 1]"
proof -
  define s0 :: threaded where "s0 = undefined\<lparr>pc := AtTest, pendingFunctors := [],
    callingPendingFunctors := False, quit := False, posting := {}, pushed := [], executed := []\<rparr>"
  let ?s1 = "s0\<lparr>pc := AtPoll\<rparr>"
  let ?s2 = "(push_functor (F_user 1) ?s1)\<lparr>posting := insert 2 (posting ?s1)\<rparr>"
  let ?s3 = "(wakeup ?s2)\<lparr>posting := posting ?s2 - {2}\<rparr>"
  have "reachable threaded_start thread_step s0"
    by (rule reach_start) (simp add: s0_def threaded_start_def)
  moreover have "thread_step s0 ?s1" by (rule test_go) (simp_all add: s0_def)
  moreover have "thread_step ?s1 ?s2" by (rule other_push) (simp add: s0_def)
  moreover have "thread_step ?s2 ?s3" by (rule other_wakeup) simp
  ultimately have "reachable threaded_start thread_step ?s3" by (meson reach_step)
  then show ?thesis by (intro exI [of _ ?s3]) (simp add: s0_def push_functor_def)
qed

theorem no_lost_wakeup_witness:
  "\<exists>st. reachable threaded_start thread_step st \<and> pc st = AtPoll \<and> pendingFunctors st = [F_user 1] \<and>
    0 < wakeup_counter st"
proof -
  obtain st where st: "reachable threaded_start thread_step st" "pc st = AtPoll"
    "pendingFunctors st = [F_user 1]" "posting st = {}" using demo_threaded by blast
  then have "0 < wakeup_counter st" by (intro no_lost_wakeup) simp_all
  with st show ?thesis by blast
qed

theorem functors_conserved_witness:
  "\<exists>st. reachable threaded_start thread_step st \<and> executed st @ held (pc st) @ [F_user 1] = [F_user 1]"
proof -
  obtain st where st: "reachable threaded_start thread_step st" "pendingFunctors st = [F_user 1]"
    "pushed st = [F_user 1]" using demo_threaded by blast
  with functors_conserved [OF st(1)] show ?thesis by (intro exI [of _ st]) simp
qed

theorem loop_drains_queue_witness:
  "\<exists>st st'. pendingFunctors st = [F_user 1] \<and> loop_run 7 st = Some st' \<and> pc st' = AtTest \<and> executed st' = [F_user 1] \<and>
    pendingFunctors st' = []"
proof -
  obtain st where st: "reachable threaded_start thread_step st" "pc st = AtPoll"
    "pendingFunctors st = [F_user 1]" "posting st = {}" "pushed st = [F_user 1]"
    using demo_threaded by blast
  have "pendingFunctors st \<noteq> []" using st(3) by simp
  from loop_drains_queue [OF st(1,2) this st(4)] obtain st' where
    "loop_run (6 + length (pendingFunctors st)) st = Some st'" "pc st' = AtTest" "executed st' = pushed st" "pendingFunctors st' = []"
    by blast
  then show ?thesis using st(3,5) by (intro exI [of _ st] exI [of _ st']) simp
qed

end
