(* ===== verification/Http_Context.thy ===== *)
theory Http_Context
  imports EventLoop
begin

text \<open>
  The data of \<open>src/http/HttpConnection.h\<close>: what a \<open>TcpConnection\<close> points to in its member \<open>context_\<close>. The
  operations are in the theory \<open>HttpConnection\<close>.
\<close>

datatype ParseState = kRequestLine | kHeader | kBody | kFinish

text \<open>What the code uses of a \<open>struct stat\<close>.\<close>

record file_stat =
  st_isdir :: bool
  st_roth :: bool
  st_size :: nat

record HttpConnection =
  parseState :: ParseState
  http_method :: string
  http_path :: string
  http_version :: string
  header :: "string \<rightharpoonup> string"
  http_body :: string
  post :: "string \<rightharpoonup> string"
  responseCode :: int
  keepAlive :: bool
  requestFileStat :: "file_stat option"
  http_timerId :: TimerId
  kSourceDir :: string

end
