(* ===== verification/Buffer.thy ===== *)
theory Buffer
  imports Prelude
begin

text \<open>
  \<open>src/net/Buffer.h\<close> and \<open>src/net/Buffer.cc\<close>: the growable byte buffer every connection
  reads into and writes from. The vector \<open>buffer_\<close> is a list of characters, the two indices
  are natural numbers below \<open>2 ^ 64\<close> with \<open>size_t\<close> arithmetic, and a pointer into the buffer
  is its offset from \<open>begin()\<close>. The contract is the locale \<open>byte_queue\<close>: a first-in
  first-out queue of bytes.
\<close>

section \<open>Definitions\<close>

record Buffer =
  buffer :: "char list"
  readerIndex :: nat
  writerIndex :: nat

definition kCheapPrepend :: nat where
  "kCheapPrepend = 8"

definition kInitialSize :: nat where
  "kInitialSize = 1024"

definition kCRLF :: string where
  "kCRLF = [CHR 0x0D, CHR 0x0A]"

text \<open>The largest size a \<open>std::vector<char>\<close> can have; a larger \<open>resize\<close> throws.\<close>

definition vector_max_size :: nat where
  "vector_max_size = 2 ^ 63 - 1"

definition vector_resize :: "char list \<Rightarrow> nat \<Rightarrow> char list res" where
  "vector_resize xs n =
     requireR (n \<le> vector_max_size) (Thrown ''length_error'')
       (Inr (take n xs @ replicate (n - length xs) (CHR 0x00)))"

definition Buffer_new :: "nat \<Rightarrow> Buffer" where
  "Buffer_new initialSize =
     \<lparr>buffer = replicate (szadd kCheapPrepend initialSize) (CHR 0x00),
      readerIndex = kCheapPrepend, writerIndex = kCheapPrepend\<rparr>"

definition Buffer_swap :: "Buffer \<Rightarrow> Buffer \<Rightarrow> Buffer \<times> Buffer" where
  "Buffer_swap this rhs =
     (this\<lparr>buffer := buffer rhs, readerIndex := readerIndex rhs, writerIndex := writerIndex rhs\<rparr>,
      rhs\<lparr>buffer := buffer this, readerIndex := readerIndex this, writerIndex := writerIndex this\<rparr>)"

definition readableBytes :: "Buffer \<Rightarrow> nat" where
  "readableBytes b = szsub (writerIndex b) (readerIndex b)"

definition writableBytes :: "Buffer \<Rightarrow> nat" where
  "writableBytes b = szsub (length (buffer b)) (writerIndex b)"

definition prependableBytes :: "Buffer \<Rightarrow> nat" where
  "prependableBytes b = readerIndex b"

definition Buffer_peek :: "Buffer \<Rightarrow> nat" where
  "Buffer_peek b = readerIndex b"

definition beginWrite :: "Buffer \<Rightarrow> nat" where
  "beginWrite b = writerIndex b"

definition retrieveAll :: "Buffer \<Rightarrow> Buffer" where
  "retrieveAll b = b\<lparr>readerIndex := kCheapPrepend, writerIndex := kCheapPrepend\<rparr>"

definition Buffer_retrieve :: "Buffer \<Rightarrow> nat \<Rightarrow> Buffer res" where
  "Buffer_retrieve b len =
     assertR (len \<le> readableBytes b) ''len <= readableBytes()''
       (if len < readableBytes b
        then Inr (b\<lparr>readerIndex := szadd (readerIndex b) len\<rparr>)
        else Inr (retrieveAll b))"

definition retrieveUntil :: "Buffer \<Rightarrow> nat \<Rightarrow> Buffer res" where
  "retrieveUntil b end_ptr =
     assertR (Buffer_peek b \<le> end_ptr) ''peek() <= end''
       (assertR (end_ptr \<le> beginWrite b) ''end <= beginWrite()''
         (Buffer_retrieve b (szsub end_ptr (Buffer_peek b))))"

definition retrieveAsString :: "Buffer \<Rightarrow> nat \<Rightarrow> (string \<times> Buffer) res" where
  "retrieveAsString b len =
     assertR (len \<le> readableBytes b) ''len <= readableBytes()''
       (requireR (Buffer_peek b + len \<le> length (buffer b)) (BadAccess ''std::string(peek(), len)'')
         (bindR (Buffer_retrieve b len) (\<lambda>b'. Inr (seg (Buffer_peek b) len (buffer b), b'))))"

definition retrieveAllAsString :: "Buffer \<Rightarrow> (string \<times> Buffer) res" where
  "retrieveAllAsString b = retrieveAsString b (readableBytes b)"

text \<open>
  \<open>std::copy(first, last, d_first)\<close> inside one vector is defined only when \<open>d_first\<close> is not in
  \<open>[first, last)\<close>.
\<close>

definition makeSpace :: "Buffer \<Rightarrow> nat \<Rightarrow> Buffer res" where
  "makeSpace b len =
     (if szadd (writableBytes b) (prependableBytes b) < szadd len kCheapPrepend
      then bindR (vector_resize (buffer b) (szadd (writerIndex b) len))
             (\<lambda>xs. Inr (b\<lparr>buffer := xs\<rparr>))
      else
        let readable = readableBytes b in
        requireR (\<not> (readerIndex b \<le> kCheapPrepend \<and> kCheapPrepend < writerIndex b))
          (BadAccess ''std::copy into its own range'')
          (let b' = b\<lparr>buffer := copy_at kCheapPrepend
                          (seg (readerIndex b) (writerIndex b - readerIndex b) (buffer b)) (buffer b),
                     readerIndex := kCheapPrepend,
                     writerIndex := szadd kCheapPrepend readable\<rparr>
           in assertR (readableBytes b' = readable) ''readableBytes() == readable'' (Inr b')))"

definition ensureWriteableBytes :: "Buffer \<Rightarrow> nat \<Rightarrow> Buffer res" where
  "ensureWriteableBytes b len =
     bindR (if writableBytes b < len then makeSpace b len else Inr b)
       (\<lambda>b'. assertR (len \<le> writableBytes b') ''writableBytes() >= len'' (Inr b'))"

definition hasWritten :: "Buffer \<Rightarrow> nat \<Rightarrow> Buffer res" where
  "hasWritten b len =
     assertR (len \<le> writableBytes b) ''len <= writableBytes()''
       (Inr (b\<lparr>writerIndex := szadd (writerIndex b) len\<rparr>))"

text \<open>Bytes stored at \<open>beginWrite()\<close>, by \<open>std::copy\<close> or by the kernel.\<close>

definition store_at_write :: "Buffer \<Rightarrow> char list \<Rightarrow> Buffer res" where
  "store_at_write b data =
     requireR (beginWrite b + length data \<le> length (buffer b)) (BadAccess ''write past buffer_'')
       (Inr (b\<lparr>buffer := copy_at (beginWrite b) data (buffer b)\<rparr>))"

definition Buffer_append :: "Buffer \<Rightarrow> char list \<Rightarrow> Buffer res" where
  "Buffer_append b data =
     bindR (ensureWriteableBytes b (length data))
       (\<lambda>b1. bindR (store_at_write b1 data)
         (\<lambda>b2. hasWritten b2 (length data)))"

definition findCRLF :: "Buffer \<Rightarrow> nat option" where
  "findCRLF b =
     map_option (\<lambda>k. Buffer_peek b + k)
       (find_sub kCRLF (seg (Buffer_peek b) (beginWrite b - Buffer_peek b) (buffer b)))"

definition findCRLF_from :: "Buffer \<Rightarrow> nat \<Rightarrow> nat option res" where
  "findCRLF_from b start =
     assertR (Buffer_peek b \<le> start) ''peek() <= start''
       (assertR (start \<le> beginWrite b) ''start <= beginWrite()''
         (Inr (map_option (\<lambda>k. start + k)
           (find_sub kCRLF (seg start (beginWrite b - start) (buffer b))))))"

definition findEOL :: "Buffer \<Rightarrow> nat option" where
  "findEOL b =
     map_option (\<lambda>k. Buffer_peek b + k)
       (find_sub [CHR 0x0A] (seg (Buffer_peek b) (readableBytes b) (buffer b)))"

definition findEOL_from :: "Buffer \<Rightarrow> nat \<Rightarrow> nat option res" where
  "findEOL_from b start =
     assertR (Buffer_peek b \<le> start) ''peek() <= start''
       (assertR (start \<le> beginWrite b) ''start <= beginWrite()''
         (Inr (map_option (\<lambda>k. start + k)
           (find_sub [CHR 0x0A] (seg start (beginWrite b - start) (buffer b))))))"

text \<open>
  \<open>readFd\<close>: the outcome of \<open>readv\<close> is an input. On success the kernel has stored the bytes
  in the two pieces, the buffer's writable space first; \<open>readv_capacity\<close> is the total length
  of the pieces it was given, which bounds what it can return.
\<close>

datatype io_result = IoErr int | IoOk "char list"

definition extrabuf_size :: nat where
  "extrabuf_size = 65536"

definition readv_iovcnt :: "Buffer \<Rightarrow> nat" where
  "readv_iovcnt b = (if writableBytes b < extrabuf_size then 2 else 1)"

definition readv_capacity :: "Buffer \<Rightarrow> nat" where
  "readv_capacity b = writableBytes b + (if readv_iovcnt b = 2 then extrabuf_size else 0)"

definition readFd :: "Buffer \<Rightarrow> io_result \<Rightarrow> (int \<times> int option \<times> Buffer) res" where
  "readFd b r =
     (case r of
        IoErr e \<Rightarrow> Inr (-1, Some e, b)
      | IoOk data \<Rightarrow>
          (let writable = writableBytes b; n = length data in
           bindR (store_at_write b (take writable data))
             (\<lambda>b0. if n \<le> writable
                  then bindR (hasWritten b0 n) (\<lambda>b1. Inr (int n, None, b1))
                  else bindR (hasWritten b0 writable)
                         (\<lambda>b1. bindR (Buffer_append b1 (drop writable data))
                           (\<lambda>b2. Inr (int n, None, b2))))))"

section \<open>Invariant and abstraction\<close>

definition Buffer_inv :: "Buffer \<Rightarrow> bool" where
  "Buffer_inv b \<longleftrightarrow> kCheapPrepend \<le> readerIndex b \<and> readerIndex b \<le> writerIndex b \<and>
     writerIndex b \<le> length (buffer b) \<and> length (buffer b) \<le> vector_max_size"

definition contents :: "Buffer \<Rightarrow> char list" where
  "contents b = seg (readerIndex b) (writerIndex b - readerIndex b) (buffer b)"

definition storage :: "Buffer \<Rightarrow> nat" where
  "storage b = length (buffer b)"


section \<open>Shared facts\<close>

named_theorems buffer_defs \<open>the buffer's constants and accessors\<close>

lemmas [buffer_defs] = kCheapPrepend_def vector_max_size_def Buffer_peek_def beginWrite_def
  prependableBytes_def

lemma Buffer_invD:
  assumes "Buffer_inv b"
  shows "8 \<le> readerIndex b" and "readerIndex b \<le> writerIndex b"
    and "writerIndex b \<le> length (buffer b)" and "length (buffer b) < 9223372036854775808"
  using assms by (auto simp: Buffer_inv_def buffer_defs)

lemma readableBytes_eq: "Buffer_inv b \<Longrightarrow> readableBytes b = writerIndex b - readerIndex b"
  unfolding readableBytes_def by (rule szsub_no_wrap) (use Buffer_invD [of b] in linarith)+

lemma writableBytes_eq: "Buffer_inv b \<Longrightarrow> writableBytes b = length (buffer b) - writerIndex b"
  unfolding writableBytes_def by (rule szsub_no_wrap) (use Buffer_invD [of b] in linarith)+

lemma length_contents: "Buffer_inv b \<Longrightarrow> length (contents b) = readableBytes b"
  using Buffer_invD [of b] by (simp add: contents_def readableBytes_eq)

lemma Buffer_new_inv: "initialSize \<le> vector_max_size - kCheapPrepend \<Longrightarrow> Buffer_inv (Buffer_new initialSize)"
  by (simp add: Buffer_inv_def Buffer_new_def buffer_defs szadd_no_wrap)

lemma contents_Buffer_new [simp]: "contents (Buffer_new n) = []"
  by (simp add: contents_def Buffer_new_def)

lemma storage_Buffer_new:
  "n \<le> vector_max_size - kCheapPrepend \<Longrightarrow> storage (Buffer_new n) = n + kCheapPrepend"
  by (simp add: storage_def Buffer_new_def buffer_defs szadd_no_wrap)

lemma retrieveAll_inv: "Buffer_inv b \<Longrightarrow> Buffer_inv (retrieveAll b)"
  by (auto simp: Buffer_inv_def retrieveAll_def)

lemma contents_retrieveAll [simp]: "contents (retrieveAll b) = []"
  by (simp add: contents_def retrieveAll_def)

lemma storage_retrieveAll [simp]: "storage (retrieveAll b) = storage b"
  by (simp add: storage_def retrieveAll_def)

section \<open>Removing bytes\<close>

lemma Buffer_retrieve_spec:
  assumes inv: "Buffer_inv b" and len: "len \<le> length (contents b)"
  shows "\<exists>b'. Buffer_retrieve b len = Inr b' \<and> Buffer_inv b' \<and>
    contents b' = drop len (contents b) \<and> storage b' = storage b"
proof (cases "len < readableBytes b")
  case True
  note bd = Buffer_invD [OF inv] readableBytes_eq [OF inv]
  have sz: "szadd (readerIndex b) len = readerIndex b + len"
    using bd True by (intro szadd_no_wrap) linarith
  let ?b = "b\<lparr>readerIndex := readerIndex b + len\<rparr>"
  have "Buffer_inv ?b" using inv bd True by (auto simp: Buffer_inv_def buffer_defs)
  moreover have "contents ?b = drop len (contents b)" by (simp add: contents_def drop_seg)
  ultimately show ?thesis using True sz by (simp add: Buffer_retrieve_def storage_def)
next
  case False
  with len have "len = readableBytes b" and "drop len (contents b) = []"
    by (auto simp: length_contents [OF inv])
  then show ?thesis by (simp add: Buffer_retrieve_def retrieveAll_inv [OF inv])
qed

lemma Buffer_retrieve_fails:
  "Buffer_inv b \<Longrightarrow> length (contents b) < len \<Longrightarrow>
   Buffer_retrieve b len = Inl (AssertFail ''len <= readableBytes()'')"
  by (simp add: Buffer_retrieve_def length_contents assertR_def)

lemma retrieveAsString_spec:
  assumes inv: "Buffer_inv b" and len: "len \<le> length (contents b)"
  shows "\<exists>b'. retrieveAsString b len = Inr (take len (contents b), b') \<and> Buffer_inv b' \<and>
    contents b' = drop len (contents b) \<and> storage b' = storage b"
proof -
  obtain b' where b': "Buffer_retrieve b len = Inr b'" "Buffer_inv b'"
    "contents b' = drop len (contents b)" "storage b' = storage b"
    using Buffer_retrieve_spec [OF assms] by blast
  note bd = Buffer_invD [OF inv] readableBytes_eq [OF inv]
  have le: "len \<le> writerIndex b - readerIndex b" using len bd by (simp add: length_contents [OF inv])
  then have "seg (readerIndex b) len (buffer b) = take len (contents b)"
    by (simp add: contents_def take_seg min_def)
  moreover have "readerIndex b + len \<le> length (buffer b)" using le bd by linarith
  ultimately show ?thesis using b' le bd
    by (simp add: retrieveAsString_def Buffer_peek_def)
qed

lemma retrieveAsString_fails:
  "Buffer_inv b \<Longrightarrow> length (contents b) < len \<Longrightarrow>
   retrieveAsString b len = Inl (AssertFail ''len <= readableBytes()'')"
  by (simp add: retrieveAsString_def length_contents assertR_def)

lemma retrieveUntil_spec:
  assumes inv: "Buffer_inv b" and p: "readerIndex b \<le> p" "p \<le> writerIndex b"
  shows "\<exists>b'. retrieveUntil b p = Inr b' \<and> Buffer_inv b' \<and>
    contents b' = drop (p - readerIndex b) (contents b) \<and> storage b' = storage b"
proof -
  note bd = Buffer_invD [OF inv] readableBytes_eq [OF inv] length_contents [OF inv]
  have "szsub p (readerIndex b) = p - readerIndex b"
    using p bd by (intro szsub_no_wrap) linarith+
  moreover have "p - readerIndex b \<le> length (contents b)" using p bd by linarith
  ultimately show ?thesis
    using Buffer_retrieve_spec [OF inv] p by (simp add: retrieveUntil_def buffer_defs)
qed

section \<open>Making room and appending\<close>

lemma vector_resize_grow:
  "length xs \<le> n \<Longrightarrow> n \<le> vector_max_size \<Longrightarrow>
   vector_resize xs n = Inr (xs @ replicate (n - length xs) (CHR 0x00))"
  by (simp add: vector_resize_def)

lemma makeSpace_general:
  assumes inv: "Buffer_inv b" and need: "writableBytes b < len" and small: "len \<le> vector_max_size"
    and room: "writableBytes b + readerIndex b < len + 8 \<Longrightarrow> writerIndex b + len \<le> vector_max_size"
  shows "\<exists>b'. makeSpace b len = Inr b' \<and> Buffer_inv b' \<and> contents b' = contents b \<and>
    len \<le> writableBytes b' \<and> storage b' \<le> storage b + len"
proof -
  note bd = Buffer_invD [OF inv] readableBytes_eq [OF inv] writableBytes_eq [OF inv]
  have r: "len < 9223372036854775808" using small by (simp add: buffer_defs)
  have wrap: "szadd (writableBytes b) (readerIndex b) = writableBytes b + readerIndex b"
    "szadd len 8 = len + 8" "szadd (writerIndex b) len = writerIndex b + len"
    by (rule szadd_no_wrap, use bd r in linarith)+
  show ?thesis
  proof (cases "writableBytes b + readerIndex b < len + 8")
    case True
    let ?xs = "buffer b @ replicate (writerIndex b + len - length (buffer b)) (CHR 0x00)"
    have lo: "length (buffer b) \<le> writerIndex b + len" using need bd by linarith
    have hi: "writerIndex b + len \<le> vector_max_size" using room True by simp
    let ?b = "b\<lparr>buffer := ?xs\<rparr>"
    have eq: "makeSpace b len = Inr ?b"
      using True wrap vector_resize_grow [OF lo hi] by (simp add: makeSpace_def buffer_defs)
    have i: "Buffer_inv ?b" using inv lo hi bd by (auto simp: Buffer_inv_def)
    have "contents ?b = contents b" using bd by (simp add: contents_def seg_append_left)
    moreover have "len \<le> writableBytes ?b" using lo by (simp add: writableBytes_eq [OF i])
    moreover have "storage ?b \<le> storage b + len" using lo bd by (simp add: storage_def)
    ultimately show ?thesis using eq i by blast
  next
    case False
    define n where "n = writerIndex b - readerIndex b"
    let ?d = "seg (readerIndex b) n (buffer b)"
    let ?b = "b\<lparr>buffer := copy_at 8 ?d (buffer b), readerIndex := 8, writerIndex := 8 + n\<rparr>"
    have far: "8 < readerIndex b" using False need bd by linarith
    have n: "readableBytes b = n" "8 + n \<le> length (buffer b)" "readerIndex b + n = writerIndex b"
      using bd by (auto simp: n_def)
    have ld: "length ?d = n" using bd n by simp
    have len_b: "length (copy_at 8 ?d (buffer b)) = length (buffer b)"
      using n ld by (intro length_copy_at) simp
    have i: "Buffer_inv ?b"
      using inv n len_b by (auto simp: Buffer_inv_def buffer_defs)
    have "szadd 8 n = 8 + n" using bd n by (intro szadd_no_wrap) linarith
    moreover have "readableBytes ?b = n" by (simp add: readableBytes_eq [OF i])
    ultimately have eq: "makeSpace b len = Inr ?b"
      using False wrap far n by (simp add: makeSpace_def buffer_defs Let_def n_def [symmetric])
    have "seg 8 (length ?d) (copy_at 8 ?d (buffer b)) = ?d"
      using n by (intro seg_copy_at_same) (simp add: ld)
    then have "contents ?b = contents b" by (simp add: contents_def ld n_def [symmetric])
    moreover have "len \<le> writableBytes ?b"
    proof -
      have "writableBytes ?b = length (buffer b) - (8 + n)"
        by (simp add: writableBytes_eq [OF i] len_b)
      then show ?thesis using False bd(2-) n by linarith
    qed
    moreover have "storage ?b \<le> storage b + len" using len_b by (simp add: storage_def)
    ultimately show ?thesis using eq i by blast
  qed
qed

lemma makeSpace_spec:
  assumes inv: "Buffer_inv b" and need: "writableBytes b < len"
    and room: "storage b + len \<le> vector_max_size"
  shows "\<exists>b'. makeSpace b len = Inr b' \<and> Buffer_inv b' \<and> contents b' = contents b \<and>
    len \<le> writableBytes b' \<and> storage b' \<le> storage b + len"
  by (rule makeSpace_general) (use assms Buffer_invD [OF inv] in \<open>auto simp: storage_def\<close>)

lemma makeSpace_Inr:
  assumes inv: "Buffer_inv b" and need: "writableBytes b < len" and small: "len \<le> vector_max_size"
    and ok: "makeSpace b len = Inr b'"
  shows "Buffer_inv b' \<and> contents b' = contents b \<and> len \<le> writableBytes b'"
proof -
  note bd = Buffer_invD [OF inv] writableBytes_eq [OF inv]
  have "len < 9223372036854775808" using small by (simp add: buffer_defs)
  then have wrap: "szadd (writableBytes b) (readerIndex b) = writableBytes b + readerIndex b"
    "szadd len 8 = len + 8" "szadd (writerIndex b) len = writerIndex b + len"
    by (auto intro!: szadd_no_wrap) (use bd in linarith)+
  have "writerIndex b + len \<le> vector_max_size" if "writableBytes b + readerIndex b < len + 8"
    using ok that wrap
    by (simp add: makeSpace_def kCheapPrepend_def prependableBytes_def res_iffs vector_resize_def)
  from makeSpace_general [OF inv need small this] ok show ?thesis by auto
qed

lemma ensureWriteableBytes_spec:
  assumes inv: "Buffer_inv b" and room: "storage b + len \<le> vector_max_size"
  shows "\<exists>b'. ensureWriteableBytes b len = Inr b' \<and> Buffer_inv b' \<and> contents b' = contents b \<and>
    len \<le> writableBytes b' \<and> storage b' \<le> storage b + len"
proof (cases "writableBytes b < len")
  case True
  with makeSpace_spec [OF inv True room] show ?thesis
    by (auto simp: ensureWriteableBytes_def)
next
  case False
  then show ?thesis using inv by (simp add: ensureWriteableBytes_def)
qed

text \<open>Bytes stored at the write position and then committed extend the contents.\<close>

lemma commit_spec:
  assumes inv: "Buffer_inv b" and fits: "length data \<le> writableBytes b"
  shows "\<exists>b'. bindR (store_at_write b data) (\<lambda>b2. hasWritten b2 (length data)) = Inr b' \<and>
    Buffer_inv b' \<and> contents b' = contents b @ data \<and> storage b' = storage b \<and>
    writableBytes b' = writableBytes b - length data"
proof -
  note bd = Buffer_invD [OF inv] writableBytes_eq [OF inv]
  let ?xs = "copy_at (writerIndex b) data (buffer b)"
  have fit: "writerIndex b + length data \<le> length (buffer b)" using bd fits by linarith
  have lx: "length ?xs = length (buffer b)" using fit by simp
  let ?b1 = "b\<lparr>buffer := ?xs\<rparr>"
  let ?b = "?b1\<lparr>writerIndex := writerIndex b + length data\<rparr>"
  have i1: "Buffer_inv ?b1" using inv lx by (auto simp: Buffer_inv_def)
  have i: "Buffer_inv ?b" using inv lx fit by (auto simp: Buffer_inv_def)
  have "szadd (writerIndex b) (length data) = writerIndex b + length data"
    using bd fit by (intro szadd_no_wrap) linarith
  moreover have "length data \<le> writableBytes ?b1"
    using fits lx bd by (simp add: writableBytes_eq [OF i1])
  ultimately have eq: "bindR (store_at_write b data) (\<lambda>b2. hasWritten b2 (length data)) = Inr ?b"
    using fit by (simp add: store_at_write_def hasWritten_def beginWrite_def)
  have "contents ?b = contents b @ data"
    using seg_copy_at_extend [of "readerIndex b" "writerIndex b - readerIndex b" "buffer b" data] bd fit
    by (simp add: contents_def)
  then show ?thesis using eq i lx bd by (auto simp: storage_def writableBytes_eq [OF i])
qed

lemma Buffer_append_spec:
  assumes inv: "Buffer_inv b" and room: "storage b + length data \<le> vector_max_size"
  shows "\<exists>b'. Buffer_append b data = Inr b' \<and> Buffer_inv b' \<and> contents b' = contents b @ data \<and>
    storage b' \<le> storage b + length data"
proof -
  obtain b1 where b1: "ensureWriteableBytes b (length data) = Inr b1" "Buffer_inv b1"
    "contents b1 = contents b" "length data \<le> writableBytes b1"
    "storage b1 \<le> storage b + length data"
    using ensureWriteableBytes_spec [OF assms] by blast
  from commit_spec [OF b1(2,4)] b1 show ?thesis
    by (auto simp: Buffer_append_def)
qed

text \<open>
  The same without a bound on the storage: \<open>max_size()\<close> bounds the length of every
  \<open>std::string\<close>, and a call that returns has appended the data.
\<close>

lemma Buffer_append_Inr:
  assumes inv: "Buffer_inv b" and small: "length data \<le> vector_max_size"
    and ok: "Buffer_append b data = Inr b'"
  shows "Buffer_inv b' \<and> contents b' = contents b @ data"
proof -
  from ok obtain b1 where b1: "ensureWriteableBytes b (length data) = Inr b1"
    "bindR (store_at_write b1 data) (\<lambda>b2. hasWritten b2 (length data)) = Inr b'"
    by (auto simp: Buffer_append_def bindR_eq_Inr)
  have "Buffer_inv b1 \<and> contents b1 = contents b \<and> length data \<le> writableBytes b1"
  proof (cases "writableBytes b < length data")
    case True
    with b1(1) have "makeSpace b (length data) = Inr b1"
      by (auto simp: ensureWriteableBytes_def res_iffs)
    from makeSpace_Inr [OF inv True small this] show ?thesis .
  next
    case False
    with b1(1) inv show ?thesis by (simp add: ensureWriteableBytes_def)
  qed
  with commit_spec [of b1 data] b1(2) show ?thesis by auto
qed

section \<open>Reading from a descriptor\<close>

lemma readFd_spec:
  assumes inv: "Buffer_inv b" and cap: "length data \<le> readv_capacity b"
    and room: "storage b + extrabuf_size \<le> vector_max_size"
  shows "\<exists>b'. readFd b (IoOk data) = Inr (int (length data), None, b') \<and> Buffer_inv b' \<and>
    contents b' = contents b @ data \<and> storage b' \<le> storage b + extrabuf_size"
proof -
  let ?w = "writableBytes b"
  have fits: "length (take ?w data) \<le> ?w" by simp
  obtain b1 where b1: "bindR (store_at_write b (take ?w data))
      (\<lambda>b2. hasWritten b2 (length (take ?w data))) = Inr b1" "Buffer_inv b1"
    "contents b1 = contents b @ take ?w data" "storage b1 = storage b"
    using commit_spec [OF inv fits] by blast
  from b1(1) obtain b0 where b0: "store_at_write b (take ?w data) = Inr b0"
    "hasWritten b0 (length (take ?w data)) = Inr b1" by (auto simp: bindR_eq_Inr)
  show ?thesis
  proof (cases "length data \<le> ?w")
    case True
    then show ?thesis using b0 b1 by (simp add: readFd_def Let_def)
  next
    case False
    then have "length (drop ?w data) \<le> extrabuf_size"
      using cap by (auto simp: readv_capacity_def split: if_splits)
    then obtain b2 where "Buffer_append b1 (drop ?w data) = Inr b2" "Buffer_inv b2"
      "contents b2 = contents b1 @ drop ?w data" "storage b2 \<le> storage b1 + length (drop ?w data)"
      using Buffer_append_spec [OF b1(2), of "drop ?w data"] room b1(4) by auto
    with False b0 b1 \<open>length (drop ?w data) \<le> extrabuf_size\<close> show ?thesis
      by (simp add: readFd_def Let_def)
  qed
qed

lemma readFd_Inr:
  assumes inv: "Buffer_inv b" and small: "length data \<le> vector_max_size"
    and ok: "readFd b (IoOk data) = Inr (n, e, b')"
  shows "n = int (length data) \<and> Buffer_inv b' \<and> contents b' = contents b @ data"
proof -
  let ?w = "writableBytes b"
  have fits: "length (take ?w data) \<le> ?w" by simp
  obtain b1 where b1: "bindR (store_at_write b (take ?w data))
      (\<lambda>b2. hasWritten b2 (length (take ?w data))) = Inr b1" "Buffer_inv b1"
    "contents b1 = contents b @ take ?w data"
    using commit_spec [OF inv fits] by blast
  from b1(1) obtain b0 where b0: "store_at_write b (take ?w data) = Inr b0"
    "hasWritten b0 (length (take ?w data)) = Inr b1" by (auto simp: bindR_eq_Inr)
  show ?thesis
  proof (cases "length data \<le> ?w")
    case True
    then show ?thesis using b0 b1 ok by (simp add: readFd_def Let_def)
  next
    case False
    with ok b0 have "Buffer_append b1 (drop ?w data) = Inr b'" and "n = int (length data)"
      by (auto simp: readFd_def Let_def bindR_eq_Inr)
    moreover have "length (drop ?w data) \<le> vector_max_size" using small by simp
    ultimately show ?thesis using Buffer_append_Inr [OF b1(2)] b1(3) by fastforce
  qed
qed

section \<open>The queue contract\<close>

text \<open>
  What a connection relies on: an abstract sequence of bytes, appended at the end and taken from
  the front, with a bound on the storage as the only limit.
\<close>

locale byte_queue =
  fixes inv :: "'q \<Rightarrow> bool" and bytes :: "'q \<Rightarrow> char list" and size_of :: "'q \<Rightarrow> nat"
    and limit :: nat
    and put :: "'q \<Rightarrow> char list \<Rightarrow> 'q res" and get :: "'q \<Rightarrow> nat \<Rightarrow> (char list \<times> 'q) res"
  assumes put_law: "inv q \<Longrightarrow> size_of q + length d \<le> limit \<Longrightarrow>
      \<exists>q'. put q d = Inr q' \<and> inv q' \<and> bytes q' = bytes q @ d \<and> size_of q' \<le> size_of q + length d"
    and get_law: "inv q \<Longrightarrow> n \<le> length (bytes q) \<Longrightarrow>
      \<exists>q'. get q n = Inr (take n (bytes q), q') \<and> inv q' \<and> bytes q' = drop n (bytes q) \<and>
        size_of q' = size_of q"
    and get_fails: "inv q \<Longrightarrow> length (bytes q) < n \<Longrightarrow> \<exists>e. get q n = Inl e"

text \<open>A client's run: appends and removals in any order; the removed bytes are collected.\<close>

datatype buf_op = Put "char list" | Get nat

fun run_ops :: "('q \<Rightarrow> char list \<Rightarrow> 'q res) \<Rightarrow> ('q \<Rightarrow> nat \<Rightarrow> (char list \<times> 'q) res) \<Rightarrow>
    buf_op list \<Rightarrow> 'q \<Rightarrow> (char list \<times> 'q) res" where
  "run_ops put get [] q = Inr ([], q)"
| "run_ops put get (Put d # ops) q = bindR (put q d) (run_ops put get ops)"
| "run_ops put get (Get n # ops) q =
     bindR (get q n) (\<lambda>(out, q'). bindR (run_ops put get ops q') (\<lambda>(outs, q''). Inr (out @ outs, q'')))"

fun put_bytes :: "buf_op list \<Rightarrow> char list" where
  "put_bytes [] = []"
| "put_bytes (Put d # ops) = d @ put_bytes ops"
| "put_bytes (Get n # ops) = put_bytes ops"

context byte_queue
begin

text \<open>First in, first out: what came out, followed by what is left, is what was there and went in.\<close>

lemma run_ops_fifo:
  assumes "run_ops put get ops q = Inr (out, q')" and "inv q"
    and "size_of q + length (put_bytes ops) \<le> limit"
  shows "inv q' \<and> out @ bytes q' = bytes q @ put_bytes ops"
  using assms
proof (induction ops arbitrary: q out)
  case Nil
  then show ?case by simp
next
  case (Cons op ops)
  show ?case
  proof (cases op)
    case (Put d)
    with Cons.prems have "size_of q + length d \<le> limit" by simp
    from put_law [OF Cons.prems(2) this] obtain q1 where q1: "put q d = Inr q1" "inv q1"
      "bytes q1 = bytes q @ d" "size_of q1 \<le> size_of q + length d" by blast
    with Cons.prems Put have "run_ops put get ops q1 = Inr (out, q')" by simp
    with Cons.IH [of q1 out] q1 Cons.prems(3) Put show ?thesis by auto
  next
    case (Get n)
    have n: "n \<le> length (bytes q)"
    proof (rule ccontr)
      assume "\<not> n \<le> length (bytes q)"
      then obtain e where "get q n = Inl e" using get_fails [OF Cons.prems(2), of n] by auto
      with Cons.prems(1) Get show False by simp
    qed
    from get_law [OF Cons.prems(2) n] obtain q1 where q1: "get q n = Inr (take n (bytes q), q1)"
      "inv q1" "bytes q1 = drop n (bytes q)" "size_of q1 = size_of q" by blast
    with Cons.prems(1) Get obtain outs where outs: "run_ops put get ops q1 = Inr (outs, q')"
      "out = take n (bytes q) @ outs" by (auto simp: bindR_eq_Inr)
    with Cons.IH [of q1 outs] q1 Cons.prems(3) Get show ?thesis
      by (metis append.assoc append_take_drop_id put_bytes.simps(3))
  qed
qed

text \<open>A run that never takes more than is there succeeds.\<close>

lemma run_ops_total_Put:
  assumes "inv q" and "size_of q + length (concat ds) \<le> limit"
  shows "\<exists>q'. run_ops put get (map Put ds) q = Inr ([], q') \<and> inv q' \<and>
    bytes q' = bytes q @ concat ds"
  using assms
proof (induction ds arbitrary: q)
  case Nil
  then show ?case by simp
next
  case (Cons d ds)
  from put_law [OF Cons.prems(1), of d] Cons.prems(2)
  obtain q1 where "put q d = Inr q1" "inv q1" "bytes q1 = bytes q @ d"
    "size_of q1 \<le> size_of q + length d" by auto
  with Cons.IH [of q1] Cons.prems(2) show ?case by auto
qed

end

interpretation bq: byte_queue Buffer_inv contents storage vector_max_size Buffer_append
  retrieveAsString
proof unfold_locales
  show "\<exists>q'. Buffer_append q d = Inr q' \<and> Buffer_inv q' \<and> contents q' = contents q @ d \<and>
      storage q' \<le> storage q + length d"
    if "Buffer_inv q" and "storage q + length d \<le> vector_max_size" for q d
    using that by (rule Buffer_append_spec)
  show "\<exists>q'. retrieveAsString q n = Inr (take n (contents q), q') \<and> Buffer_inv q' \<and>
      contents q' = drop n (contents q) \<and> storage q' = storage q"
    if "Buffer_inv q" and "n \<le> length (contents q)" for q n
    using that by (rule retrieveAsString_spec)
  show "\<exists>e. retrieveAsString q n = Inl e"
    if "Buffer_inv q" and "length (contents q) < n" for q n
    using retrieveAsString_fails [OF that] by blast
qed

section \<open>Searching\<close>

lemma length_kCRLF: "length kCRLF = 2"
  by (simp add: kCRLF_def)

lemma findCRLF_eq: "findCRLF b = map_option (\<lambda>k. readerIndex b + k) (find_sub kCRLF (contents b))"
  by (simp add: findCRLF_def contents_def buffer_defs)

lemma findCRLF_Some:
  assumes "Buffer_inv b" and "findCRLF b = Some p"
  shows "readerIndex b \<le> p \<and> p + 2 \<le> writerIndex b \<and>
    contents b = take (p - readerIndex b) (contents b) @ kCRLF @ drop (p - readerIndex b + 2) (contents b)"
proof -
  obtain k where k: "find_sub kCRLF (contents b) = Some k" and p: "p = readerIndex b + k"
    using assms(2) by (auto simp: findCRLF_eq)
  from find_sub_Some [OF k] have b: "k + 2 \<le> length (contents b)" and s: "seg k 2 (contents b) = kCRLF"
    by (simp_all add: length_kCRLF)
  have "contents b = take k (contents b) @ take 2 (drop k (contents b)) @ drop 2 (drop k (contents b))"
    by (simp only: append_take_drop_id)
  then have "contents b = take k (contents b) @ kCRLF @ drop (k + 2) (contents b)"
    using s by (simp add: seg_def add.commute)
  then show ?thesis
    using b p Buffer_invD [OF assms(1)] readableBytes_eq [OF assms(1)] length_contents [OF assms(1)]
    by simp
qed


lemma findCRLF_iff_find_sub:
  assumes "Buffer_inv b"
  shows "findCRLF b = Some p \<longleftrightarrow> readerIndex b \<le> p \<and> find_sub kCRLF (contents b) = Some (p - readerIndex b)"
  by (auto simp: findCRLF_eq)

lemma find_sub_Some_iff:
  "find_sub pat xs = Some k \<longleftrightarrow> k + length pat \<le> length xs \<and> seg k (length pat) xs = pat \<and>
     (\<forall>j < k. seg j (length pat) xs \<noteq> pat)"
proof
  assume "find_sub pat xs = Some k"
  then show "k + length pat \<le> length xs \<and> seg k (length pat) xs = pat \<and>
     (\<forall>j < k. seg j (length pat) xs \<noteq> pat)" by (rule find_sub_Some)
next
  assume k: "k + length pat \<le> length xs \<and> seg k (length pat) xs = pat \<and>
     (\<forall>j < k. seg j (length pat) xs \<noteq> pat)"
  then obtain j where j: "find_sub pat xs = Some j" "j \<le> k"
    using find_sub_complete [of k pat xs] by blast
  with find_sub_Some [OF j(1)] k have "j = k" by (metis le_neq_implies_less)
  with j show "find_sub pat xs = Some k" by simp
qed

section \<open>Wrap-around\<close>

text \<open>
  The size computation of \<open>makeSpace\<close> is not guarded: when \<open>writerIndex_ + len\<close> passes
  \<open>2 ^ 64\<close> the vector is shrunk, and the assertion that follows is satisfied by the wrapped
  \<open>writableBytes()\<close>.
\<close>

lemma ensureWriteableBytes_wraps:
  assumes inv: "Buffer_inv b" and len: "len < 2 ^ 64 - kCheapPrepend"
    and over: "2 ^ 64 \<le> writerIndex b + len"
  shows "\<exists>b'. ensureWriteableBytes b len = Inr b' \<and> length (buffer b') < writerIndex b'"
proof -
  note bd = Buffer_invD [OF inv] writableBytes_eq [OF inv]
  define n where "n = writerIndex b + len - 2 ^ 64"
  have l: "len < 18446744073709551608" and o: "18446744073709551616 \<le> writerIndex b + len"
    using len over by (simp_all add: buffer_defs)
  have n: "n < writerIndex b" "szadd (writerIndex b) len = n"
    using l o bd by (simp_all add: n_def szadd_def mod_if)
  have need: "writableBytes b < len" using l o bd by linarith
  have "szadd (writableBytes b) (readerIndex b) = writableBytes b + readerIndex b"
    "szadd len 8 = len + 8"
    by (rule szadd_no_wrap, use bd l in linarith)+
  moreover have "writableBytes b + readerIndex b < len + 8" using bd l o by linarith
  moreover have "n \<le> 2 ^ 63 - 1" using n bd by simp
  ultimately have m: "makeSpace b len = Inr (b\<lparr>buffer := take n (buffer b)\<rparr>)"
    using n bd by (simp add: makeSpace_def buffer_defs vector_resize_def)
  have "writableBytes (b\<lparr>buffer := take n (buffer b)\<rparr>) = szsub n (writerIndex b)"
    using n bd by (simp add: writableBytes_def min_def)
  also have "\<dots> = 2 ^ 64 - (writerIndex b - n)"
    using n bd by (intro szsub_wraps) auto
  also have "\<dots> = len" using l o bd by (simp add: n_def)
  finally show ?thesis using m need n bd by (simp add: ensureWriteableBytes_def)
qed

section \<open>Properties\<close>

text \<open>C19. Appending to a well-formed buffer always succeeds (as long as the storage stays below the
  vector's size limit): no assertion fails, no byte is stored outside the vector, the invariant
  holds again and the readable bytes are the old ones followed by the new ones, whether the
  data fits, the vector grows or the readable bytes are moved to the front.\<close>
theorem Buffer_append_correct:
  assumes "Buffer_inv b" and "storage b + length data \<le> vector_max_size"
  shows "\<exists>b'. Buffer_append b data = Inr b' \<and> Buffer_inv b' \<and> contents b' = contents b @ data"
  using bq.put_law [OF assms] by blast

theorem Buffer_append_correct_witness:
  "\<exists>b'. Buffer_append (Buffer_new 4) ''hello'' = Inr b' \<and> Buffer_inv b' \<and>
     contents b' = contents (Buffer_new 4) @ ''hello''"
  by (rule Buffer_append_correct) (simp_all add: Buffer_new_inv storage_Buffer_new buffer_defs)

text \<open>C20. First in, first out: in any sequence of appends and removals on a fresh buffer, the bytes
  taken out followed by the bytes still readable are exactly the bytes put in, in order.\<close>
theorem Buffer_fifo:
  assumes "run_ops Buffer_append retrieveAsString ops (Buffer_new n) = Inr (out, b)"
    and "n + kCheapPrepend + length (put_bytes ops) \<le> vector_max_size"
  shows "out @ contents b = put_bytes ops"
proof -
  have n: "n \<le> vector_max_size - kCheapPrepend" using assms(2) by linarith
  have "storage (Buffer_new n) + length (put_bytes ops) \<le> vector_max_size"
    using assms(2) storage_Buffer_new [OF n] by simp
  with bq.run_ops_fifo [OF assms(1) Buffer_new_inv [OF n]] show ?thesis by simp
qed

theorem Buffer_fifo_witness:
  "\<exists>b. run_ops Buffer_append retrieveAsString [Put ''abcd'', Get 3, Put ''efg'', Get 2] (Buffer_new 4)
     = Inr (''abcde'', b) \<and> ''abcde'' @ contents b = put_bytes [Put ''abcd'', Get 3, Put ''efg'', Get 2]"
proof -
  let ?b = "\<lparr>buffer = replicate 8 (CHR 0x00) @ ''defg'', readerIndex = 10, writerIndex = 12\<rparr>"
  have b: "run_ops Buffer_append retrieveAsString [Put ''abcd'', Get 3, Put ''efg'', Get 2]
     (Buffer_new 4) = Inr (''abcde'', ?b)"
    by code_simp
  have "''abcde'' @ contents ?b = put_bytes [Put ''abcd'', Get 3, Put ''efg'', Get 2]"
    by (rule Buffer_fifo [OF b]) (simp add: buffer_defs)
  with b show ?thesis by blast
qed

text \<open>C21. \<open>readFd\<close> appends exactly the bytes \<open>readv\<close> delivered, in order, whether they
  fit the writable space or spill into the stack buffer, and returns their number.\<close>
theorem readFd_correct:
  assumes "Buffer_inv b" and "length data \<le> readv_capacity b"
    and "storage b + extrabuf_size \<le> vector_max_size"
  shows "\<exists>b'. readFd b (IoOk data) = Inr (int (length data), None, b') \<and> Buffer_inv b' \<and>
    contents b' = contents b @ data"
  using readFd_spec [OF assms] by blast

theorem readFd_correct_witness:
  "\<exists>b'. readFd (Buffer_new 2) (IoOk ''GET /'') = Inr (int (length ''GET /''), None, b') \<and>
     Buffer_inv b' \<and> contents b' = contents (Buffer_new 2) @ ''GET /''"
proof (rule readFd_correct)
  show "Buffer_inv (Buffer_new 2)" by (simp add: Buffer_new_inv buffer_defs)
  show "length ''GET /'' \<le> readv_capacity (Buffer_new 2)" by code_simp
  show "storage (Buffer_new 2) + extrabuf_size \<le> vector_max_size"
    by (simp add: storage_Buffer_new buffer_defs extrabuf_size_def)
qed

text \<open>\<open>findCRLF\<close> returns the first line end of the readable bytes: a position inside the
  readable range where CR LF stands, with no earlier one; it returns null exactly when there is
  none.\<close>
theorem findCRLF_correct:
  assumes "Buffer_inv b"
  shows "findCRLF b = Some p \<longleftrightarrow>
    readerIndex b \<le> p \<and> p + 2 \<le> writerIndex b \<and> seg (p - readerIndex b) 2 (contents b) = kCRLF \<and>
    (\<forall>j < p - readerIndex b. seg j 2 (contents b) \<noteq> kCRLF)"
  unfolding findCRLF_iff_find_sub [OF assms] find_sub_Some_iff length_kCRLF
    length_contents [OF assms] readableBytes_eq [OF assms]
  using Buffer_invD [OF assms] by auto

theorem findCRLF_correct_witness:
  "findCRLF \<lparr>buffer = ''01234567GET'' @ kCRLF @ kCRLF, readerIndex = 8, writerIndex = 15\<rparr> = Some 11"
proof -
  let ?b = "\<lparr>buffer = ''01234567GET'' @ kCRLF @ kCRLF, readerIndex = 8, writerIndex = 15\<rparr>"
  have i: "Buffer_inv ?b" by (simp add: Buffer_inv_def buffer_defs kCRLF_def)
  have "seg (11 - readerIndex ?b) 2 (contents ?b) = kCRLF \<and>
    (\<forall>j < 11 - readerIndex ?b. seg j 2 (contents ?b) \<noteq> kCRLF)"
    by code_simp
  then show ?thesis using findCRLF_correct [OF i, of 11] by simp
qed

text \<open>\<open>ensureWriteableBytes\<close> does not guard the addition \<open>writerIndex_ + len\<close>: for every
  well-formed buffer and every length for which it passes \<open>2 ^ 64\<close> (and \<open>len + 8\<close> does not),
  the vector is shrunk below \<open>writerIndex_\<close>, every assertion passes, and the call returns a
  buffer that is no longer well-formed.\<close>
theorem ensureWriteableBytes_overflow:
  assumes "Buffer_inv b" and "len < 2 ^ 64 - kCheapPrepend" and "2 ^ 64 \<le> writerIndex b + len"
  shows "\<exists>b'. ensureWriteableBytes b len = Inr b' \<and> \<not> Buffer_inv b'"
  using ensureWriteableBytes_wraps [OF assms] by (auto simp: Buffer_inv_def)

theorem ensureWriteableBytes_overflow_witness:
  "\<exists>b'. ensureWriteableBytes (Buffer_new 16\<lparr>writerIndex := 20\<rparr>) (2 ^ 64 - 16) = Inr b' \<and>
     \<not> Buffer_inv b'"
proof (rule ensureWriteableBytes_overflow)
  show "Buffer_inv (Buffer_new 16\<lparr>writerIndex := 20\<rparr>)"
    by (simp add: Buffer_inv_def Buffer_new_def buffer_defs szadd_def)
qed (simp_all add: Buffer_new_def buffer_defs)

end
