(* ===== verification/TcpConnection.thy ===== *)
theory TcpConnection
  imports Http_Context Buffer
begin

text \<open>
  \<open>src/net/TcpConnection.h\<close> and \<open>TcpConnection.cc\<close>: the connection's state machine, its two
  buffers and its use of the channel and the loop.

  The state is the loop's record extended with a store of connections; a \<open>TcpConnection *\<close> is an
  address into it. The user's callbacks are parameters (\<open>conn_callbacks\<close>). The kernel's answer to
  the next \<open>write\<close> and \<open>readv\<close> on the socket are fields the environment sets; \<open>sock_written\<close>
  is what the kernel has accepted so far, \<open>accepted\<close> the concatenation of the messages
  \<open>sendInLoop\<close> has taken, both histories that no operation reads. \<open>context_\<close> is the user's.
\<close>

section \<open>State\<close>

datatype StateE = kDisconnected | kConnecting | kConnected | kDisconnecting

datatype write_result = WErr int | WOk nat

record TcpConnection =
  conn_name :: string
  conn_state :: StateE
  reading :: bool
  conn_channel :: chan_ptr
  highWaterMark :: nat
  inputBuffer :: Buffer
  outputBuffer :: Buffer
  sock_write :: write_result
  sock_read :: io_result
  sock_shutdown :: bool
  sock_keepalive :: bool
  sock_nodelay :: bool
  sock_written :: string
  accepted :: string
  conn_context :: "HttpConnection option"

record conn_world = EventLoop +
  conns :: "nat \<rightharpoonup> TcpConnection"

record 'w conn_callbacks =
  connectionCallback :: "nat \<Rightarrow> 'w \<Rightarrow> 'w res"
  messageCallback :: "nat \<Rightarrow> Timestamp \<Rightarrow> 'w \<Rightarrow> 'w res"
  closeCallback :: "nat \<Rightarrow> 'w \<Rightarrow> 'w res"
  writeCompleteCallback :: "(nat \<Rightarrow> 'w \<Rightarrow> 'w res) option"

definition conn_deref :: "'z conn_world_scheme \<Rightarrow> nat \<Rightarrow> TcpConnection res" where
  "conn_deref st c =
     (case conns st c of None \<Rightarrow> Inl (BadAccess ''TcpConnection'') | Some x \<Rightarrow> Inr x)"

definition conn_put ::
    "'z conn_world_scheme \<Rightarrow> nat \<Rightarrow> TcpConnection \<Rightarrow> 'z conn_world_scheme" where
  "conn_put st c x = st\<lparr>conns := (conns st)(c \<mapsto> x)\<rparr>"

definition setState ::
    "'z conn_world_scheme \<Rightarrow> nat \<Rightarrow> StateE \<Rightarrow> 'z conn_world_scheme res" where
  "setState st c s = bindR (conn_deref st c) (\<lambda>x. Inr (conn_put st c (x\<lparr>conn_state := s\<rparr>)))"

definition TcpConnection_connected :: "TcpConnection \<Rightarrow> bool" where
  "TcpConnection_connected x \<longleftrightarrow> conn_state x = kConnected"

fun stateToString :: "StateE \<Rightarrow> string" where
  "stateToString kDisconnected = ''kDisconnected''"
| "stateToString kConnecting = ''kConnecting''"
| "stateToString kConnected = ''kConnected''"
| "stateToString kDisconnecting = ''kDisconnecting''"

text \<open>The constructor; \<open>loop\<close> is null when the caller passes no loop.\<close>

definition CheckLoopNotNull :: "nat option \<Rightarrow> nat res" where
  "CheckLoopNotNull loop =
     (case loop of None \<Rightarrow> Inl (FatalLog ''TcpConnection Loop is null!'') | Some l \<Rightarrow> Inr l)"

definition TcpConnection_new ::
    "nat option \<Rightarrow> string \<Rightarrow> int \<Rightarrow> nat \<Rightarrow> chan_ptr \<Rightarrow> 'z conn_world_scheme \<Rightarrow> 'z conn_world_scheme res" where
  "TcpConnection_new loop nameArg sockfd c p st =
     bindR (CheckLoopNotNull loop) (\<lambda>l.
       bindR (new_Channel st p
                (Channel_setErrorCallback (Channel_setCloseCallback (Channel_setWriteCallback
                  (Channel_setReadCallback (Channel_new l sockfd)))))) (\<lambda>st1.
         requireR (conns st1 c = None) (Thrown ''std::bad_alloc'')
           (Inr (conn_put st1 c
             \<lparr>conn_name = nameArg, conn_state = kConnecting, reading = True, conn_channel = p,
              highWaterMark = 64 * 1024 * 1024, inputBuffer = Buffer_new kInitialSize,
              outputBuffer = Buffer_new kInitialSize, sock_write = WErr 11, sock_read = IoErr 11,
              sock_shutdown = False, sock_keepalive = True, sock_nodelay = False,
              sock_written = [], accepted = [],
              conn_context = None\<rparr>))))"

section \<open>Sending\<close>

text \<open>
  \<open>write(2)\<close> accepts a prefix of the data, and fails with \<open>EPIPE\<close> after \<open>shutdown\<close>.
\<close>

definition write_answer :: "TcpConnection \<Rightarrow> nat \<Rightarrow> write_result" where
  "write_answer x len =
     (if sock_shutdown x then WErr 32
      else (case sock_write x of WErr e \<Rightarrow> WErr e | WOk n \<Rightarrow> WOk (min n len)))"

definition wcb_set :: "'w conn_callbacks \<Rightarrow> bool" where
  "wcb_set cbs \<longleftrightarrow> writeCompleteCallback cbs \<noteq> None"

text \<open>
  \<open>wcb\<close> below says whether \<open>writeCompleteCallback_\<close> is set.

  The append after the write: \<open>message.data() + n\<close> with \<open>n = -1\<close> starts one byte before the
  string.
\<close>

definition append_rest ::
    "'z conn_world_scheme \<Rightarrow> nat \<Rightarrow> string \<Rightarrow> int \<Rightarrow> int \<Rightarrow> 'z conn_world_scheme res" where
  "append_rest st c message n remain =
     (if remain > 0
      then bindR (conn_deref st c) (\<lambda>x.
        requireR (0 \<le> n \<and> n + remain \<le> int (length message)) (BadAccess ''message.data() + n'')
          (bindR (Buffer_append (outputBuffer x) (take (nat remain) (drop (nat n) message))) (\<lambda>b.
            let st1 = conn_put st c (x\<lparr>outputBuffer := b\<rparr>) in
            bindR (chan_deref st1 (conn_channel x)) (\<lambda>ch.
              if \<not> isWriting ch then Channel_enableWriting st1 (conn_channel x) else Inr st1))))
      else Inr st)"

definition sendInLoop ::
    "bool \<Rightarrow> nat \<Rightarrow> string \<Rightarrow> 'z conn_world_scheme \<Rightarrow> 'z conn_world_scheme res" where
  "sendInLoop wcb c message st =
     assertInLoopThread st (bindR (conn_deref st c) (\<lambda>x.
       if conn_state x = kDisconnected then Inr st
       else bindR (chan_deref st (conn_channel x)) (\<lambda>ch.
         let x1 = x\<lparr>accepted := accepted x @ message\<rparr> in
         if \<not> isWriting ch \<and> readableBytes (outputBuffer x) = 0
         then (case write_answer x (length message) of
                 WOk k \<Rightarrow>
                   let st1 = conn_put st c (x1\<lparr>sock_written := sock_written x @ take k message\<rparr>);
                       remain = int (length message) - int k;
                       st2 = (if remain = 0 \<and> wcb then queueInLoop (F_writeComplete c) st1
                              else st1)
                   in append_rest st2 c message (int k) remain
               | WErr e \<Rightarrow> append_rest (conn_put st c x1) c message (-1) (int (length message)))
         else append_rest (conn_put st c x1) c message 0 (int (length message)))))"

definition TcpConnection_send ::
    "(Functor \<Rightarrow> 'z conn_world_scheme \<Rightarrow> 'z conn_world_scheme res) \<Rightarrow> nat \<Rightarrow> string \<Rightarrow>
     'z conn_world_scheme \<Rightarrow> 'z conn_world_scheme res" where
  "TcpConnection_send exec c msg st =
     bindR (conn_deref st c) (\<lambda>x.
       if conn_state x = kConnected then runInLoop exec (F_sendInLoop c msg) st else Inr st)"

text \<open>\<open>send(Buffer *)\<close>, for a buffer of the caller: the bytes are retrieved before the call.\<close>

definition TcpConnection_send_buffer ::
    "(Functor \<Rightarrow> 'z conn_world_scheme \<Rightarrow> 'z conn_world_scheme res) \<Rightarrow> nat \<Rightarrow> Buffer \<Rightarrow>
     'z conn_world_scheme \<Rightarrow> (Buffer \<times> 'z conn_world_scheme) res" where
  "TcpConnection_send_buffer exec c buf st =
     bindR (conn_deref st c) (\<lambda>x.
       if conn_state x = kConnected
       then bindR (retrieveAllAsString buf) (\<lambda>(msg, buf1).
              bindR (runInLoop exec (F_sendInLoop c msg) st) (\<lambda>st1. Inr (buf1, st1)))
       else Inr (buf, st))"

section \<open>Closing\<close>

definition shutdownInLoop ::
    "nat \<Rightarrow> 'z conn_world_scheme \<Rightarrow> 'z conn_world_scheme res" where
  "shutdownInLoop c st =
     assertInLoopThread st (bindR (conn_deref st c) (\<lambda>x.
       bindR (chan_deref st (conn_channel x)) (\<lambda>ch.
         if \<not> isWriting ch then Inr (conn_put st c (x\<lparr>sock_shutdown := True\<rparr>)) else Inr st)))"

definition TcpConnection_shutdown ::
    "(Functor \<Rightarrow> 'z conn_world_scheme \<Rightarrow> 'z conn_world_scheme res) \<Rightarrow> nat \<Rightarrow>
     'z conn_world_scheme \<Rightarrow> 'z conn_world_scheme res" where
  "TcpConnection_shutdown exec c st =
     bindR (conn_deref st c) (\<lambda>x.
       if conn_state x = kConnected
       then bindR (setState st c kDisconnecting) (\<lambda>st1. runInLoop exec (F_shutdownInLoop c) st1)
       else Inr st)"

definition TcpConnection_forceClose ::
    "nat \<Rightarrow> 'z conn_world_scheme \<Rightarrow> 'z conn_world_scheme res" where
  "TcpConnection_forceClose c st =
     bindR (conn_deref st c) (\<lambda>x.
       if conn_state x = kConnected \<or> conn_state x = kDisconnecting
       then bindR (setState st c kDisconnected) (\<lambda>st1. Inr (queueInLoop (F_forceCloseInLoop c) st1))
       else Inr st)"

definition TcpConnection_setTcpNoDelay ::
    "nat \<Rightarrow> bool \<Rightarrow> 'z conn_world_scheme \<Rightarrow> 'z conn_world_scheme res" where
  "TcpConnection_setTcpNoDelay c on st =
     bindR (conn_deref st c) (\<lambda>x. Inr (conn_put st c (x\<lparr>sock_nodelay := on\<rparr>)))"

definition TcpConnection_handleClose ::
    "'z conn_world_scheme conn_callbacks \<Rightarrow> nat \<Rightarrow> 'z conn_world_scheme \<Rightarrow> 'z conn_world_scheme res" where
  "TcpConnection_handleClose cbs c st =
     assertInLoopThread st (bindR (conn_deref st c) (\<lambda>x.
       assertR (conn_state x = kConnected \<or> conn_state x = kDisconnecting)
         ''state_ == kConnected || state_ == kDisconnecting''
         (bindR (setState st c kDisconnected) (\<lambda>st1.
            bindR (Channel_disableAll st1 (conn_channel x)) (\<lambda>st2.
              bindR (connectionCallback cbs c st2) (closeCallback cbs c))))))"

definition forceCloseInLoop ::
    "'z conn_world_scheme conn_callbacks \<Rightarrow> nat \<Rightarrow> 'z conn_world_scheme \<Rightarrow> 'z conn_world_scheme res" where
  "forceCloseInLoop cbs c st =
     bindR (conn_deref st c) (\<lambda>x.
       if conn_state x = kConnected \<or> conn_state x = kDisconnecting
       then TcpConnection_handleClose cbs c st else Inr st)"

section \<open>Life cycle\<close>

definition connectEstablished ::
    "'z conn_world_scheme conn_callbacks \<Rightarrow> nat \<Rightarrow> 'z conn_world_scheme \<Rightarrow> 'z conn_world_scheme res" where
  "connectEstablished cbs c st =
     assertInLoopThread st (bindR (conn_deref st c) (\<lambda>x.
       assertR (conn_state x = kConnecting) ''state_ == kConnecting''
         (bindR (setState st c kConnected) (\<lambda>st1.
            bindR (chan_deref st1 (conn_channel x)) (\<lambda>ch.
              bindR (Channel_enableReading (chan_put st1 (conn_channel x) (Channel_tie ch))
                       (conn_channel x))
                (connectionCallback cbs c))))))"

definition connectDestroyed ::
    "'z conn_world_scheme conn_callbacks \<Rightarrow> nat \<Rightarrow> 'z conn_world_scheme \<Rightarrow> 'z conn_world_scheme res" where
  "connectDestroyed cbs c st =
     assertInLoopThread st (bindR (conn_deref st c) (\<lambda>x.
       bindR (if conn_state x = kConnected
              then bindR (setState st c kDisconnected) (\<lambda>st1.
                     bindR (Channel_disableAll st1 (conn_channel x)) (connectionCallback cbs c))
              else Inr st)
         (\<lambda>st2. Channel_remove st2 (conn_channel x))))"

definition TcpConnection_delete ::
    "nat \<Rightarrow> 'z conn_world_scheme \<Rightarrow> 'z conn_world_scheme res" where
  "TcpConnection_delete c st =
     bindR (conn_deref st c) (\<lambda>x.
       bindR (delete_Channel st (conn_channel x)) (\<lambda>st1. Inr (st1\<lparr>conns := (conns st1)(c := None)\<rparr>)))"

section \<open>Events\<close>

definition TcpConnection_handleRead ::
    "'z conn_world_scheme conn_callbacks \<Rightarrow> nat \<Rightarrow> 'z conn_world_scheme \<Rightarrow> 'z conn_world_scheme res" where
  "TcpConnection_handleRead cbs c st =
     assertInLoopThread st (bindR (conn_deref st c) (\<lambda>x.
       bindR (readFd (inputBuffer x) (sock_read x)) (\<lambda>(n, savedErrno, b).
         let st1 = conn_put st c (x\<lparr>inputBuffer := b\<rparr>) in
         if n > 0 then messageCallback cbs c (pollReturnTime st1) st1
         else if n = 0 then TcpConnection_handleClose cbs c st1
         else Inr st1)))"

definition TcpConnection_handleWrite ::
    "'z conn_world_scheme conn_callbacks \<Rightarrow> nat \<Rightarrow> 'z conn_world_scheme \<Rightarrow> 'z conn_world_scheme res" where
  "TcpConnection_handleWrite cbs c st =
     assertInLoopThread st (bindR (conn_deref st c) (\<lambda>x.
       bindR (chan_deref st (conn_channel x)) (\<lambda>ch.
         if isWriting ch
         then (case write_answer x (readableBytes (outputBuffer x)) of
                 WErr e \<Rightarrow> Inr st
               | WOk n \<Rightarrow>
                   if n > 0
                   then bindR (Buffer_retrieve (outputBuffer x) n) (\<lambda>b.
                     let st1 = conn_put st c (x\<lparr>outputBuffer := b, sock_written := sock_written x @
                                 seg (Buffer_peek (outputBuffer x)) n (buffer (outputBuffer x))\<rparr>) in
                     if readableBytes b = 0
                     then bindR (Channel_disableWriting st1 (conn_channel x)) (\<lambda>st2.
                       let st3 = (if wcb_set cbs then queueInLoop (F_writeComplete c) st2 else st2) in
                       if conn_state x = kDisconnecting then shutdownInLoop c st3 else Inr st3)
                     else Inr st1)
                   else Inr st)
         else Inr st)))"

text \<open>\<open>handleError\<close> reads \<open>SO_ERROR\<close> and logs it.\<close>

definition TcpConnection_handleError ::
    "nat \<Rightarrow> 'z conn_world_scheme \<Rightarrow> 'z conn_world_scheme res" where
  "TcpConnection_handleError c st = bindR (conn_deref st c) (\<lambda>x. Inr st)"

definition defaultMessageCallback ::
    "nat \<Rightarrow> Timestamp \<Rightarrow> 'z conn_world_scheme \<Rightarrow> 'z conn_world_scheme res" where
  "defaultMessageCallback c receiveTime st =
     bindR (conn_deref st c) (\<lambda>x.
       Inr (conn_put st c (x\<lparr>inputBuffer := retrieveAll (inputBuffer x)\<rparr>)))"

definition defaultConnectionCallback ::
    "nat \<Rightarrow> 'z conn_world_scheme \<Rightarrow> 'z conn_world_scheme res" where
  "defaultConnectionCallback c st = bindR (conn_deref st c) (\<lambda>x. Inr st)"

text \<open>The callbacks the constructor binds to the channel, and the functors the connection binds.\<close>

fun conn_channel_callback ::
    "'z conn_world_scheme conn_callbacks \<Rightarrow> nat \<Rightarrow> chan_event \<Rightarrow> 'z conn_world_scheme \<Rightarrow>
     'z conn_world_scheme res" where
  "conn_channel_callback cbs c ReadEv st = TcpConnection_handleRead cbs c st"
| "conn_channel_callback cbs c WriteEv st = TcpConnection_handleWrite cbs c st"
| "conn_channel_callback cbs c CloseEv st = TcpConnection_handleClose cbs c st"
| "conn_channel_callback cbs c ErrorEv st = TcpConnection_handleError c st"

fun exec_conn_functor ::
    "'z conn_world_scheme conn_callbacks \<Rightarrow> Functor \<Rightarrow> 'z conn_world_scheme \<Rightarrow>
     'z conn_world_scheme res" where
  "exec_conn_functor cbs (F_sendInLoop c msg) st = sendInLoop (wcb_set cbs) c msg st"
| "exec_conn_functor cbs (F_shutdownInLoop c) st = shutdownInLoop c st"
| "exec_conn_functor cbs (F_forceCloseInLoop c) st = forceCloseInLoop cbs c st"
| "exec_conn_functor cbs (F_writeComplete c) st =
     (case writeCompleteCallback cbs of None \<Rightarrow> Inl (Thrown ''bad_function_call'') | Some f \<Rightarrow> f c st)"
| "exec_conn_functor cbs (F_connectEstablished c) st = connectEstablished cbs c st"
| "exec_conn_functor cbs (F_connectDestroyed c) st = connectDestroyed cbs c st"
| "exec_conn_functor cbs f st = exec_timer_functor f st"

end
