(* ===== verification/Connection_Safety.thy ===== *)
theory Connection_Safety
  imports TcpConnection "HOL-Library.Sublist"
begin

text \<open>
  Safety of one connection. User code is a script: the list of calls each callback makes on the
  connection, with the data it has read. A step of the system is a call on the connection by user
  code in any thread, a channel event, a pending functor run by the loop thread, or a change of the
  kernel's next answers; the invariant ties the byte stream, the interest in writing and the
  state of the connection together.
\<close>

section \<open>User code\<close>

datatype conn_call = CSend string | CShutdown | CForceClose | CRetrieve nat

record conn_script =
  on_connection :: "StateE \<Rightarrow> conn_call list"
  on_message :: "string \<Rightarrow> conn_call list"
  on_writeComplete :: "conn_call list option"

text \<open>The functors a call runs at once when it is made in the loop thread.\<close>

fun exec_call_functor ::
    "bool \<Rightarrow> Functor \<Rightarrow> 'z conn_world_scheme \<Rightarrow> 'z conn_world_scheme res" where
  "exec_call_functor wcb (F_sendInLoop c msg) st = sendInLoop wcb c msg st"
| "exec_call_functor wcb (F_shutdownInLoop c) st = shutdownInLoop c st"
| "exec_call_functor wcb f st = exec_timer_functor f st"

fun conn_call_exec :: "bool \<Rightarrow> nat \<Rightarrow> conn_call \<Rightarrow> 'z conn_world_scheme \<Rightarrow> 'z conn_world_scheme res" where
  "conn_call_exec wcb c (CSend m) st =
     requireR (length m \<le> vector_max_size) (Thrown ''length_error'')
       (TcpConnection_send (exec_call_functor wcb) c m st)"
| "conn_call_exec wcb c CShutdown st = TcpConnection_shutdown (exec_call_functor wcb) c st"
| "conn_call_exec wcb c CForceClose st = TcpConnection_forceClose c st"
| "conn_call_exec wcb c (CRetrieve n) st =
     bindR (conn_deref st c) (\<lambda>x. bindR (Buffer_retrieve (inputBuffer x) n) (\<lambda>b.
       Inr (conn_put st c (x\<lparr>inputBuffer := b\<rparr>))))"

definition script_wcb :: "conn_script \<Rightarrow> bool" where
  "script_wcb sc \<longleftrightarrow> on_writeComplete sc \<noteq> None"

text \<open>
  The callbacks of a scripted user; the close callback is the one \<open>TcpServer\<close> sets, which queues
  \<open>connectDestroyed\<close> on the connection's loop.
\<close>

definition user_callbacks :: "conn_script \<Rightarrow> 'z conn_world_scheme conn_callbacks" where
  "user_callbacks sc =
     \<lparr>connectionCallback = (\<lambda>c st. bindR (conn_deref st c) (\<lambda>x.
        foldR (conn_call_exec (script_wcb sc) c) (on_connection sc (conn_state x)) st)),
      messageCallback = (\<lambda>c t st. bindR (conn_deref st c) (\<lambda>x.
        foldR (conn_call_exec (script_wcb sc) c) (on_message sc (contents (inputBuffer x))) st)),
      closeCallback = (\<lambda>c st. Inr (queueInLoop (F_connectDestroyed c) st)),
      writeCompleteCallback = map_option (\<lambda>calls c st.
        foldR (conn_call_exec (script_wcb sc) c) calls st) (on_writeComplete sc)\<rparr>"

fun is_retrieve :: "conn_call \<Rightarrow> bool" where
  "is_retrieve (CRetrieve _) = True"
| "is_retrieve _ = False"

inductive conn_step :: "conn_script \<Rightarrow> nat \<Rightarrow> conn_world \<Rightarrow> conn_world \<Rightarrow> bool"
  for sc :: conn_script and c :: nat where
  cs_call: "\<not> is_retrieve call \<or> t = threadId st \<Longrightarrow>
    conn_call_exec (script_wcb sc) c call (st\<lparr>this_thread := t\<rparr>) = Inr st' \<Longrightarrow> conn_step sc c st st'"
| cs_event: "conn_channel_callback (user_callbacks sc) c ev (st\<lparr>this_thread := threadId st\<rparr>) = Inr st' \<Longrightarrow>
    conn_step sc c st st'"
| cs_functor: "pendingFunctors st = f # fs \<Longrightarrow>
    f \<in> {F_shutdownInLoop c, F_forceCloseInLoop c, F_writeComplete c, F_connectEstablished c,
         F_connectDestroyed c} \<union> range (F_sendInLoop c) \<Longrightarrow>
    exec_conn_functor (user_callbacks sc) f (st\<lparr>this_thread := threadId st, pendingFunctors := fs\<rparr>) = Inr st' \<Longrightarrow>
    conn_step sc c st st'"
| cs_established: "connectEstablished (user_callbacks sc) c (st\<lparr>this_thread := threadId st\<rparr>) = Inr st' \<Longrightarrow>
    conn_step sc c st st'"
| cs_write: "conns st c = Some x \<Longrightarrow> conn_step sc c st (conn_put st c (x\<lparr>sock_write := w\<rparr>))"
| cs_read: "conns st c = Some x \<Longrightarrow> length data \<le> vector_max_size \<Longrightarrow>
    conn_step sc c st (conn_put st c (x\<lparr>sock_read := IoOk data\<rparr>))"
| cs_read_err: "conns st c = Some x \<Longrightarrow> conn_step sc c st (conn_put st c (x\<lparr>sock_read := IoErr e\<rparr>))"

definition conn_start :: "nat \<Rightarrow> conn_world \<Rightarrow> bool" where
  "conn_start c st \<longleftrightarrow> (\<exists>st0 l name fd p. loop_inv st0 \<and> pendingFunctors st0 = [] \<and>
     TcpConnection_new (Some l) name fd c p st0 = Inr st)"

section \<open>Invariant\<close>

fun io_small :: "io_result \<Rightarrow> bool" where
  "io_small (IoOk data) \<longleftrightarrow> length data \<le> vector_max_size"
| "io_small (IoErr e) \<longleftrightarrow> True"

definition conn_ok :: "TcpConnection \<Rightarrow> Channel \<Rightarrow> bool" where
  "conn_ok x ch \<longleftrightarrow>
     Buffer_inv (inputBuffer x) \<and> Buffer_inv (outputBuffer x) \<and> io_small (sock_read x) \<and>
     sock_written x @ contents (outputBuffer x) = accepted x \<and>
     (isWriting ch \<longrightarrow> contents (outputBuffer x) \<noteq> []) \<and>
     (conn_state x \<noteq> kDisconnected \<longrightarrow> contents (outputBuffer x) \<noteq> [] \<longrightarrow> isWriting ch) \<and>
     (conn_state x = kConnecting \<or> conn_state x = kConnected \<longrightarrow> \<not> sock_shutdown x) \<and>
     (conn_state x = kDisconnecting \<and> sock_shutdown x \<longrightarrow> contents (outputBuffer x) = [])"

definition pend_ok :: "nat \<Rightarrow> TcpConnection \<Rightarrow> Functor list \<Rightarrow> bool" where
  "pend_ok c x fs \<longleftrightarrow>
     (F_shutdownInLoop c \<in> set fs \<longrightarrow> conn_state x \<in> {kDisconnecting, kDisconnected}) \<and>
     (\<forall>m. F_sendInLoop c m \<in> set fs \<longrightarrow> length m \<le> vector_max_size)"

definition conn_inv :: "nat \<Rightarrow> 'z conn_world_scheme \<Rightarrow> bool" where
  "conn_inv c st \<longleftrightarrow> loop_inv st \<and>
     (\<exists>x ch. conns st c = Some x \<and> chan_store st (conn_channel x) = Some ch \<and> conn_ok x ch \<and>
        pend_ok c x (pendingFunctors st))"

fun state_rank :: "StateE \<Rightarrow> nat" where
  "state_rank kConnecting = 0"
| "state_rank kConnected = 1"
| "state_rank kDisconnecting = 2"
| "state_rank kDisconnected = 3"

text \<open>How a connection changes: its state only advances, its streams only grow.\<close>

definition conn_evolves :: "TcpConnection \<Rightarrow> TcpConnection \<Rightarrow> bool" where
  "conn_evolves x x' \<longleftrightarrow>
     state_rank (conn_state x) \<le> state_rank (conn_state x') \<and>
     prefix (sock_written x) (sock_written x') \<and> prefix (accepted x) (accepted x') \<and>
     (sock_shutdown x \<longrightarrow> sock_shutdown x' \<and> sock_written x' = sock_written x) \<and>
     conn_channel x' = conn_channel x"

definition conn_ext :: "nat \<Rightarrow> 'z conn_world_scheme \<Rightarrow> 'z conn_world_scheme \<Rightarrow> bool" where
  "conn_ext c st st' \<longleftrightarrow> conn_inv c st' \<and>
     (\<forall>x. conns st c = Some x \<longrightarrow> (\<exists>x'. conns st' c = Some x' \<and> conn_evolves x x'))"

lemma conn_evolves_refl [simp]: "conn_evolves x x"
  by (simp add: conn_evolves_def)

lemma conn_evolves_trans: "conn_evolves x y \<Longrightarrow> conn_evolves y z \<Longrightarrow> conn_evolves x z"
  by (auto simp: conn_evolves_def intro: prefix_order.trans)

lemma conn_ext_refl: "conn_inv c st \<Longrightarrow> conn_ext c st st"
  by (auto simp: conn_ext_def)

lemma conn_ext_trans: "conn_ext c s1 s2 \<Longrightarrow> conn_ext c s2 s3 \<Longrightarrow> conn_ext c s1 s3"
  by (fastforce simp: conn_ext_def intro: conn_evolves_trans)

lemma conn_ext_inv: "conn_ext c st st' \<Longrightarrow> conn_inv c st'"
  by (simp add: conn_ext_def)

lemma conn_invE:
  assumes "conn_inv c st"
  obtains x ch where "conns st c = Some x" "chan_store st (conn_channel x) = Some ch" "conn_ok x ch"
    "pend_ok c x (pendingFunctors st)" "loop_inv st"
  using assms by (auto simp: conn_inv_def)

text \<open>The one way the invariant is re-established.\<close>

lemma conn_extI:
  assumes "conns st c = Some x" and "conns st' c = Some x'" and "loop_inv st'"
    and "chan_store st' (conn_channel x') = Some ch'" and "conn_ok x' ch'"
    and "pend_ok c x' (pendingFunctors st')" and "conn_evolves x x'"
  shows "conn_ext c st st'"
  using assms by (auto simp: conn_ext_def conn_inv_def)

section \<open>Effects of the loop's operations\<close>

lemma loop_inv_conns [simp]: "loop_inv (st\<lparr>conns := m\<rparr>) = loop_inv st"
  unfolding loop_inv_def by (subst poller_inv_cong [of _ st]) simp_all

lemma loop_inv_thread [simp]:
  "loop_inv (st\<lparr>this_thread := t\<rparr>) = loop_inv st"
  "loop_inv (st\<lparr>pendingFunctors := fs\<rparr>) = loop_inv st"
  by (simp_all add: loop_inv_def)

lemma conn_put_simps [simp]:
  "conns (conn_put st c x) = (conns st)(c \<mapsto> x)"
  "chan_store (conn_put st c x) = chan_store st"
  "pendingFunctors (conn_put st c x) = pendingFunctors st"
  "loop_inv (conn_put st c x) = loop_inv st"
  "isInLoopThread (conn_put st c x) = isInLoopThread st"
  "pollReturnTime (conn_put st c x) = pollReturnTime st"
  by (simp_all add: conn_put_def isInLoopThread_def)

lemma conn_deref_eq: "conn_deref st c = Inr x \<longleftrightarrow> conns st c = Some x"
  by (auto simp: conn_deref_def split: option.splits)

lemma conn_deref_Some [simp]: "conns st c = Some x \<Longrightarrow> conn_deref st c = Inr x"
  by (simp add: conn_deref_eq)

lemma chan_deref_eq: "chan_deref st p = Inr ch \<longleftrightarrow> chan_store st p = Some ch"
  by (auto simp: chan_deref_def split: option.splits)

lemma queueInLoop_conn [simp]:
  fixes st :: "'z conn_world_scheme"
  shows "conns (queueInLoop f st) = conns st" and "chan_store (queueInLoop f st) = chan_store st"
  by (simp_all add: queueInLoop_def wakeup_def Let_def)

lemma change_events_effect:
  fixes st :: "'z conn_world_scheme"
  assumes "loop_inv st" and "change_events f st p = Inr st'"
  obtains ch ch' where "chan_store st p = Some ch" "chan_store st' = (chan_store st)(p \<mapsto> ch')"
    "ch_events ch' = f (ch_events ch)" "loop_inv st'" "conns st' = conns st"
    "pendingFunctors st' = pendingFunctors st"
proof -
  obtain ch where ch: "chan_store st p = Some ch" "ch_loop ch = loop_id st" "isInLoopThread st"
    "fd_free st ch" using change_events_Inr [OF assms(2)] .
  have st': "st' = update_result st p (ch\<lparr>ch_events := f (ch_events ch), addedToLoop := True\<rparr>)"
    using change_events_eq [OF assms(1) ch, of f] assms(2) by simp
  show ?thesis
    by (rule that [OF ch(1), of "set_index (ch\<lparr>ch_events := f (ch_events ch), addedToLoop := True\<rparr>)
          (if ch_index ch = kAdded \<and> f (ch_events ch) = kNoneEvent then kDeleted else kAdded)"])
      (use change_events_inv [OF assms] in \<open>simp_all add: st' update_result_def isNoneEvent_def\<close>)
qed

lemma Channel_remove_effect:
  fixes st :: "'z conn_world_scheme"
  assumes "loop_inv st" and "Channel_remove st p = Inr st'"
  obtains ch ch' where "chan_store st p = Some ch" "chan_store st' = (chan_store st)(p \<mapsto> ch')"
    "ch_events ch' = ch_events ch" "loop_inv st'" "conns st' = conns st"
    "pendingFunctors st' = pendingFunctors st"
proof -
  obtain ch where ch: "chan_store st p = Some ch" "ch_loop ch = loop_id st" "isInLoopThread st"
    "ch_index ch \<noteq> kNew" "isNoneEvent ch" "eventHandling st \<Longrightarrow> p \<notin> set (activeChannels st)"
    using Channel_remove_Inr [OF assms] by blast
  have st': "st' = chan_put (remove_result st p ch) p (set_index ch kNew\<lparr>addedToLoop := False\<rparr>)"
    using Channel_remove_eq [OF assms(1) ch] assms(2) by simp
  show ?thesis
    by (rule that [OF ch(1), of "set_index ch kNew\<lparr>addedToLoop := False\<rparr>"])
      (use Channel_remove_inv [OF assms] in \<open>simp_all add: st' remove_result_def chan_put_def\<close>)
qed

lemma isWriting_masks:
  "ch_events ch' = mask_enableWriting ev \<Longrightarrow> isWriting ch'"
  "ch_events ch' = mask_disableWriting ev \<Longrightarrow> \<not> isWriting ch'"
  "ch_events ch' = mask_disableAll ev \<Longrightarrow> \<not> isWriting ch'"
  "ch_events ch' = mask_enableReading (ch_events ch) \<Longrightarrow> isWriting ch' = isWriting ch"
  "ch_events ch' = ch_events ch \<Longrightarrow> isWriting ch' = isWriting ch"
  by (simp_all add: isWriting_def enableWriting_isWriting disableWriting_not_isWriting
      enableReading_keeps_writing)

section \<open>Sending\<close>

lemma append_rest_ok:
  fixes st :: "'z conn_world_scheme"
  assumes ok: "append_rest st c message n (int (length message) - n) = Inr st'"
    and L: "loop_inv st" and C: "conns st c = Some x" and H: "chan_store st (conn_channel x) = Some ch"
    and B: "Buffer_inv (inputBuffer x)" "Buffer_inv (outputBuffer x)" "io_small (sock_read x)"
    and strm: "sock_written x @ contents (outputBuffer x) @ drop (nat n) message = accepted x"
    and n: "0 \<le> n" and small: "length message \<le> vector_max_size"
    and act: "conn_state x \<noteq> kDisconnected" and wr: "isWriting ch \<longleftrightarrow> contents (outputBuffer x) \<noteq> []"
    and sh: "\<not> sock_shutdown x"
  shows "\<exists>b ch'. conns st' c = Some (x\<lparr>outputBuffer := b\<rparr>) \<and> chan_store st' (conn_channel x) = Some ch' \<and>
    conn_ok (x\<lparr>outputBuffer := b\<rparr>) ch' \<and> loop_inv st' \<and> pendingFunctors st' = pendingFunctors st"
proof (cases "int (length message) - n > 0")
  case False
  then have "drop (nat n) message = []" by simp
  with False ok C H B strm act wr sh L show ?thesis
    by (intro exI [of _ "outputBuffer x"] exI [of _ ch]) (simp add: append_rest_def conn_ok_def)
next
  case True
  define d where "d = drop (nat n) message"
  have tk: "take (nat (int (length message) - n)) (drop (nat n) message) = d"
    using n by (simp add: d_def)
  have d: "d \<noteq> []" "length d \<le> vector_max_size" using True n small by (auto simp: d_def)
  from ok True C obtain b where b: "Buffer_append (outputBuffer x) d = Inr b"
    and st': "bindR (chan_deref (conn_put st c (x\<lparr>outputBuffer := b\<rparr>)) (conn_channel x)) (\<lambda>ch.
       if \<not> isWriting ch then Channel_enableWriting (conn_put st c (x\<lparr>outputBuffer := b\<rparr>)) (conn_channel x)
       else Inr (conn_put st c (x\<lparr>outputBuffer := b\<rparr>))) = Inr st'"
    by (auto simp: append_rest_def res_iffs tk Let_def)
  let ?x = "x\<lparr>outputBuffer := b\<rparr>" and ?st = "conn_put st c (x\<lparr>outputBuffer := b\<rparr>)"
  have bi: "Buffer_inv b" "contents b = contents (outputBuffer x) @ d"
    using Buffer_append_Inr [OF B(2) d(2) b] by auto
  have okx: "conn_ok ?x ch'" if "isWriting ch'" for ch'
    using that B bi d(1) strm act sh by (simp add: conn_ok_def d_def [symmetric])
  have L1: "loop_inv ?st" using L by simp
  show ?thesis
  proof (cases "isWriting ch")
    case True
    then show ?thesis using st' H L okx by (intro exI [of _ b] exI [of _ ch]) (auto simp: chan_deref_eq)
  next
    case False
    then have e: "change_events mask_enableWriting ?st (conn_channel x) = Inr st'"
      using st' H by (simp add: Channel_enableWriting_def)
    obtain ch1 ch2 where *: "chan_store ?st (conn_channel x) = Some ch1"
      "chan_store st' = (chan_store ?st)(conn_channel x \<mapsto> ch2)"
      "ch_events ch2 = mask_enableWriting (ch_events ch1)" "loop_inv st'" "conns st' = conns ?st"
      "pendingFunctors st' = pendingFunctors ?st"
      using change_events_effect [OF L1 e] by blast
    show ?thesis using * okx [OF isWriting_masks(1) [OF *(3)]] by (intro exI [of _ b] exI [of _ ch2]) simp
  qed
qed

lemma pend_ok_snoc [simp]:
  "pend_ok c x (fs @ [F_writeComplete d]) = pend_ok c x fs"
  "pend_ok c x (fs @ [F_forceCloseInLoop d]) = pend_ok c x fs"
  "pend_ok c x (fs @ [F_connectDestroyed d]) = pend_ok c x fs"
  by (auto simp: pend_ok_def)

lemma pend_ok_state:
  "pend_ok c x fs \<Longrightarrow> state_rank (conn_state x) \<le> state_rank (conn_state x') \<Longrightarrow> pend_ok c x' fs"
  by (cases "conn_state x"; cases "conn_state x'") (auto simp: pend_ok_def)

lemma write_answer_WOk:
  "write_answer x len = WOk k \<Longrightarrow> k \<le> len \<and> \<not> sock_shutdown x"
  by (auto simp: write_answer_def split: if_splits write_result.splits)

lemma readable_0_iff: "Buffer_inv b \<Longrightarrow> readableBytes b = 0 \<longleftrightarrow> contents b = []"
  using length_contents [of b] by auto

lemma sendInLoop_ext:
  fixes st :: "'z conn_world_scheme"
  assumes inv: "conn_inv c st" and ok: "sendInLoop wcb c message st = Inr st'"
    and small: "length message \<le> vector_max_size"
  shows "conn_ext c st st'"
proof -
  obtain x ch where I: "conns st c = Some x" "chan_store st (conn_channel x) = Some ch" "conn_ok x ch"
    "pend_ok c x (pendingFunctors st)" "loop_inv st" using conn_invE [OF inv] .
  show ?thesis
  proof (cases "conn_state x = kDisconnected")
    case True
    then show ?thesis using ok I(1) conn_ext_refl [OF inv]
      by (simp add: sendInLoop_def assertInLoopThread_eq_Inr)
  next
    case act: False
    let ?x1 = "x\<lparr>accepted := accepted x @ message\<rparr>"
    have O: "Buffer_inv (inputBuffer x)" "Buffer_inv (outputBuffer x)" "io_small (sock_read x)"
      "sock_written x @ contents (outputBuffer x) = accepted x"
      "isWriting ch \<longleftrightarrow> contents (outputBuffer x) \<noteq> []"
      using I(3) act by (auto simp: conn_ok_def)
    let ?direct = "\<not> isWriting ch \<and> readableBytes (outputBuffer x) = 0"
    have fin: "conn_ext c st st'" if "\<exists>b ch'. conns st' c = Some (y\<lparr>outputBuffer := b\<rparr>) \<and>
        chan_store st' (conn_channel x) = Some ch' \<and> conn_ok (y\<lparr>outputBuffer := b\<rparr>) ch' \<and> loop_inv st' \<and>
        pendingFunctors st' = fs" "pend_ok c x fs" "conn_evolves x y"
        "conn_state y = conn_state x" "conn_channel y = conn_channel x" for y fs
    proof -
      from that obtain b ch' where b: "conns st' c = Some (y\<lparr>outputBuffer := b\<rparr>)"
        "chan_store st' (conn_channel x) = Some ch'" "conn_ok (y\<lparr>outputBuffer := b\<rparr>) ch'" "loop_inv st'"
        "pendingFunctors st' = fs" by blast
      show ?thesis
        by (rule conn_extI [OF I(1) b(1) b(4) _ b(3)])
          (use b that in \<open>auto simp: conn_evolves_def pend_ok_def\<close>)
    qed
    consider (buffered) "\<not> ?direct" | (wok) k where "?direct" "write_answer x (length message) = WOk k"
      | (werr) e where "?direct" "write_answer x (length message) = WErr e"
      by (cases "write_answer x (length message)") auto
    then show ?thesis
    proof cases
      case buffered
      then have ne: "contents (outputBuffer x) \<noteq> []" using O(2,5) readable_0_iff by auto
      have e: "append_rest (conn_put st c ?x1) c message 0 (int (length message) - 0) = Inr st'"
        using ok I act buffered by (auto simp: sendInLoop_def assertInLoopThread_eq_Inr chan_deref_eq Let_def)
      have sh: "\<not> sock_shutdown x" using I(3) ne act by (cases "conn_state x") (auto simp: conn_ok_def)
      show ?thesis
        by (rule fin [of ?x1 "pendingFunctors st"])
          (use append_rest_ok [OF e, where x = ?x1 and ch = ch] I O small act sh in
            \<open>auto simp: conn_evolves_def\<close>)
    next
      case (wok k)
      then have k: "k \<le> length message" "\<not> sock_shutdown x" using write_answer_WOk by auto
      have nil: "contents (outputBuffer x) = []" using wok O(2) readable_0_iff by auto
      let ?x2 = "?x1\<lparr>sock_written := sock_written x @ take k message\<rparr>"
      let ?s1 = "conn_put st c ?x2"
      let ?s2 = "if int (length message) - int k = 0 \<and> wcb then queueInLoop (F_writeComplete c) ?s1 else ?s1"
      have e: "append_rest ?s2 c message (int k) (int (length message) - int k) = Inr st'"
        using ok I act wok by (auto simp: sendInLoop_def assertInLoopThread_eq_Inr chan_deref_eq Let_def)
      show ?thesis
        by (rule fin [of ?x2 "pendingFunctors ?s2"])
          (use append_rest_ok [OF e, where x = ?x2 and ch = ch] I O small act k nil in
            \<open>auto simp: conn_evolves_def\<close>)
    next
      case (werr e)
      then have e: "append_rest (conn_put st c ?x1) c message (-1) (int (length message)) = Inr st'"
        using ok I act by (auto simp: sendInLoop_def assertInLoopThread_eq_Inr chan_deref_eq Let_def)
      then have m: "message = []" by (auto simp: append_rest_def res_iffs split: if_splits)
      then have "?x1 = x" by simp
      with e m I have "st' = conn_put st c x" by (simp add: append_rest_def)
      then show ?thesis using I by (intro conn_extI [of st c x st' x ch]) auto
    qed
  qed
qed

section \<open>Calls\<close>

lemma conn_put_ext:
  fixes st :: "'z conn_world_scheme"
  assumes "conn_inv c st" and "conns st c = Some x" and "conn_evolves x x'"
    and "\<And>ch. conn_ok x ch \<Longrightarrow> conn_ok x' ch"
  shows "conn_ext c st (conn_put st c x')"
proof -
  obtain ch where I: "chan_store st (conn_channel x) = Some ch" "conn_ok x ch"
    "pend_ok c x (pendingFunctors st)" "loop_inv st"
    using conn_invE [OF assms(1)] assms(2) by auto
  show ?thesis
    by (rule conn_extI [OF assms(2), where x' = x' and ch' = ch])
      (use I assms(3,4) pend_ok_state [OF I(3), of x'] in \<open>auto simp: conn_evolves_def\<close>)
qed

lemma queue_ext:
  fixes st :: "'z conn_world_scheme"
  assumes "conn_inv c st" and "\<And>x. conns st c = Some x \<Longrightarrow> pend_ok c x (pendingFunctors st) \<Longrightarrow>
      pend_ok c x (pendingFunctors st @ [f])"
  shows "conn_ext c st (queueInLoop f st)"
proof -
  obtain x ch where I: "conns st c = Some x" "chan_store st (conn_channel x) = Some ch" "conn_ok x ch"
    "pend_ok c x (pendingFunctors st)" "loop_inv st" using conn_invE [OF assms(1)] .
  show ?thesis
    by (rule conn_extI [OF I(1), where x' = x and ch' = ch]) (use I assms(2) in auto)
qed

lemma setState_ext:
  fixes st :: "'z conn_world_scheme"
  assumes "conn_inv c st" and "setState st c s = Inr st'" and "conns st c = Some x"
    and "state_rank (conn_state x) \<le> state_rank s"
    and "s = kDisconnecting \<Longrightarrow> conn_state x = kConnected" and "s = kConnected \<Longrightarrow> conn_state x = kConnecting"
    and "s \<noteq> kConnecting"
  shows "conn_ext c st st'" and "st' = conn_put st c (x\<lparr>conn_state := s\<rparr>)"
proof -
  show st': "st' = conn_put st c (x\<lparr>conn_state := s\<rparr>)" using assms(2,3) by (simp add: setState_def)
  show "conn_ext c st st'"
    unfolding st' by (rule conn_put_ext [OF assms(1,3)])
      (use assms(4-) in \<open>cases s; auto simp: conn_evolves_def conn_ok_def\<close>)+
qed

lemma shutdownInLoop_ext:
  fixes st :: "'z conn_world_scheme"
  assumes inv: "conn_inv c st" and ok: "shutdownInLoop c st = Inr st'"
    and late: "\<And>x. conns st c = Some x \<Longrightarrow> conn_state x \<in> {kDisconnecting, kDisconnected}"
  shows "conn_ext c st st'"
proof -
  obtain x ch where I: "conns st c = Some x" "chan_store st (conn_channel x) = Some ch" "conn_ok x ch"
    "pend_ok c x (pendingFunctors st)" "loop_inv st" using conn_invE [OF inv] .
  show ?thesis
  proof (cases "isWriting ch")
    case True
    then show ?thesis using ok I conn_ext_refl [OF inv]
      by (simp add: shutdownInLoop_def assertInLoopThread_eq_Inr)
  next
    case False
    then have st': "st' = conn_put st c (x\<lparr>sock_shutdown := True\<rparr>)"
      using ok I by (simp add: shutdownInLoop_def assertInLoopThread_eq_Inr)
    show ?thesis
      by (rule conn_extI [OF I(1), where x' = "x\<lparr>sock_shutdown := True\<rparr>" and ch' = ch])
        (use I late False in \<open>auto simp: st' conn_evolves_def conn_ok_def pend_ok_def\<close>)
  qed
qed

lemma send_ext:
  fixes st :: "'z conn_world_scheme"
  assumes inv: "conn_inv c st" and ok: "TcpConnection_send (exec_call_functor wcb) c m st = Inr st'"
    and small: "length m \<le> vector_max_size"
  shows "conn_ext c st st'"
proof -
  obtain x where x: "conns st c = Some x" using conn_invE [OF inv] .
  show ?thesis
  proof (cases "conn_state x = kConnected \<and> isInLoopThread st")
    case True
    then have "sendInLoop wcb c m st = Inr st'" using ok x by (simp add: TcpConnection_send_def runInLoop_def)
    then show ?thesis by (rule sendInLoop_ext [OF inv _ small])
  next
    case False
    then have "st' = st \<or> st' = queueInLoop (F_sendInLoop c m) st"
      using ok x by (auto simp: TcpConnection_send_def runInLoop_def split: if_splits)
    moreover have "conn_ext c st (queueInLoop (F_sendInLoop c m) st)"
      by (rule queue_ext [OF inv]) (use small in \<open>auto simp: pend_ok_def\<close>)
    ultimately show ?thesis using conn_ext_refl [OF inv] by auto
  qed
qed

lemma shutdown_ext:
  fixes st :: "'z conn_world_scheme"
  assumes inv: "conn_inv c st" and ok: "TcpConnection_shutdown (exec_call_functor wcb) c st = Inr st'"
  shows "conn_ext c st st'"
proof -
  obtain x where x: "conns st c = Some x" using conn_invE [OF inv] .
  show ?thesis
  proof (cases "conn_state x = kConnected")
    case False
    then show ?thesis using ok x conn_ext_refl [OF inv] by (simp add: TcpConnection_shutdown_def)
  next
    case True
    let ?s = "conn_put st c (x\<lparr>conn_state := kDisconnecting\<rparr>)"
    have e1: "conn_ext c st ?s"
      by (rule setState_ext(1) [OF inv _ x, of kDisconnecting]) (use True x in \<open>simp_all add: setState_def\<close>)
    have ok': "runInLoop (exec_call_functor wcb) (F_shutdownInLoop c) ?s = Inr st'"
      using ok x True by (simp add: TcpConnection_shutdown_def setState_def)
    have "conn_ext c ?s st'"
    proof (cases "isInLoopThread ?s")
      case True
      then show ?thesis using ok' conn_ext_inv [OF e1]
        by (intro shutdownInLoop_ext) (auto simp: runInLoop_def)
    next
      case False
      then have "st' = queueInLoop (F_shutdownInLoop c) ?s" using ok' by (simp add: runInLoop_def)
      then show ?thesis using queue_ext [OF conn_ext_inv [OF e1], of "F_shutdownInLoop c"]
        by (auto simp: pend_ok_def)
    qed
    with e1 show ?thesis by (rule conn_ext_trans)
  qed
qed

lemma forceClose_ext:
  fixes st :: "'z conn_world_scheme"
  assumes inv: "conn_inv c st" and ok: "TcpConnection_forceClose c st = Inr st'"
  shows "conn_ext c st st'"
proof -
  obtain x where x: "conns st c = Some x" using conn_invE [OF inv] .
  show ?thesis
  proof (cases "conn_state x = kConnected \<or> conn_state x = kDisconnecting")
    case False
    then show ?thesis using ok x conn_ext_refl [OF inv] by (simp add: TcpConnection_forceClose_def)
  next
    case True
    let ?s = "conn_put st c (x\<lparr>conn_state := kDisconnected\<rparr>)"
    have e1: "conn_ext c st ?s"
      by (rule setState_ext(1) [OF inv _ x, of kDisconnected]) (use True x in \<open>auto simp: setState_def\<close>)
    have "st' = queueInLoop (F_forceCloseInLoop c) ?s"
      using ok x True by (auto simp: TcpConnection_forceClose_def setState_def)
    then have "conn_ext c ?s st'" using queue_ext [OF conn_ext_inv [OF e1]] by simp
    with e1 show ?thesis by (rule conn_ext_trans)
  qed
qed

lemma Buffer_retrieve_Inr:
  "Buffer_inv b \<Longrightarrow> Buffer_retrieve b n = Inr b' \<Longrightarrow> Buffer_inv b' \<and> contents b' = drop n (contents b) \<and>
   n \<le> length (contents b)"
  using Buffer_retrieve_spec [of b n] Buffer_retrieve_fails [of b n]
  by (cases "n \<le> length (contents b)") auto

lemma call_ext:
  fixes st :: "'z conn_world_scheme"
  assumes inv: "conn_inv c st" and ok: "conn_call_exec wcb c call st = Inr st'"
  shows "conn_ext c st st'"
proof (cases call)
  case (CSend m)
  then show ?thesis using ok send_ext [OF inv] by (auto simp: requireR_eq_Inr)
next
  case CShutdown
  then show ?thesis using ok shutdown_ext [OF inv] by simp
next
  case CForceClose
  then show ?thesis using ok forceClose_ext [OF inv] by simp
next
  case (CRetrieve n)
  then obtain x b where x: "conns st c = Some x" "Buffer_retrieve (inputBuffer x) n = Inr b"
    "st' = conn_put st c (x\<lparr>inputBuffer := b\<rparr>)"
    using ok by (auto simp: bindR_eq_Inr conn_deref_eq)
  show ?thesis
    unfolding x(3) by (rule conn_put_ext [OF inv x(1)])
      (use x(2) Buffer_retrieve_Inr in \<open>auto simp: conn_evolves_def conn_ok_def\<close>)
qed

lemma calls_ext:
  fixes st :: "'z conn_world_scheme"
  assumes "conn_inv c st" and "foldR (conn_call_exec wcb c) calls st = Inr st'"
  shows "conn_ext c st st'"
  using assms
proof (induction calls arbitrary: st)
  case Nil
  then show ?case by (simp add: conn_ext_refl)
next
  case (Cons a calls)
  then obtain s1 where s1: "conn_call_exec wcb c a st = Inr s1" "foldR (conn_call_exec wcb c) calls s1 = Inr st'"
    by (auto simp: bindR_eq_Inr)
  have e: "conn_ext c st s1" by (rule call_ext [OF Cons.prems(1) s1(1)])
  from conn_ext_trans [OF e Cons.IH [OF conn_ext_inv [OF e] s1(2)]] show ?case .
qed

section \<open>Events and functors\<close>

lemma disableAll_ext:
  fixes st :: "'z conn_world_scheme"
  assumes inv: "conn_inv c st" and x: "conns st c = Some x" "conn_state x = kDisconnected"
    and ok: "Channel_disableAll st (conn_channel x) = Inr st'"
  shows "conn_ext c st st'"
proof -
  obtain ch where I: "chan_store st (conn_channel x) = Some ch" "conn_ok x ch"
    "pend_ok c x (pendingFunctors st)" "loop_inv st" using conn_invE [OF inv] x by auto
  obtain ch1 ch2 where *: "chan_store st (conn_channel x) = Some ch1"
      "chan_store st' = (chan_store st)(conn_channel x \<mapsto> ch2)"
      "ch_events ch2 = mask_disableAll (ch_events ch1)" "loop_inv st'" "conns st' = conns st"
      "pendingFunctors st' = pendingFunctors st"
    using change_events_effect [OF I(4)] ok unfolding Channel_disableAll_def by blast
  show ?thesis
    by (rule conn_extI [OF x(1), where x' = x and ch' = ch2])
      (use * I x isWriting_masks(3) [OF *(3)] in \<open>auto simp: conn_ok_def\<close>)
qed

lemma handleWrite_ext:
  fixes st :: "'z conn_world_scheme"
  assumes inv: "conn_inv c st" and ok: "TcpConnection_handleWrite cbs c st = Inr st'"
  shows "conn_ext c st st'"
proof -
  obtain x ch where I: "conns st c = Some x" "chan_store st (conn_channel x) = Some ch" "conn_ok x ch"
    "pend_ok c x (pendingFunctors st)" "loop_inv st" using conn_invE [OF inv] .
  have O: "Buffer_inv (outputBuffer x)" using I(3) by (simp add: conn_ok_def)
  show ?thesis
  proof (cases "isWriting ch \<and> (\<exists>n>0. write_answer x (readableBytes (outputBuffer x)) = WOk n)")
    case False
    then have "st' = st" using ok I
      by (cases "write_answer x (readableBytes (outputBuffer x))")
        (auto simp: TcpConnection_handleWrite_def assertInLoopThread_eq_Inr split: if_splits)
    then show ?thesis using conn_ext_refl [OF inv] by simp
  next
    case True
    then obtain n where n: "0 < n" "write_answer x (readableBytes (outputBuffer x)) = WOk n" by blast
    note wa = write_answer_WOk [OF n(2)]
    from ok I True n obtain b where b: "Buffer_retrieve (outputBuffer x) n = Inr b"
      by (auto simp: TcpConnection_handleWrite_def assertInLoopThread_eq_Inr bindR_eq_Inr)
    let ?x = "x\<lparr>outputBuffer := b, sock_written := sock_written x @
               seg (Buffer_peek (outputBuffer x)) n (buffer (outputBuffer x))\<rparr>"
    let ?s1 = "conn_put st c ?x"
    have bi: "Buffer_inv b" "contents b = drop n (contents (outputBuffer x))"
      using Buffer_retrieve_Inr [OF O b] by auto
    have seg: "seg (Buffer_peek (outputBuffer x)) n (buffer (outputBuffer x)) = take n (contents (outputBuffer x))"
      using wa readableBytes_eq [OF O] by (simp add: contents_def take_seg Buffer_peek_def min_def)
    have strm: "sock_written ?x @ contents b = accepted x"
      using I(3) by (simp add: seg bi(2) conn_ok_def)
    have base: "Buffer_inv (inputBuffer x)" "io_small (sock_read x)" using I(3) by (auto simp: conn_ok_def)
    have okx: "conn_ok ?x ch'" if "isWriting ch' \<longleftrightarrow> contents b \<noteq> []" for ch'
      using that base bi strm wa by (simp add: conn_ok_def)
    have ev: "conn_evolves x ?x" using wa by (simp add: conn_evolves_def)
    show ?thesis
    proof (cases "readableBytes b = 0")
      case False
      then have "st' = ?s1" using ok I True n b
        by (auto simp: TcpConnection_handleWrite_def assertInLoopThread_eq_Inr Let_def)
      moreover have "conn_ok ?x ch" using False True readable_0_iff [OF bi(1)] by (intro okx) simp
      ultimately show ?thesis using I ev
        by (intro conn_extI [OF I(1), where x' = ?x and ch' = ch]) (auto simp: pend_ok_def)
    next
      case empty: True
      from ok I True n b empty obtain s2 where s2: "Channel_disableWriting ?s1 (conn_channel x) = Inr s2"
        and fin: "(let s3 = (if wcb_set cbs then queueInLoop (F_writeComplete c) s2 else s2) in
          if conn_state x = kDisconnecting then shutdownInLoop c s3 else Inr s3) = Inr st'"
        by (auto simp: TcpConnection_handleWrite_def assertInLoopThread_eq_Inr Let_def bindR_eq_Inr)
      let ?s3 = "if wcb_set cbs then queueInLoop (F_writeComplete c) s2 else s2"
      have L1: "loop_inv ?s1" using I(5) by simp
      obtain ch1 ch2 where *: "chan_store ?s1 (conn_channel x) = Some ch1"
          "chan_store s2 = (chan_store ?s1)(conn_channel x \<mapsto> ch2)"
          "ch_events ch2 = mask_disableWriting (ch_events ch1)" "loop_inv s2" "conns s2 = conns ?s1"
          "pendingFunctors s2 = pendingFunctors ?s1"
        using change_events_effect [OF L1] s2 unfolding Channel_disableWriting_def by blast
      have "conn_ok ?x ch2" using empty readable_0_iff [OF bi(1)] isWriting_masks(2) [OF *(3)] by (intro okx) simp
      then have e3: "conn_ext c st ?s3" using I ev *
        by (intro conn_extI [OF I(1), where x' = ?x and ch' = ch2]) (auto simp: pend_ok_def)
      show ?thesis
      proof (cases "conn_state x = kDisconnecting")
        case True
        then have "conn_ext c ?s3 st'" using fin *(5)
          by (intro shutdownInLoop_ext [OF conn_ext_inv [OF e3]]) (auto simp: Let_def split: if_splits)
        with e3 show ?thesis by (rule conn_ext_trans)
      next
        case False
        then show ?thesis using fin e3 by (simp add: Let_def)
      qed
    qed
  qed
qed

section \<open>The system\<close>

lemma conn_inv_thread [simp]: "conn_inv c (st\<lparr>this_thread := t\<rparr>) = conn_inv c st"
  by (simp add: conn_inv_def)

lemma conn_inv_pop:
  assumes "conn_inv c st" and "pendingFunctors st = f # fs"
  shows "conn_inv c (st\<lparr>this_thread := t, pendingFunctors := fs\<rparr>)"
  using assms by (auto simp: conn_inv_def pend_ok_def)

lemma conn_ext_same_conns:
  "conns st1 = conns st \<Longrightarrow> conn_ext c st1 st' \<Longrightarrow> conn_ext c st st'"
  by (simp add: conn_ext_def)

section \<open>The user of a connection\<close>

text \<open>
  What the connection needs of whoever provides its callbacks: each of them, when it returns, has
  kept the connection's invariant and only advanced the connection. Everything the connection then
  does in answer to an event or in a functor has the same property.
\<close>

locale conn_user =
  fixes cbs :: "'z conn_world_scheme conn_callbacks" and c :: nat
  assumes on_connect: "conn_inv c st \<Longrightarrow> connectionCallback cbs c st = Inr st' \<Longrightarrow> conn_ext c st st'"
    and on_message_keeps: "conn_inv c st \<Longrightarrow> messageCallback cbs c t st = Inr st' \<Longrightarrow> conn_ext c st st'"
    and on_close: "conn_inv c st \<Longrightarrow> closeCallback cbs c st = Inr st' \<Longrightarrow> conn_ext c st st'"
    and on_complete: "conn_inv c st \<Longrightarrow> writeCompleteCallback cbs = Some f \<Longrightarrow> f c st = Inr st' \<Longrightarrow> conn_ext c st st'"
begin

lemma handleClose_ext:
  fixes st :: "'z conn_world_scheme"
  assumes inv: "conn_inv c st" and ok: "TcpConnection_handleClose cbs c st = Inr st'"
  shows "conn_ext c st st'"
proof -
  obtain x where x: "conns st c = Some x" using conn_invE [OF inv] .
  let ?s1 = "conn_put st c (x\<lparr>conn_state := kDisconnected\<rparr>)"
  from ok x obtain s2 s3 where s: "conn_state x = kConnected \<or> conn_state x = kDisconnecting"
    "Channel_disableAll ?s1 (conn_channel x) = Inr s2"
    "connectionCallback cbs c s2 = Inr s3" "closeCallback cbs c s3 = Inr st'"
    by (auto simp: TcpConnection_handleClose_def assertInLoopThread_eq_Inr res_iffs setState_def)
  have e1: "conn_ext c st ?s1"
    by (rule setState_ext(1) [OF inv _ x, of kDisconnected]) (use s(1) x in \<open>auto simp: setState_def\<close>)
  have e2: "conn_ext c ?s1 s2"
    by (rule disableAll_ext [OF conn_ext_inv [OF e1], where x = "x\<lparr>conn_state := kDisconnected\<rparr>"])
      (use s(2) in simp_all)
  note e3 = on_connect [OF conn_ext_inv [OF e2] s(3)]
  note e4 = on_close [OF conn_ext_inv [OF e3] s(4)]
  show ?thesis using e1 e2 e3 e4 by (blast intro: conn_ext_trans)
qed

lemma handleRead_ext:
  fixes st :: "'z conn_world_scheme"
  assumes inv: "conn_inv c st" and ok: "TcpConnection_handleRead cbs c st = Inr st'"
  shows "conn_ext c st st'"
proof -
  obtain x ch where I: "conns st c = Some x" "chan_store st (conn_channel x) = Some ch" "conn_ok x ch"
    using conn_invE [OF inv] .
  from ok I obtain n e b where r: "readFd (inputBuffer x) (sock_read x) = Inr (n, e, b)"
    and rest: "(let s1 = conn_put st c (x\<lparr>inputBuffer := b\<rparr>) in
       if n > 0 then messageCallback cbs c (pollReturnTime s1) s1
       else if n = 0 then TcpConnection_handleClose cbs c s1 else Inr s1) = Inr st'"
    by (auto simp: TcpConnection_handleRead_def assertInLoopThread_eq_Inr bindR_eq_Inr)
  have "Buffer_inv b"
  proof (cases "sock_read x")
    case (IoErr err)
    then show ?thesis using r I(3) by (auto simp: readFd_def conn_ok_def)
  next
    case (IoOk data)
    then show ?thesis using r I(3) readFd_Inr [of "inputBuffer x" data n e b] by (simp add: conn_ok_def)
  qed
  then have e1: "conn_ext c st (conn_put st c (x\<lparr>inputBuffer := b\<rparr>))"
    by (intro conn_put_ext [OF inv I(1)]) (auto simp: conn_evolves_def conn_ok_def)
  show ?thesis
    using rest conn_ext_trans [OF e1] on_message_keeps [OF conn_ext_inv [OF e1]]
      handleClose_ext [OF conn_ext_inv [OF e1]] e1
    by (auto simp: Let_def split: if_splits)
qed

lemma connectEstablished_ext:
  fixes st :: "'z conn_world_scheme"
  assumes inv: "conn_inv c st" and ok: "connectEstablished cbs c st = Inr st'"
  shows "conn_ext c st st'"
proof -
  obtain x ch where I: "conns st c = Some x" "chan_store st (conn_channel x) = Some ch" "conn_ok x ch"
    "pend_ok c x (pendingFunctors st)" "loop_inv st" using conn_invE [OF inv] .
  let ?x = "x\<lparr>conn_state := kConnected\<rparr>"
  let ?s1 = "chan_put (conn_put st c ?x) (conn_channel x) (Channel_tie ch)"
  from ok I obtain s2 where s: "conn_state x = kConnecting"
    "Channel_enableReading ?s1 (conn_channel x) = Inr s2"
    "connectionCallback cbs c s2 = Inr st'"
    by (auto simp: connectEstablished_def assertInLoopThread_eq_Inr res_iffs setState_def)
  have "poller_inv ?s1"
    by (rule chan_put_inv [where ch = ch]) (use I in \<open>auto simp: loop_inv_def conn_put_def Channel_tie_def
        intro: poller_inv_cong [THEN iffD1, rotated 4]\<close>)
  then have L1: "loop_inv ?s1" using I(5) by (simp add: loop_inv_def conn_put_def)
  obtain ch1 ch2 where *: "chan_store ?s1 (conn_channel x) = Some ch1"
      "chan_store s2 = (chan_store ?s1)(conn_channel x \<mapsto> ch2)"
      "ch_events ch2 = mask_enableReading (ch_events ch1)" "loop_inv s2" "conns s2 = conns ?s1"
      "pendingFunctors s2 = pendingFunctors ?s1"
    using change_events_effect [OF L1] s(2) unfolding Channel_enableReading_def by blast
  have w: "isWriting ch2 = isWriting ch"
    using isWriting_masks(4) [OF *(3)] *(1) by (auto simp: isWriting_def Channel_tie_def)
  have "conn_ext c st s2"
    by (rule conn_extI [OF I(1), where x' = ?x and ch' = ch2])
      (use I * w s(1) in \<open>auto simp: conn_ok_def pend_ok_def conn_evolves_def chan_put_def conn_put_def\<close>)
  from conn_ext_trans [OF this on_connect [OF conn_ext_inv [OF this] s(3)]] show ?thesis .
qed

lemma connectDestroyed_ext:
  fixes st :: "'z conn_world_scheme"
  assumes inv: "conn_inv c st" and ok: "connectDestroyed cbs c st = Inr st'"
  shows "conn_ext c st st'"
proof -
  obtain x where x: "conns st c = Some x" using conn_invE [OF inv] .
  from ok x obtain s2 where s2: "(if conn_state x = kConnected
        then bindR (setState st c kDisconnected) (\<lambda>st1.
               bindR (Channel_disableAll st1 (conn_channel x)) (connectionCallback cbs c))
        else Inr st) = Inr s2" and rm: "Channel_remove s2 (conn_channel x) = Inr st'"
    by (auto simp: connectDestroyed_def assertInLoopThread_eq_Inr bindR_eq_Inr)
  have e: "conn_ext c st s2"
  proof (cases "conn_state x = kConnected")
    case True
    let ?s1 = "conn_put st c (x\<lparr>conn_state := kDisconnected\<rparr>)"
    from True s2 x obtain s where s: "Channel_disableAll ?s1 (conn_channel x) = Inr s"
      "connectionCallback cbs c s = Inr s2" by (auto simp: bindR_eq_Inr setState_def)
    have e1: "conn_ext c st ?s1"
      by (rule setState_ext(1) [OF inv _ x, of kDisconnected]) (use True x in \<open>auto simp: setState_def\<close>)
    have e2: "conn_ext c ?s1 s"
      by (rule disableAll_ext [OF conn_ext_inv [OF e1], where x = "x\<lparr>conn_state := kDisconnected\<rparr>"])
        (use s(1) in simp_all)
    note e3 = on_connect [OF conn_ext_inv [OF e2] s(2)]
    show ?thesis using e1 e2 e3 by (blast intro: conn_ext_trans)
  next
    case False
    then show ?thesis using s2 conn_ext_refl [OF inv] by simp
  qed
  obtain x2 ch where I: "conns s2 c = Some x2" "chan_store s2 (conn_channel x2) = Some ch" "conn_ok x2 ch"
    "pend_ok c x2 (pendingFunctors s2)" "loop_inv s2" using conn_invE [OF conn_ext_inv [OF e]] .
  have same: "conn_channel x2 = conn_channel x" using e x I(1) by (auto simp: conn_ext_def conn_evolves_def)
  obtain ch1 ch2 where *: "chan_store s2 (conn_channel x) = Some ch1"
      "chan_store st' = (chan_store s2)(conn_channel x \<mapsto> ch2)" "ch_events ch2 = ch_events ch1"
      "loop_inv st'" "conns st' = conns s2" "pendingFunctors st' = pendingFunctors s2"
    using Channel_remove_effect [OF I(5) rm] by blast
  have "conn_ext c s2 st'"
    by (rule conn_extI [OF I(1), where x' = x2 and ch' = ch2])
      (use I * same isWriting_masks(5) [OF *(3)] in \<open>auto simp: conn_ok_def\<close>)
  with e show ?thesis by (rule conn_ext_trans)
qed

lemma functor_ext:
  fixes st :: "'z conn_world_scheme"
  assumes inv: "conn_inv c st" and p: "pend_ok c x (f # fs)" and x: "conns st c = Some x"
    and f: "f \<in> {F_shutdownInLoop c, F_forceCloseInLoop c, F_writeComplete c, F_connectEstablished c,
         F_connectDestroyed c} \<union> range (F_sendInLoop c)"
    and ok: "exec_conn_functor cbs f st = Inr st'"
  shows "conn_ext c st st'"
proof -
  from f consider "f = F_shutdownInLoop c" | "f = F_forceCloseInLoop c" | "f = F_writeComplete c"
    | "f = F_connectEstablished c" | "f = F_connectDestroyed c" | m where "f = F_sendInLoop c m" by blast
  then show ?thesis
  proof cases
    case 1
    then show ?thesis using ok p x by (intro shutdownInLoop_ext [OF inv]) (auto simp: pend_ok_def)
  next
    case 2
    then show ?thesis using ok x handleClose_ext [OF inv] conn_ext_refl [OF inv]
      by (auto simp: forceCloseInLoop_def split: if_splits)
  next
    case 3
    then show ?thesis using ok on_complete [OF inv]
      by (cases "writeCompleteCallback cbs") auto
  next
    case 4
    then show ?thesis using ok connectEstablished_ext [OF inv] by simp
  next
    case 5
    then show ?thesis using ok connectDestroyed_ext [OF inv] by simp
  next
    case (6 m)
    then show ?thesis using ok p by (intro sendInLoop_ext [OF inv]) (auto simp: pend_ok_def)
  qed
qed

lemma event_ext:
  fixes st :: "'z conn_world_scheme"
  assumes inv: "conn_inv c st" and ok: "conn_channel_callback cbs c ev st = Inr st'"
  shows "conn_ext c st st'"
proof (cases ev)
  case ErrorEv
  then have "st' = st" using ok by (auto simp: TcpConnection_handleError_def bindR_eq_Inr)
  then show ?thesis using conn_ext_refl [OF inv] by simp
qed (use ok handleClose_ext [OF inv] handleRead_ext [OF inv] handleWrite_ext [OF inv] in auto)

end

lemma user_callbacks_ext:
  fixes st :: "'z conn_world_scheme"
  assumes "conn_inv c st"
  shows "connectionCallback (user_callbacks sc) c st = Inr st' \<Longrightarrow> conn_ext c st st'"
    and "messageCallback (user_callbacks sc) c t st = Inr st' \<Longrightarrow> conn_ext c st st'"
    and "closeCallback (user_callbacks sc) c st = Inr st' \<Longrightarrow> conn_ext c st st'"
    and "writeCompleteCallback (user_callbacks sc) = Some f \<Longrightarrow> f c st = Inr st' \<Longrightarrow> conn_ext c st st'"
  using calls_ext [OF assms] queue_ext [OF assms, of "F_connectDestroyed c"]
  by (auto simp: user_callbacks_def bindR_eq_Inr)

interpretation scripted: conn_user "user_callbacks sc" c for sc c
  using user_callbacks_ext by unfold_locales

section \<open>Steps\<close>

lemma conn_step_ext:
  assumes inv: "conn_inv c st" and step: "conn_step sc c st st'"
  shows "conn_ext c st st'"
  using step
proof cases
  case (cs_call call t)
  show ?thesis
    by (rule conn_ext_same_conns [OF _ call_ext [OF _ cs_call(2)]]) (use inv in simp_all)
next
  case (cs_functor f fs)
  obtain x where x: "conns st c = Some x" "pend_ok c x (pendingFunctors st)" using conn_invE [OF inv] .
  show ?thesis
    by (rule conn_ext_same_conns [OF _ scripted.functor_ext [OF conn_inv_pop [OF inv cs_functor(1)] _ _ cs_functor(2,3)]])
      (use x cs_functor(1) in simp_all)
next
  case (cs_event ev)
  show ?thesis
    by (rule conn_ext_same_conns [OF _ scripted.event_ext [OF _ cs_event]]) (use inv in simp_all)
next
  case cs_established
  show ?thesis
    by (rule conn_ext_same_conns [OF _ scripted.connectEstablished_ext [OF _ cs_established]]) (use inv in simp_all)
next
  case (cs_write x w)
  then show ?thesis using conn_put_ext [OF inv cs_write(2)] by (auto simp: conn_evolves_def conn_ok_def)
next
  case (cs_read x data)
  then show ?thesis using conn_put_ext [OF inv cs_read(2)] by (auto simp: conn_evolves_def conn_ok_def)
next
  case (cs_read_err x e)
  then show ?thesis using conn_put_ext [OF inv cs_read_err(2)] by (auto simp: conn_evolves_def conn_ok_def)
qed

lemma conn_start_inv:
  assumes "conn_start c st"
  shows "conn_inv c st"
proof -
  from assms obtain st0 l name fd p where s: "loop_inv st0" "pendingFunctors st0 = []"
    "TcpConnection_new (Some l) name fd c p st0 = Inr st" by (auto simp: conn_start_def)
  define ch where "ch = Channel_setErrorCallback (Channel_setCloseCallback (Channel_setWriteCallback
       (Channel_setReadCallback (Channel_new l fd))))"
  from s(3) obtain st1 where st1: "new_Channel st0 p ch = Inr st1" and st: "conns st1 c = None"
    by (auto simp: TcpConnection_new_def CheckLoopNotNull_def res_iffs ch_def)
  have fresh: "ch_index ch = kNew" "ch_events ch = kNoneEvent" "ch_events ch = 0"
    by (simp_all add: ch_def Channel_setErrorCallback_def Channel_setCloseCallback_def
        Channel_setWriteCallback_def Channel_setReadCallback_def Channel_new_def kNew_def kNoneEvent_def)
  have "loop_inv st1" by (rule new_Channel_inv [OF s(1) st1 fresh(1,2)])
  moreover have "st1 = chan_put st0 p ch" using st1 by (simp add: new_Channel_def requireR_eq_Inr)
  moreover have "Buffer_inv (Buffer_new kInitialSize)"
    by (rule Buffer_new_inv) (simp add: kInitialSize_def buffer_defs)
  ultimately show ?thesis using s st st1 fresh(3)
    by (auto simp: TcpConnection_new_def CheckLoopNotNull_def res_iffs ch_def [symmetric] conn_inv_def
        conn_ok_def pend_ok_def isWriting_def chan_put_def)
qed

interpretation cn: invariant_system "conn_start c" "conn_step sc c" "conn_inv c" for sc c
  by unfold_locales (auto intro: conn_start_inv dest: conn_step_ext conn_ext_inv)

lemma conn_steps_ext:
  assumes "(conn_step sc c)\<^sup>*\<^sup>* st st'" and "conn_inv c st"
  shows "conn_ext c st st'"
  using assms
proof (induction rule: rtranclp_induct)
  case base
  then show ?case by (simp add: conn_ext_refl)
next
  case (step y z)
  then show ?case using conn_step_ext [OF conn_ext_inv step(2)] conn_ext_trans by blast
qed

section \<open>A concrete connection\<close>

text \<open>A loop and a connection on it, made by the constructors.\<close>

definition demo_world :: conn_world where
  "demo_world =
     \<lparr>loop_id = 1, threadId = 7, this_thread = 7, chan_store = Map.empty, channels = Map.empty,
      events_size = 16, epoll_set = Map.empty, epoll_ctl_fails = linux_epoll_fails, looping = True,
      quit = False, eventHandling = False, callingPendingFunctors = False,
      pollReturnTime = Timestamp 0, timerQueue = TimerQueue_new, timerfdChannel = 10,
      wakeupChannel = 11, wakeup_counter = 0, activeChannels = [], pendingFunctors = [],
      clock = Timestamp 0, conns = Map.empty\<rparr>"

definition idle_script :: conn_script where
  "idle_script = \<lparr>on_connection = (\<lambda>s. []), on_message = (\<lambda>m. []), on_writeComplete = None\<rparr>"

definition demo_new :: "conn_world res" where
  "demo_new = TcpConnection_new (Some 1) ''c'' 6 1 20 demo_world"

text \<open>The kernel takes ten bytes at a time; the connection is established, sends, shuts down.\<close>

definition demo_answer :: "conn_world \<Rightarrow> conn_world res" where
  "demo_answer st = bindR (conn_deref st 1) (\<lambda>x. Inr (conn_put st 1 (x\<lparr>sock_write := WOk 10\<rparr>)))"

definition demo_established :: "conn_world res" where
  "demo_established =
     bindR demo_new (\<lambda>st. bindR (demo_answer st) (connectEstablished (user_callbacks idle_script) 1))"

definition demo_sent :: "conn_world res" where
  "demo_sent = bindR demo_established (conn_call_exec False 1 (CSend ''hi''))"

definition demo_shut :: "conn_world res" where
  "demo_shut = bindR demo_sent (conn_call_exec False 1 CShutdown)"

lemma demo_world_inv: "loop_inv demo_world" "pendingFunctors demo_world = []"
  by (simp_all add: demo_world_def loop_inv_def poller_inv_def linux_epoll_contract registered_def fun_eq_iff)

lemma demo_new_start: "demo_new = Inr st \<Longrightarrow> conn_start 1 st"
  unfolding demo_new_def conn_start_def using demo_world_inv by blast

lemmas demo_eval = demo_new_def demo_answer_def demo_established_def demo_sent_def demo_shut_def
  demo_world_def TcpConnection_new_def CheckLoopNotNull_def new_Channel_def conn_put_def
  conn_deref_def connectEstablished_def setState_def Channel_tie_def Channel_enableReading_def
  Channel_disableAll_def change_events_def Channel_update_def EventLoop_updateChannel_def
  EPollPoller_updateChannel_def EPollPoller_update_def Let_def assertR_def assertInLoopThread_def
  isInLoopThread_def chan_deref_def chan_put_def Channel_new_def Channel_setReadCallback_def
  Channel_setErrorCallback_def Channel_setCloseCallback_def Channel_setWriteCallback_def
  index_defs set_index_def linux_epoll_fails_def user_callbacks_def idle_script_def
  TcpConnection_send_def TcpConnection_shutdown_def runInLoop_def sendInLoop_def shutdownInLoop_def
  isWriting_def has_def mask_enableReading_def kReadEvent_def kWriteEvent_def poll_flags
  readableBytes_def Buffer_new_def szsub_def kCheapPrepend_def write_answer_def append_rest_def
  vector_max_size_def kNoneEvent_def isNoneEvent_def

lemma demo_shut_ok: "\<not> isl demo_shut"
  by (simp add: demo_eval)

lemma demo_shut_conn:
  "demo_shut = Inr st \<Longrightarrow> \<exists>x. conns st 1 = Some x \<and> conn_state x = kDisconnecting \<and> sock_shutdown x \<and>
     accepted x = ''hi''"
  by (auto simp: demo_eval)

lemma demo_steps:
  "\<exists>s1 s4. demo_shut = Inr s4 \<and> conn_start 1 s1 \<and> (conn_step idle_script 1)\<^sup>*\<^sup>* s1 s4"
proof -
  obtain s4 where s4: "demo_shut = Inr s4" using demo_shut_ok not_isl_Inr by blast
  then obtain s1 s1' s2 s3 where
    s: "demo_new = Inr s1" "demo_answer s1 = Inr s1'" "connectEstablished (user_callbacks idle_script) 1 s1' = Inr s2"
      "conn_call_exec False 1 (CSend ''hi'') s2 = Inr s3" "conn_call_exec False 1 CShutdown s3 = Inr s4"
    unfolding demo_shut_def demo_sent_def demo_established_def bindR_eq_Inr by blast
  have t: "this_thread s1' = threadId s1'" "this_thread s2 = threadId s2" "this_thread s3 = threadId s3"
    using s(1-4) by (auto simp: demo_eval)
  have keep: "st\<lparr>this_thread := threadId st\<rparr> = st" if "this_thread st = threadId st" for st :: conn_world
    using that by (cases st) simp
  have "conn_step idle_script 1 s1 s1'"
    using s(2) by (auto simp: demo_answer_def bindR_eq_Inr conn_deref_eq intro: cs_write)
  moreover have "conn_step idle_script 1 s1' s2"
    by (rule cs_established) (unfold keep [OF t(1)], rule s(3))
  moreover have "conn_step idle_script 1 s2 s3"
    by (rule cs_call [where t = "threadId s2" and call = "CSend ''hi''"])
      (use s(4) keep [OF t(2)] in \<open>simp_all add: script_wcb_def idle_script_def\<close>)
  moreover have "conn_step idle_script 1 s3 s4"
    by (rule cs_call [where t = "threadId s3" and call = CShutdown])
      (use s(5) keep [OF t(3)] in \<open>simp_all add: script_wcb_def idle_script_def\<close>)
  ultimately have "(conn_step idle_script 1)\<^sup>*\<^sup>* s1 s4"
    by (meson converse_rtranclp_into_rtranclp rtranclp.rtrancl_refl)
  with s4 demo_new_start [OF s(1)] show ?thesis by blast
qed

lemma reachable_steps:
  "step\<^sup>*\<^sup>* s t \<Longrightarrow> reachable start step s \<Longrightarrow> reachable start step t"
  by (induction rule: rtranclp_induct) (auto intro: reach_step)

section \<open>Properties\<close>

text \<open>C2. The bytes of a connection leave in order and none is lost or duplicated: in every
  reachable state the bytes the kernel has taken followed by the bytes in the output buffer are the
  messages accepted by \<open>sendInLoop\<close>, in order; and while the connection is not disconnected the
  channel waits for writability exactly when the output buffer is not empty.\<close>

theorem conn_stream_in_order:
  assumes "reachable (conn_start c) (conn_step sc c) st"
  shows "\<exists>x ch. conns st c = Some x \<and> chan_store st (conn_channel x) = Some ch \<and>
    sock_written x @ contents (outputBuffer x) = accepted x \<and>
    (conn_state x = kDisconnected \<or> (isWriting ch \<longleftrightarrow> contents (outputBuffer x) \<noteq> []))"
  using cn.reachable_inv [OF assms] by (auto simp: conn_inv_def conn_ok_def)

theorem conn_stream_in_order_witness:
  "\<exists>st x. reachable (conn_start 1) (conn_step idle_script 1) st \<and> conns st 1 = Some x \<and>
    sock_written x @ contents (outputBuffer x) = accepted x"
proof -
  obtain st where "conn_start 1 st" using demo_steps by blast
  then have r: "reachable (conn_start 1) (conn_step idle_script 1) st" by (rule reach_start)
  from r conn_stream_in_order [OF r] show ?thesis by blast
qed

text \<open>C8. \<open>shutdown()\<close> waits for the output: when a disconnecting connection has shut its socket
  down, every byte accepted has been written before, and none is written afterwards.\<close>

theorem shutdown_after_drain:
  assumes "reachable (conn_start c) (conn_step sc c) st" and "conns st c = Some x"
    and "conn_state x = kDisconnecting" and "sock_shutdown x"
  shows "sock_written x = accepted x \<and>
    (\<forall>st' x'. (conn_step sc c)\<^sup>*\<^sup>* st st' \<longrightarrow> conns st' c = Some x' \<longrightarrow> sock_written x' = sock_written x)"
proof
  have inv: "conn_inv c st" by (rule cn.reachable_inv [OF assms(1)])
  then show "sock_written x = accepted x" using assms(2-) by (auto simp: conn_inv_def conn_ok_def)
  show "\<forall>st' x'. (conn_step sc c)\<^sup>*\<^sup>* st st' \<longrightarrow> conns st' c = Some x' \<longrightarrow> sock_written x' = sock_written x"
    using conn_steps_ext [OF _ inv] assms(2,4) by (fastforce simp: conn_ext_def conn_evolves_def)
qed

text \<open>The state only moves forward (connecting, connected, disconnecting, disconnected), and
  the bytes accepted and written only grow.\<close>

theorem conn_state_advances:
  assumes "reachable (conn_start c) (conn_step sc c) st" and "(conn_step sc c)\<^sup>*\<^sup>* st st'"
  shows "\<exists>x x'. conns st c = Some x \<and> conns st' c = Some x' \<and>
    state_rank (conn_state x) \<le> state_rank (conn_state x') \<and>
    prefix (sock_written x) (sock_written x') \<and> prefix (accepted x) (accepted x')"
proof -
  have inv: "conn_inv c st" by (rule cn.reachable_inv [OF assms(1)])
  obtain x where x: "conns st c = Some x" using conn_invE [OF inv] .
  with conn_steps_ext [OF assms(2) inv] obtain x' where "conns st' c = Some x'" "conn_evolves x x'"
    by (auto simp: conn_ext_def)
  with x show ?thesis by (auto simp: conn_evolves_def)
qed

theorem shutdown_after_drain_witness:
  "\<exists>st x. reachable (conn_start 1) (conn_step idle_script 1) st \<and> conns st 1 = Some x \<and>
    sock_written x = ''hi'' \<and> accepted x = ''hi''"
proof -
  obtain s1 st where s: "demo_shut = Inr st" "conn_start 1 s1" "(conn_step idle_script 1)\<^sup>*\<^sup>* s1 st"
    using demo_steps by blast
  have r: "reachable (conn_start 1) (conn_step idle_script 1) st"
    by (rule reachable_steps [OF s(3) reach_start [of "conn_start 1", OF s(2)]])
  obtain x where x: "conns st 1 = Some x" "conn_state x = kDisconnecting" "sock_shutdown x" "accepted x = ''hi''"
    using demo_shut_conn [OF s(1)] by blast
  from shutdown_after_drain [OF r x(1-3)] x r show ?thesis by auto
qed

theorem conn_state_advances_witness:
  "\<exists>(st::conn_world) (st'::conn_world) x x'. conns st 1 = Some x \<and> conns st' 1 = Some x' \<and> accepted x' = ''hi'' \<and>
    state_rank (conn_state x) \<le> state_rank (conn_state x') \<and> prefix (sock_written x) (sock_written x')"
proof -
  obtain s1 st where s: "demo_shut = Inr st" "conn_start 1 s1" "(conn_step idle_script 1)\<^sup>*\<^sup>* s1 st"
    using demo_steps by blast
  obtain y where y: "conns st 1 = Some y" "accepted y = ''hi''" using demo_shut_conn [OF s(1)] by blast
  have r: "reachable (conn_start 1) (conn_step idle_script 1) s1" by (rule reach_start [of "conn_start 1", OF s(2)])
  obtain x x' where "conns s1 1 = Some x" "conns st 1 = Some x'"
    "state_rank (conn_state x) \<le> state_rank (conn_state x')" "prefix (sock_written x) (sock_written x')"
    using conn_state_advances [OF r s(3)] by blast
  with y show ?thesis by (intro exI [of _ s1] exI [of _ st] exI [of _ x] exI [of _ x']) simp
qed

end
