(* ===== verification/Connection_Close.thy ===== *)
theory Connection_Close
  imports Connection_Safety
begin

text \<open>
  Reading, failing writes and the ways a connection ends: what one iteration of the loop does
  when the peer closes, what \<open>forceClose\<close> does, what a failed \<open>write\<close> in \<open>sendInLoop\<close> does, and
  when \<open>connectDestroyed\<close> aborts.
\<close>

section \<open>Reading\<close>

lemma handleRead_data:
  fixes st :: "'z conn_world_scheme"
  assumes "isInLoopThread st" and "conns st c = Some x" and "Buffer_inv (inputBuffer x)"
    and "sock_read x = IoOk data" and "length data \<le> readv_capacity (inputBuffer x)"
    and "storage (inputBuffer x) + extrabuf_size \<le> vector_max_size"
  shows "\<exists>b. Buffer_inv b \<and> contents b = contents (inputBuffer x) @ data \<and>
    TcpConnection_handleRead cbs c st =
      (if data = [] then TcpConnection_handleClose cbs c (conn_put st c (x\<lparr>inputBuffer := b\<rparr>))
       else messageCallback cbs c (pollReturnTime st) (conn_put st c (x\<lparr>inputBuffer := b\<rparr>)))"
proof -
  obtain b where "readFd (inputBuffer x) (IoOk data) = Inr (int (length data), None, b)"
    "Buffer_inv b" "contents b = contents (inputBuffer x) @ data"
    using readFd_spec [OF assms(3,5,6)] by blast
  then show ?thesis using assms(1,2,4) by (intro exI [of _ b]) (simp add: TcpConnection_handleRead_def)
qed

text \<open>End of file needs no space.\<close>

lemma readFd_eof:
  assumes "Buffer_inv b"
  shows "\<exists>b'. readFd b (IoOk []) = Inr (0, None, b') \<and> Buffer_inv b' \<and> contents b' = contents b"
proof -
  have "\<exists>b'. bindR (store_at_write b []) (\<lambda>b2. hasWritten b2 (length [])) = Inr b' \<and>
    Buffer_inv b' \<and> contents b' = contents b @ []"
    using commit_spec [OF assms, of "[]"] by auto
  then show ?thesis by (auto simp: readFd_def Let_def bindR_eq_Inr)
qed

text \<open>When the descriptor is readable, \<open>handleRead\<close> appends exactly the bytes the kernel
  returned to the input buffer and then calls the message callback once, with the buffer holding
  the unread bytes of earlier calls followed by the new ones.\<close>

theorem handleRead_delivers:
  assumes "isInLoopThread st" and "conns st c = Some x" and "Buffer_inv (inputBuffer x)"
    and "sock_read x = IoOk data" and "data \<noteq> []" and "length data \<le> readv_capacity (inputBuffer x)"
    and "storage (inputBuffer x) + extrabuf_size \<le> vector_max_size"
  shows "\<exists>b. TcpConnection_handleRead cbs c st =
      messageCallback cbs c (pollReturnTime st) (conn_put st c (x\<lparr>inputBuffer := b\<rparr>)) \<and>
    Buffer_inv b \<and> contents b = contents (inputBuffer x) @ data"
  using handleRead_data [OF assms(1-4,6,7)] assms(5) by auto

section \<open>A failed write\<close>

text \<open>A connection with nothing queued whose \<open>write\<close> fails, for instance because the socket
  buffer is full, reads outside the message: \<open>n\<close> is then \<open>-1\<close> and the rest is copied from
  \<open>message.data() - 1\<close>.\<close>

theorem send_after_failed_write:
  assumes "isInLoopThread st" and "conns st c = Some x" and "chan_store st (conn_channel x) = Some ch"
    and "conn_state x = kConnected" and "\<not> isWriting ch" and "readableBytes (outputBuffer x) = 0"
    and "sock_write x = WErr e" and "message \<noteq> []"
  shows "sendInLoop wcb c message st = Inl (BadAccess ''message.data() + n'')"
proof -
  have "write_answer x (length message) = WErr (if sock_shutdown x then 32 else e)"
    using assms(7) by (simp add: write_answer_def)
  then show ?thesis using assms
    by (simp add: sendInLoop_def append_rest_def Let_def)
qed

section \<open>forceClose\<close>

lemma handleClose_disconnected:
  fixes st :: "'z conn_world_scheme"
  assumes "isInLoopThread st" and "conns st c = Some x" and "conn_state x = kDisconnected"
  shows "TcpConnection_handleClose cbs c st =
    Inl (AssertFail ''state_ == kConnected || state_ == kDisconnecting'')"
  using assms by (simp add: TcpConnection_handleClose_def assertR_def)

lemma queueInLoop_frame [simp]:
  "epoll_set (queueInLoop f st) = epoll_set st" "channels (queueInLoop f st) = channels st"
  "eventHandling (queueInLoop f st) = eventHandling st"
  "activeChannels (queueInLoop f st) = activeChannels st" "loop_id (queueInLoop f st) = loop_id st"
  by (simp_all add: queueInLoop_def wakeup_def Let_def)

text \<open>\<open>forceClose()\<close> does not close: it marks the connection disconnected before queueing
  \<open>forceCloseInLoop\<close>, which then does nothing, so the channel stays registered with the kernel
  exactly as it was; and when the peer closes afterwards, \<open>handleRead\<close> fails the assertion of
  \<open>handleClose\<close>.\<close>

theorem forceClose_never_closes:
  assumes "isInLoopThread st" and "conns st c = Some x"
    and "conn_state x = kConnected \<or> conn_state x = kDisconnecting"
    and "Buffer_inv (inputBuffer x)" and "sock_read x = IoOk []"
  shows "\<exists>st1. TcpConnection_forceClose c st = Inr st1 \<and>
    pendingFunctors st1 = pendingFunctors st @ [F_forceCloseInLoop c] \<and>
    exec_conn_functor cbs (F_forceCloseInLoop c) st1 = Inr st1 \<and>
    chan_store st1 = chan_store st \<and> epoll_set st1 = epoll_set st \<and>
    TcpConnection_handleRead cbs c st1 =
      Inl (AssertFail ''state_ == kConnected || state_ == kDisconnecting'')"
proof -
  let ?x = "x\<lparr>conn_state := kDisconnected\<rparr>"
  let ?s = "queueInLoop (F_forceCloseInLoop c) (conn_put st c ?x)"
  have fc: "TcpConnection_forceClose c st = Inr ?s"
    using assms(2,3) by (auto simp: TcpConnection_forceClose_def setState_def)
  obtain b where b: "readFd (inputBuffer x) (IoOk []) = Inr (0, None, b)"
    using readFd_eof [OF assms(4)] by blast
  have "TcpConnection_handleClose cbs c (conn_put ?s c (?x\<lparr>inputBuffer := b\<rparr>)) =
      Inl (AssertFail ''state_ == kConnected || state_ == kDisconnecting'')"
    by (rule handleClose_disconnected [where x = "?x\<lparr>inputBuffer := b\<rparr>"]) (use assms(1) in simp_all)
  then have "TcpConnection_handleRead cbs c ?s =
      Inl (AssertFail ''state_ == kConnected || state_ == kDisconnecting'')"
    using assms(1,5) b by (simp add: TcpConnection_handleRead_def)
  with fc show ?thesis
    by (intro exI [of _ ?s]) (simp add: forceCloseInLoop_def conn_put_def)
qed

section \<open>connectDestroyed while disconnecting\<close>

text \<open>\<open>connectDestroyed\<close> of a connection that is shutting down, which is what the destructor of
  \<open>TcpServer\<close> and \<open>TcpClient\<close> queue, aborts: only a connected one has its events disabled, and
  \<open>remove\<close> asserts that none is enabled.\<close>

theorem connectDestroyed_disconnecting_aborts:
  assumes "isInLoopThread st" and "conns st c = Some x" and "conn_state x = kDisconnecting"
    and "chan_store st (conn_channel x) = Some ch" and "isReading ch"
  shows "connectDestroyed cbs c st = Inl (AssertFail ''isNoneEvent()'')"
proof -
  have "\<not> isNoneEvent ch" using assms(5) by (auto simp: isReading_def isNoneEvent_def kNoneEvent_def)
  then show ?thesis using assms(1-4) by (simp add: connectDestroyed_def Channel_remove_def)
qed

section \<open>The peer closes\<close>

lemma disableAll_Inr:
  fixes st :: "'z conn_world_scheme"
  assumes "loop_inv st" and "chan_store st p = Some ch" and "ch_loop ch = loop_id st"
    and "isInLoopThread st" and "ch_index ch = kAdded"
  shows "Channel_disableAll st p =
    Inr (st\<lparr>chan_store := (chan_store st)(p \<mapsto> ch\<lparr>ch_events := 0, addedToLoop := True, ch_index := kDeleted\<rparr>),
            epoll_set := (epoll_set st)(ch_fd ch := None)\<rparr>)"
  using change_events_eq [OF assms(1-4), of mask_disableAll] assms(5)
  by (simp add: Channel_disableAll_def fd_free_def update_result_def isNoneEvent_def kNoneEvent_def
      set_index_def index_defs)

lemma handleClose_ok:
  fixes st :: "'z conn_world_scheme"
  assumes "loop_inv st" and "isInLoopThread st" and "conns st c = Some x"
    and "conn_state x = kConnected \<or> conn_state x = kDisconnecting"
    and "chan_store st (conn_channel x) = Some ch" and "ch_loop ch = loop_id st" and "ch_index ch = kAdded"
  shows "TcpConnection_handleClose (user_callbacks idle_script) c st =
    Inr (queueInLoop (F_connectDestroyed c)
      ((conn_put st c (x\<lparr>conn_state := kDisconnected\<rparr>))
         \<lparr>chan_store := (chan_store st)(conn_channel x \<mapsto>
             ch\<lparr>ch_events := 0, addedToLoop := True, ch_index := kDeleted\<rparr>),
          epoll_set := (epoll_set st)(ch_fd ch := None)\<rparr>))"
proof -
  let ?s = "conn_put st c (x\<lparr>conn_state := kDisconnected\<rparr>)"
  have "loop_inv ?s" "chan_store ?s (conn_channel x) = Some ch" "ch_loop ch = loop_id ?s" "isInLoopThread ?s"
    using assms by (simp_all add: conn_put_def isInLoopThread_def)
  from disableAll_Inr [OF this assms(7)] show ?thesis
    using assms(2-4)
    by (auto simp: TcpConnection_handleClose_def setState_def user_callbacks_def idle_script_def
        conn_put_def)
qed

text \<open>Removing a channel the poller knows as deleted, outside event handling.\<close>

lemma remove_deleted:
  fixes st :: "'z conn_world_scheme"
  assumes "chan_store st p = Some ch" and "ch_loop ch = loop_id st" and "isInLoopThread st"
    and "ch_index ch = kDeleted" and "ch_events ch = 0" and "channels st (ch_fd ch) = Some p"
    and "\<not> eventHandling st"
  shows "Channel_remove st p =
    Inr (chan_put (st\<lparr>channels := (channels st)(ch_fd ch := None)\<rparr>) p
           (ch\<lparr>ch_index := kNew, addedToLoop := False\<rparr>))"
  using assms
  by (simp add: Channel_remove_def EventLoop_removeChannel_def EPollPoller_removeChannel_def
      isNoneEvent_def kNoneEvent_def Let_def index_defs set_index_def chan_put_def)

definition conn_dispatch ::
    "'z conn_world_scheme conn_callbacks \<Rightarrow> nat \<Rightarrow> chan_ptr \<Rightarrow> chan_event \<Rightarrow>
     'z conn_world_scheme \<Rightarrow> 'z conn_world_scheme res" where
  "conn_dispatch cbs c p = conn_channel_callback cbs c"

text \<open>A channel whose owner has closed it: deleted in the poller, no events, not in a callback.\<close>

definition closed_channel :: "'z conn_world_scheme \<Rightarrow> nat \<Rightarrow> chan_ptr \<Rightarrow> int \<Rightarrow> bool" where
  "closed_channel st c p fd \<longleftrightarrow>
     (\<exists>x ch. conns st c = Some x \<and> conn_channel x = p \<and> conn_state x = kDisconnected \<and>
        chan_store st p = Some ch \<and> ch_fd ch = fd \<and> ch_loop ch = loop_id st \<and> ch_index ch = kDeleted \<and>
        ch_events ch = 0 \<and> \<not> ch_eventHandling ch) \<and>
     channels st fd = Some p \<and> epoll_set st fd = None \<and> isInLoopThread st"

lemma eof_event:
  fixes st :: "'z conn_world_scheme"
  assumes "loop_inv st" and "isInLoopThread st" and "conns st c = Some x"
    and "conn_state x = kConnected \<or> conn_state x = kDisconnecting"
    and "chan_store st (conn_channel x) = Some ch" and "ch_loop ch = loop_id st" and "ch_index ch = kAdded"
    and "tied ch" and "tie_alive ch" and "has_readCallback ch" and "ch_revents ch = POLLIN"
    and "Buffer_inv (inputBuffer x)" and "sock_read x = IoOk []"
    and own: "channels st (ch_fd ch) = Some (conn_channel x)"
  shows "\<exists>st'. Channel_handleEvent (conn_dispatch (user_callbacks idle_script) c) (conn_channel x) st = Inr st' \<and>
    closed_channel st' c (conn_channel x) (ch_fd ch) \<and>
    pendingFunctors st' = pendingFunctors st @ [F_connectDestroyed c]"
proof -
  let ?p = "conn_channel x"
  let ?ch2 = "ch\<lparr>ch_eventHandling := True\<rparr>"
  let ?st3 = "chan_put st ?p ?ch2"
  have l3: "loop_inv ?st3"
    using chan_put_inv [of st ?p ch ?ch2] assms(1,5) by (simp add: loop_inv_def)
  obtain b where b: "readFd (inputBuffer x) (IoOk []) = Inr (0, None, b)" using readFd_eof [OF assms(12)] by blast
  let ?x = "x\<lparr>inputBuffer := b\<rparr>"
  let ?st4 = "conn_put ?st3 c ?x"
  let ?ch5 = "?ch2\<lparr>ch_events := 0, addedToLoop := True, ch_index := kDeleted\<rparr>"
  let ?st5 = "queueInLoop (F_connectDestroyed c) ((conn_put ?st4 c (?x\<lparr>conn_state := kDisconnected\<rparr>))
         \<lparr>chan_store := (chan_store ?st4)(?p \<mapsto> ?ch5), epoll_set := (epoll_set ?st4)(ch_fd ?ch2 := None)\<rparr>)"
  have close: "TcpConnection_handleClose (user_callbacks idle_script) c ?st4 = Inr ?st5"
    using handleClose_ok [of ?st4 c ?x ?ch2] l3 assms(2,4,6,7)
    by (simp add: isInLoopThread_def chan_put_def conn_put_def)
  have read: "TcpConnection_handleRead (user_callbacks idle_script) c ?st3 = Inr ?st5"
    using close assms(2,3,13) b by (simp add: TcpConnection_handleRead_def isInLoopThread_def chan_put_def)
  have disp: "dispatch ch = [ReadEv]"
    using assms(10,11) by (simp add: dispatch_def has_def poll_flags)
  let ?st6 = "chan_put ?st5 ?p (?ch5\<lparr>ch_eventHandling := False\<rparr>)"
  have "Channel_handleEvent (conn_dispatch (user_callbacks idle_script) c) ?p st = Inr ?st6"
    using read disp assms(5,8,9) by (simp add: Channel_handleEvent_def conn_dispatch_def chan_deref_def)
  moreover have "closed_channel ?st6 c ?p (ch_fd ch)"
    using own assms(2,6)
    by (simp add: closed_channel_def chan_put_def conn_put_def isInLoopThread_def queueInLoop_def wakeup_def Let_def)
  moreover have "pendingFunctors ?st6 = pendingFunctors st @ [F_connectDestroyed c]"
    by (simp add: chan_put_def conn_put_def)
  ultimately show ?thesis by blast
qed

lemma destroy_closed:
  fixes st :: "'z conn_world_scheme"
  assumes "closed_channel st c p fd" and "\<not> eventHandling st"
  shows "\<exists>st' x' st''. connectDestroyed (user_callbacks sc) c st = Inr st' \<and> conns st' c = Some x' \<and>
    conn_state x' = kDisconnected \<and> pendingFunctors st' = pendingFunctors st \<and>
    channels st' fd = None \<and> epoll_set st' fd = None \<and>
    TcpConnection_delete c (st'\<lparr>callingPendingFunctors := b\<rparr>) = Inr st'' \<and> conns st'' c = None"
proof -
  from assms(1) obtain x ch where x: "conns st c = Some x" "conn_channel x = p" "conn_state x = kDisconnected"
    "chan_store st p = Some ch" "ch_fd ch = fd" "ch_loop ch = loop_id st" "ch_index ch = kDeleted"
    "ch_events ch = 0" "\<not> ch_eventHandling ch" "channels st fd = Some p" "epoll_set st fd = None"
    "isInLoopThread st" by (auto simp: closed_channel_def)
  let ?ch = "ch\<lparr>ch_index := kNew, addedToLoop := False\<rparr>"
  let ?s = "chan_put (st\<lparr>channels := (channels st)(fd := None)\<rparr>) p ?ch"
  have "Channel_remove st p = Inr ?s" using remove_deleted [of st p ch] x assms(2) by simp
  then have "connectDestroyed (user_callbacks sc) c st = Inr ?s"
    using x by (simp add: connectDestroyed_def)
  moreover have "TcpConnection_delete c (?s\<lparr>callingPendingFunctors := b\<rparr>) =
      Inr (?s\<lparr>callingPendingFunctors := b, chan_store := (chan_store ?s)(p := None), conns := (conns ?s)(c := None)\<rparr>)"
    using x by (simp add: TcpConnection_delete_def delete_Channel_def EventLoop_hasChannel_def
        Poller_hasChannel_def chan_put_def isInLoopThread_def)
  ultimately show ?thesis using x by (auto simp: chan_put_def)
qed

text \<open>C23. When the peer closes an established connection, one iteration of the loop runs the
  whole closing sequence without failing an assertion: the read of zero bytes, \<open>handleClose\<close>, the
  queued \<open>connectDestroyed\<close>. Afterwards the connection is disconnected, its descriptor is in
  neither the poller nor the kernel, nothing is pending, and the connection can be destroyed.\<close>

theorem eof_closes_connection:
  assumes "loop_inv st" and "isInLoopThread st" and "conns st c = Some x"
    and "conn_state x = kConnected \<or> conn_state x = kDisconnecting"
    and "chan_store st (conn_channel x) = Some ch" and "ch_loop ch = loop_id st" and "ch_index ch = kAdded"
    and "tied ch" and "tie_alive ch" and "has_readCallback ch"
    and "Buffer_inv (inputBuffer x)" and "sock_read x = IoOk []" and "pendingFunctors st = []"
  shows "\<exists>st' x' st''. loop_iteration (conn_dispatch (user_callbacks idle_script) c)
      (exec_conn_functor (user_callbacks idle_script)) (WaitOk [(conn_channel x, POLLIN)], now) st = Inr st' \<and>
    conns st' c = Some x' \<and> conn_state x' = kDisconnected \<and> pendingFunctors st' = [] \<and>
    channels st' (ch_fd ch) = None \<and> epoll_set st' (ch_fd ch) = None \<and>
    TcpConnection_delete c st' = Inr st'' \<and> conns st'' c = None"
proof -
  let ?p = "conn_channel x" and ?evs = "[(conn_channel x, POLLIN)]"
  let ?cb = "conn_dispatch (user_callbacks idle_script) c"
  let ?exec = "exec_conn_functor (user_callbacks idle_script)"
  have pi: "poller_inv st" using assms(1) by (simp add: loop_inv_def)
  have own: "channels st (ch_fd ch) = Some ?p"
    using poller_invD(2) [OF pi assms(5)] assms(7) by (auto simp: chan_inv_def index_defs)
  have reg: "epoll_set st (ch_fd ch) = Some (ch_events ch, ?p)"
    using registered_fd [OF pi assms(5)] own assms(7) by (auto simp: index_defs)
  let ?st0 = "st\<lparr>activeChannels := []\<rparr>"
  define n where "n = (if length ?evs = events_size ?st0 then 2 * events_size ?st0 else events_size ?st0)"
  define st1 where "st1 = ?st0\<lparr>chan_store := with_revents ?evs (chan_store ?st0), events_size := n\<rparr>"
  have w: "wait_contract ?st0 ?evs" using reg poller_invD(1) [OF pi] by (auto simp: wait_contract_def)
  have poll: "EPollPoller_poll ?st0 (WaitOk ?evs) [] = Inr (st1, [?p])"
    using poll_eq [of ?st0 ?evs "[]"] pi w by (simp add: n_def st1_def)
  have "poller_inv st1"
    unfolding st1_def by (rule poller_inv_revents) (use pi poller_invD(1) [OF pi] in \<open>simp_all add: n_def\<close>)
  let ?st2 = "st1\<lparr>activeChannels := [?p], pollReturnTime := now, eventHandling := True\<rparr>"
  have "poller_inv ?st2" using \<open>poller_inv st1\<close> by (subst poller_inv_cong [of ?st2 st1]) simp_all
  then have l2: "loop_inv ?st2" using assms(1) by (simp add: loop_inv_def st1_def)
  have "\<exists>st'. Channel_handleEvent ?cb ?p ?st2 = Inr st' \<and>
      closed_channel st' c ?p (ch_fd (set_revents ch POLLIN)) \<and>
      pendingFunctors st' = pendingFunctors ?st2 @ [F_connectDestroyed c]"
    by (rule eof_event [OF l2, where ch = "set_revents ch POLLIN"])
      (use assms own in \<open>auto simp: st1_def with_revents_def isInLoopThread_def set_revents_def\<close>)
  then obtain st3 where st3: "Channel_handleEvent ?cb ?p ?st2 = Inr st3" "closed_channel st3 c ?p (ch_fd ch)"
    "pendingFunctors st3 = [F_connectDestroyed c]"
    using assms(13) by (auto simp: st1_def)
  let ?st4 = "st3\<lparr>eventHandling := False, callingPendingFunctors := True, pendingFunctors := []\<rparr>"
  have "closed_channel ?st4 c ?p (ch_fd ch)"
    using st3(2) by (simp add: closed_channel_def isInLoopThread_def)
  then obtain st5 x' st6 where d: "connectDestroyed (user_callbacks idle_script) c ?st4 = Inr st5"
    "conns st5 c = Some x'" "conn_state x' = kDisconnected" "pendingFunctors st5 = []"
    "channels st5 (ch_fd ch) = None" "epoll_set st5 (ch_fd ch) = None"
    "TcpConnection_delete c (st5\<lparr>callingPendingFunctors := False\<rparr>) = Inr st6" "conns st6 c = None"
    using destroy_closed [of ?st4 c ?p "ch_fd ch" idle_script False] by auto
  have "doPendingFunctors ?exec (st3\<lparr>eventHandling := False\<rparr>) = Inr (st5\<lparr>callingPendingFunctors := False\<rparr>)"
    using d(1) st3(3) by (simp add: doPendingFunctors_def Let_def)
  then have "loop_iteration ?cb ?exec (WaitOk ?evs, now) st = Inr (st5\<lparr>callingPendingFunctors := False\<rparr>)"
    using poll st3(1) by (simp add: loop_iteration_def)
  with d show ?thesis by (intro exI conjI) simp_all
qed

section \<open>Witnesses\<close>

lemma demo_connected:
  "\<exists>st x ch. demo_established = Inr st \<and> isInLoopThread st \<and> conns st 1 = Some x \<and>
    chan_store st (conn_channel x) = Some ch \<and> conn_state x = kConnected \<and> isReading ch \<and>
    \<not> isWriting ch \<and> inputBuffer x = Buffer_new kInitialSize \<and> outputBuffer x = Buffer_new kInitialSize"
proof -
  have "\<not> isl demo_established" by (simp add: demo_eval)
  then obtain st where st: "demo_established = Inr st" using not_isl_Inr by blast
  then show ?thesis by (intro exI [of _ st]) (auto simp: demo_eval isReading_def)
qed

lemma new_buffer_facts:
  "Buffer_inv (Buffer_new kInitialSize)" "readableBytes (Buffer_new kInitialSize) = 0"
  "storage (Buffer_new kInitialSize) + extrabuf_size \<le> vector_max_size"
  "readv_capacity (Buffer_new kInitialSize) = 66560"
proof -
  show i: "Buffer_inv (Buffer_new kInitialSize)"
    by (rule Buffer_new_inv) (simp add: kInitialSize_def buffer_defs)
  show "readableBytes (Buffer_new kInitialSize) = 0" using i readable_0_iff by simp
  show "storage (Buffer_new kInitialSize) + extrabuf_size \<le> vector_max_size"
    by (simp add: storage_Buffer_new kInitialSize_def buffer_defs extrabuf_size_def)
  show "readv_capacity (Buffer_new kInitialSize) = 66560"
    by (simp add: readv_capacity_def readv_iovcnt_def writableBytes_def szsub_def Buffer_new_def
        kInitialSize_def kCheapPrepend_def szadd_def extrabuf_size_def)
qed

theorem handleRead_delivers_witness:
  "\<exists>(st::conn_world) x b. conns st 1 = Some x \<and> sock_read x = IoOk ''ping'' \<and>
    TcpConnection_handleRead (user_callbacks idle_script) 1 st =
      messageCallback (user_callbacks idle_script) 1 (pollReturnTime st) (conn_put st 1 (x\<lparr>inputBuffer := b\<rparr>)) \<and>
    contents b = ''ping''"
proof -
  obtain s x where s: "isInLoopThread (s::conn_world)" "conns s 1 = Some x" "inputBuffer x = Buffer_new kInitialSize"
    using demo_connected by blast
  let ?x = "x\<lparr>sock_read := IoOk ''ping''\<rparr>"
  let ?s = "conn_put s 1 ?x"
  have "\<exists>b. TcpConnection_handleRead (user_callbacks idle_script) 1 ?s =
      messageCallback (user_callbacks idle_script) 1 (pollReturnTime ?s) (conn_put ?s 1 (?x\<lparr>inputBuffer := b\<rparr>)) \<and>
    Buffer_inv b \<and> contents b = contents (inputBuffer ?x) @ ''ping''"
    by (rule handleRead_delivers) (use s new_buffer_facts in simp_all)
  then obtain b where "TcpConnection_handleRead (user_callbacks idle_script) 1 ?s =
      messageCallback (user_callbacks idle_script) 1 (pollReturnTime ?s) (conn_put ?s 1 (?x\<lparr>inputBuffer := b\<rparr>))"
    "contents b = ''ping''" using s(3) by auto
  then show ?thesis by (intro exI [of _ ?s] exI [of _ ?x] exI [of _ b]) simp
qed

theorem send_after_failed_write_witness:
  "\<exists>(st::conn_world) x. conns st 1 = Some x \<and> conn_state x = kConnected \<and> sock_write x = WErr 11 \<and>
    sendInLoop False 1 ''hi'' st = Inl (BadAccess ''message.data() + n'')"
proof -
  obtain s x ch where s: "isInLoopThread (s::conn_world)" "conns s 1 = Some x"
    "chan_store s (conn_channel x) = Some ch" "conn_state x = kConnected" "\<not> isWriting ch"
    "outputBuffer x = Buffer_new kInitialSize" using demo_connected by blast
  let ?x = "x\<lparr>sock_write := WErr 11\<rparr>"
  let ?s = "conn_put s 1 ?x"
  have "sendInLoop False 1 ''hi'' ?s = Inl (BadAccess ''message.data() + n'')"
    by (rule send_after_failed_write [where x = ?x and ch = ch]) (use s new_buffer_facts in simp_all)
  then show ?thesis using s by (intro exI [of _ ?s] exI [of _ ?x]) simp
qed

theorem forceClose_never_closes_witness:
  "\<exists>(st::conn_world) st1. TcpConnection_forceClose 1 st = Inr st1 \<and> chan_store st1 = chan_store st \<and>
    TcpConnection_handleRead (user_callbacks idle_script) 1 st1 =
      Inl (AssertFail ''state_ == kConnected || state_ == kDisconnecting'')"
proof -
  obtain s x where s: "isInLoopThread (s::conn_world)" "conns s 1 = Some x" "conn_state x = kConnected"
    "inputBuffer x = Buffer_new kInitialSize" using demo_connected by blast
  let ?x = "x\<lparr>sock_read := IoOk []\<rparr>"
  let ?s = "conn_put s 1 ?x"
  have "\<exists>st1. TcpConnection_forceClose 1 ?s = Inr st1 \<and>
    pendingFunctors st1 = pendingFunctors ?s @ [F_forceCloseInLoop 1] \<and>
    exec_conn_functor (user_callbacks idle_script) (F_forceCloseInLoop 1) st1 = Inr st1 \<and>
    chan_store st1 = chan_store ?s \<and> epoll_set st1 = epoll_set ?s \<and>
    TcpConnection_handleRead (user_callbacks idle_script) 1 st1 =
      Inl (AssertFail ''state_ == kConnected || state_ == kDisconnecting'')"
    by (rule forceClose_never_closes [where x = ?x]) (use s new_buffer_facts in simp_all)
  then show ?thesis by blast
qed

theorem connectDestroyed_disconnecting_aborts_witness:
  "\<exists>(st::conn_world) x. conns st 1 = Some x \<and> conn_state x = kDisconnecting \<and>
    connectDestroyed (user_callbacks idle_script) 1 st = Inl (AssertFail ''isNoneEvent()'')"
proof -
  obtain s x ch where s: "isInLoopThread (s::conn_world)" "conns s 1 = Some x"
    "chan_store s (conn_channel x) = Some ch" "isReading ch" using demo_connected by blast
  let ?x = "x\<lparr>conn_state := kDisconnecting\<rparr>"
  let ?s = "conn_put s 1 ?x"
  have "connectDestroyed (user_callbacks idle_script) 1 ?s = Inl (AssertFail ''isNoneEvent()'')"
    by (rule connectDestroyed_disconnecting_aborts [where x = ?x and ch = ch]) (use s in simp_all)
  then show ?thesis by (intro exI [of _ ?s] exI [of _ ?x]) simp
qed

theorem eof_closes_connection_witness:
  "\<exists>(st::conn_world) x ch st' x'. conns st 1 = Some x \<and> chan_store st (conn_channel x) = Some ch \<and>
    loop_iteration (conn_dispatch (user_callbacks idle_script) 1)
      (exec_conn_functor (user_callbacks idle_script)) (WaitOk [(conn_channel x, POLLIN)], Timestamp 5) st = Inr st' \<and>
    conns st' 1 = Some x' \<and> conn_state x' = kDisconnected \<and> epoll_set st' (ch_fd ch) = None"
proof -
  have "\<not> isl demo_established" by (simp add: demo_eval)
  then obtain s where s: "demo_established = Inr s" using not_isl_Inr by blast
  obtain s0 s1 where s01: "demo_new = Inr s0" "demo_answer s0 = Inr s1"
    "connectEstablished (user_callbacks idle_script) 1 s1 = Inr s"
    using s unfolding demo_established_def bindR_eq_Inr by blast
  have "conn_inv 1 s1" using conn_start_inv [OF demo_new_start [OF s01(1)]] s01(2)
    by (auto simp: demo_answer_def bindR_eq_Inr conn_deref_eq conn_inv_def conn_ok_def pend_ok_def)
  then have inv: "loop_inv s" using conn_ext_inv [OF scripted.connectEstablished_ext [OF _ s01(3)]]
    by (auto simp: conn_inv_def)
  obtain x ch where x: "isInLoopThread s" "conns s 1 = Some x" "chan_store s (conn_channel x) = Some ch"
    "conn_state x = kConnected" "inputBuffer x = Buffer_new kInitialSize" "ch_loop ch = loop_id s"
    "ch_index ch = kAdded" "tied ch" "tie_alive ch" "has_readCallback ch" "pendingFunctors s = []"
    using s by (auto simp: demo_eval)
  let ?x = "x\<lparr>sock_read := IoOk []\<rparr>"
  let ?s = "conn_put s 1 ?x"
  have "\<exists>st' x' st''. loop_iteration (conn_dispatch (user_callbacks idle_script) 1)
      (exec_conn_functor (user_callbacks idle_script)) (WaitOk [(conn_channel ?x, POLLIN)], Timestamp 5) ?s = Inr st' \<and>
    conns st' 1 = Some x' \<and> conn_state x' = kDisconnected \<and> pendingFunctors st' = [] \<and>
    channels st' (ch_fd ch) = None \<and> epoll_set st' (ch_fd ch) = None \<and>
    TcpConnection_delete 1 st' = Inr st'' \<and> conns st'' 1 = None"
    by (rule eof_closes_connection [where ch = ch]) (use inv x new_buffer_facts in \<open>simp_all add: conn_put_def isInLoopThread_def\<close>)
  then obtain st' x' where "loop_iteration (conn_dispatch (user_callbacks idle_script) 1)
      (exec_conn_functor (user_callbacks idle_script)) (WaitOk [(conn_channel ?x, POLLIN)], Timestamp 5) ?s = Inr st'"
    "conns st' 1 = Some x'" "conn_state x' = kDisconnected" "epoll_set st' (ch_fd ch) = None" by blast
  with x show ?thesis by (intro exI [of _ ?s] exI [of _ ?x] exI [of _ ch] exI [of _ st'] exI [of _ x']) simp
qed

end
