(* ===== verification/Connection_Send.thy ===== *)
theory Connection_Send
  imports Connection_Close
begin

text \<open>
  What a message becomes on a connection with no output pending (\<open>TcpConnection::send\<close>,
  \<open>sendInLoop\<close>, \<open>shutdown\<close> in \<open>src/net/TcpConnection.cc\<close>): the part the kernel takes is written, the
  rest is buffered and writability asked for; a shutdown that follows waits exactly for that rest.
  These are the lemmas the servers' message callbacks rest on.
\<close>

section \<open>The conditions\<close>

text \<open>A connection of the loop at hand, registered and with nothing to write, whose socket accepts
  \<open>k\<close> bytes.\<close>

definition idle_conn :: "nat \<Rightarrow> TcpConnection \<Rightarrow> Channel \<Rightarrow> nat \<Rightarrow> 'z conn_world_scheme \<Rightarrow> bool" where
  "idle_conn c x ch k st \<longleftrightarrow>
     loop_inv st \<and> isInLoopThread st \<and> conns st c = Some x \<and> conn_state x = kConnected \<and>
     chan_store st (conn_channel x) = Some ch \<and> ch_loop ch = loop_id st \<and> ch_index ch = kAdded \<and>
     \<not> isWriting ch \<and> Buffer_inv (inputBuffer x) \<and> Buffer_inv (outputBuffer x) \<and>
     contents (outputBuffer x) = [] \<and> sock_write x = WOk k \<and> \<not> sock_shutdown x"

text \<open>What holds after \<open>msg\<close> has been sent on it.\<close>

definition sent_conn :: "string \<Rightarrow> nat \<Rightarrow> TcpConnection \<Rightarrow> TcpConnection \<Rightarrow> Channel \<Rightarrow> bool" where
  "sent_conn msg k x x' ch' \<longleftrightarrow>
     Buffer_inv (outputBuffer x') \<and> sock_written x' = sock_written x @ take k msg \<and>
     contents (outputBuffer x') = drop k msg \<and> accepted x' = accepted x @ msg \<and>
     (isWriting ch' \<longleftrightarrow> contents (outputBuffer x') \<noteq> []) \<and> inputBuffer x' = inputBuffer x \<and>
     conn_state x' = conn_state x \<and> conn_channel x' = conn_channel x \<and> sock_shutdown x' = sock_shutdown x \<and>
     conn_context x' = conn_context x"

text \<open>The timers of the loop are left alone.\<close>

definition same_timers :: "'y EventLoop_scheme \<Rightarrow> 'z EventLoop_scheme \<Rightarrow> bool" where
  "same_timers st st' \<longleftrightarrow> timerQueue st' = timerQueue st \<and> clock st' = clock st"

section \<open>Sending\<close>

lemma append_rest_idle:
  fixes st :: "'z conn_world_scheme"
  assumes L: "loop_inv st" "isInLoopThread st" and C: "conns st c = Some x"
    and H: "chan_store st (conn_channel x) = Some ch" "ch_loop ch = loop_id st" "ch_index ch = kAdded" "\<not> isWriting ch"
    and B: "Buffer_inv (outputBuffer x)" "contents (outputBuffer x) = []"
    and k: "k \<le> length msg" and room: "storage (outputBuffer x) + length msg \<le> vector_max_size"
  obtains st' b ch' where "append_rest st c msg (int k) (int (length msg) - int k) = Inr st'" "loop_inv st'"
    "isInLoopThread st'" "conns st' c = Some (x\<lparr>outputBuffer := b\<rparr>)" "Buffer_inv b" "contents b = drop k msg"
    "chan_store st' (conn_channel x) = Some ch'" "isWriting ch' \<longleftrightarrow> drop k msg \<noteq> []"
    "conn_world.more st' = conn_world.more st" "k = length msg \<longrightarrow> st' = st \<and> b = outputBuffer x \<and> ch' = ch"
proof (cases "k = length msg")
  case True
  then show ?thesis using L C H B
    by (intro that [of st "outputBuffer x" ch]) (simp_all add: append_rest_def)
next
  case False
  then have d: "drop k msg \<noteq> []" "0 < int (length msg) - int k" using k by auto
  have tk: "take (nat (int (length msg) - int k)) (drop (nat (int k)) msg) = drop k msg" by simp
  obtain b where b: "Buffer_append (outputBuffer x) (drop k msg) = Inr b" "Buffer_inv b" "contents b = drop k msg"
    using Buffer_append_spec [OF B(1), of "drop k msg"] B(2) room by fastforce
  let ?s = "conn_put st c (x\<lparr>outputBuffer := b\<rparr>)"
  let ?ch = "ch\<lparr>ch_events := mask_enableWriting (ch_events ch), addedToLoop := True\<rparr>"
  let ?s' = "update_result ?s (conn_channel x) ?ch"
  have inv: "loop_inv ?s" using L(1) by simp
  have e: "change_events mask_enableWriting ?s (conn_channel x) = Inr ?s'"
    by (rule change_events_eq [OF inv]) (use H L(2) in \<open>simp_all add: conn_put_def isInLoopThread_def fd_free_def index_defs\<close>)
  have nn: "mask_enableWriting e \<noteq> kNoneEvent" for e
    using enableWriting_isWriting [of e] by (auto simp: kNoneEvent_def has_def)
  have "append_rest st c msg (int k) (int (length msg) - int k) = Inr ?s'"
    using C H b k d e tk by (simp add: append_rest_def Let_def Channel_enableWriting_def conn_put_def chan_deref_def)
  moreover have "loop_inv ?s'" by (rule change_events_inv [OF inv e])
  moreover have "isWriting (set_index ?ch kAdded)" by (simp add: isWriting_def enableWriting_isWriting)
  ultimately show ?thesis using b d L(2) nn False
    by (intro that [of ?s' b "set_index ?ch kAdded"]) (simp_all add: update_result_def chan_put_def conn_put_def isInLoopThread_def H
        isNoneEvent_def index_defs)
qed

lemma sendInLoop_idle:
  fixes st :: "'z conn_world_scheme"
  assumes "idle_conn c x ch k st" and "storage (outputBuffer x) + length msg \<le> vector_max_size"
  obtains st' x' ch' where "sendInLoop wcb c msg st = Inr st'" "loop_inv st'" "isInLoopThread st'"
    "conns st' c = Some x'" "chan_store st' (conn_channel x) = Some ch'" "sent_conn msg k x x' ch'"
    "conn_world.more st' = conn_world.more st"
    "length msg \<le> k \<longrightarrow> idle_conn c x' ch' k st' \<and> outputBuffer x' = outputBuffer x \<and> same_timers st st'"
proof -
  define j where "j = min k (length msg)"
  note I = assms(1) [unfolded idle_conn_def]
  let ?x = "x\<lparr>accepted := accepted x @ msg, sock_written := sock_written x @ take j msg\<rparr>"
  let ?s1 = "conn_put st c ?x"
  let ?s = "if int (length msg) - int j = 0 \<and> wcb then queueInLoop (F_writeComplete c) ?s1 else ?s1"
  have w: "write_answer x (length msg) = WOk j" using I by (simp add: write_answer_def j_def)
  have z: "readableBytes (outputBuffer x) = 0" using I readable_0_iff by blast
  have go: "sendInLoop wcb c msg st = append_rest ?s c msg (int j) (int (length msg) - int j)"
    using I w z by (simp add: sendInLoop_def Let_def chan_deref_def conn_deref_def assertInLoopThread_def)
  have "loop_inv ?s" using I by simp
  moreover have "isInLoopThread ?s" "conns ?s c = Some ?x" "chan_store ?s (conn_channel ?x) = Some ch"
    "ch_loop ch = loop_id ?s" "conn_world.more ?s = conn_world.more st"
    using I by (auto simp: conn_put_def queueInLoop_def wakeup_def Let_def isInLoopThread_def)
  moreover have "ch_index ch = kAdded" "\<not> isWriting ch" "Buffer_inv (outputBuffer ?x)" "contents (outputBuffer ?x) = []"
    "j \<le> length msg" "storage (outputBuffer ?x) + length msg \<le> vector_max_size"
    using I assms(2) by (simp_all add: j_def)
  ultimately obtain st' b ch' where r: "append_rest ?s c msg (int j) (int (length msg) - int j) = Inr st'"
    "loop_inv st'" "isInLoopThread st'" "conns st' c = Some (?x\<lparr>outputBuffer := b\<rparr>)" "Buffer_inv b"
    "contents b = drop j msg" "chan_store st' (conn_channel x) = Some ch'" "isWriting ch' \<longleftrightarrow> drop j msg \<noteq> []"
    "conn_world.more st' = conn_world.more st" "j = length msg \<longrightarrow> st' = ?s \<and> b = outputBuffer ?x \<and> ch' = ch"
    using append_rest_idle [of ?s c ?x ch j msg] by auto
  have sent: "length msg \<le> k \<longrightarrow> idle_conn c (?x\<lparr>outputBuffer := b\<rparr>) ch' k st' \<and>
      outputBuffer (?x\<lparr>outputBuffer := b\<rparr>) = outputBuffer x \<and> same_timers st st'"
  proof
    assume "length msg \<le> k"
    then have e: "st' = ?s" "b = outputBuffer x" "ch' = ch" using r(10) by (simp_all add: j_def)
    have "loop_id st' = loop_id st" "same_timers st st'"
      unfolding e(1) same_timers_def by (simp_all add: conn_put_def queueInLoop_def wakeup_def Let_def)
    then show "idle_conn c (?x\<lparr>outputBuffer := b\<rparr>) ch' k st' \<and>
        outputBuffer (?x\<lparr>outputBuffer := b\<rparr>) = outputBuffer x \<and> same_timers st st'"
      using I r(2-4,7) e(2,3) by (simp add: idle_conn_def)
  qed
  have "take j msg = take k msg" "drop j msg = drop k msg" by (auto simp: j_def min_def)
  then have "sent_conn msg k x (?x\<lparr>outputBuffer := b\<rparr>) ch'" using r(5,6,8) by (simp add: sent_conn_def)
  moreover have "sendInLoop wcb c msg st = Inr st'" using go r(1) by simp
  ultimately show ?thesis using that [OF _ r(2-4,7) _ r(9) sent] by blast
qed

text \<open>A shutdown after the last message takes effect at once exactly when nothing is left.\<close>

lemma shutdown_eq:
  fixes st :: "'z conn_world_scheme"
  assumes "isInLoopThread st" and "conns st c = Some x" and "conn_state x = kConnected"
    and "chan_store st (conn_channel x) = Some ch"
  shows "TcpConnection_shutdown (exec_call_functor wcb) c st =
    Inr (conn_put st c (x\<lparr>conn_state := kDisconnecting, sock_shutdown := sock_shutdown x \<or> \<not> isWriting ch\<rparr>))"
proof -
  let ?s = "conn_put st c (x\<lparr>conn_state := kDisconnecting\<rparr>)"
  have "isInLoopThread ?s" using assms(1) by (simp add: conn_put_def isInLoopThread_def)
  then show ?thesis using assms
    by (cases "isWriting ch")
      (auto simp: TcpConnection_shutdown_def setState_def runInLoop_def shutdownInLoop_def
        assertInLoopThread_def chan_deref_def conn_put_def)
qed

text \<open>A context may be attached.\<close>

lemma idle_context:
  assumes "idle_conn c x ch k st"
  shows "idle_conn c (x\<lparr>conn_context := v\<rparr>) ch k (conn_put st c (x\<lparr>conn_context := v\<rparr>))"
  using assms by (simp add: idle_conn_def conn_put_def isInLoopThread_def)

section \<open>An example\<close>

text \<open>The established connection of the concrete world, with a kernel that takes \<open>k\<close> bytes and has \<open>r\<close>
  to read.\<close>

lemma idle_demo:
  obtains st :: conn_world and x ch where "idle_conn 1 x ch k st" "sock_read x = r" "sock_written x = []"
    "inputBuffer x = Buffer_new kInitialSize" "outputBuffer x = Buffer_new kInitialSize"
    "timerQueue st = TimerQueue_new"
proof -
  have "\<not> isl demo_established" by (simp add: demo_eval)
  then obtain s where s: "demo_established = Inr s" using not_isl_Inr by blast
  then obtain s0 s1 where p: "demo_new = Inr s0" "demo_answer s0 = Inr s1"
    "connectEstablished (user_callbacks idle_script) 1 s1 = Inr s"
    unfolding demo_established_def bindR_eq_Inr by blast
  have "conn_inv 1 s0" using conn_start_inv [OF demo_new_start [OF p(1)]] .
  then have "conn_inv 1 s1" using p(2) conn_ext_inv [OF conn_put_ext]
    by (fastforce simp: demo_answer_def bindR_eq_Inr conn_deref_eq conn_evolves_def conn_ok_def)
  then have inv: "loop_inv s" using conn_ext_inv [OF scripted.connectEstablished_ext [OF _ p(3)]]
    by (auto simp: conn_inv_def)
  from s obtain x ch where x: "isInLoopThread s" "conns s 1 = Some x" "conn_state x = kConnected"
    "chan_store s (conn_channel x) = Some ch" "ch_loop ch = loop_id s" "ch_index ch = kAdded" "\<not> isWriting ch"
    "inputBuffer x = Buffer_new kInitialSize" "outputBuffer x = Buffer_new kInitialSize" "\<not> sock_shutdown x" "sock_written x = []"
    "timerQueue s = TimerQueue_new" by (auto simp: demo_eval)
  let ?x = "x\<lparr>sock_write := WOk k, sock_read := r\<rparr>"
  have "idle_conn 1 ?x ch k (conn_put s 1 ?x)"
    using inv x new_buffer_facts readable_0_iff [OF new_buffer_facts(1)]
    by (simp add: idle_conn_def conn_put_def isInLoopThread_def)
  then show ?thesis using that x by (simp add: conn_put_def)
qed

end
