(* ===== verification/HttpConnection.thy ===== *)
theory HttpConnection
  imports TcpConnection Decimal
begin

text \<open>
  \<open>src/http/HttpConnection.h\<close> and \<open>HttpConnection.cc\<close>: the request parser, the form decoder, the
  response writer and the two callbacks of the server.

  The two regular expressions are written as functions on strings; the theory of the properties
  relates them to what the patterns say. \<open>stat\<close>, \<open>open\<close> and \<open>mmap\<close> are the fields of a
  \<open>filesystem\<close>, a parameter. Header and form tables are finite maps. The parse loop takes fuel and
  returns \<open>None\<close> only when the fuel runs out, which is shown not to happen.
\<close>

section \<open>Data\<close>

datatype HttpCode = kNoRequest | kGetRequest | kBadRequest | kForbidden | kNoResource

record filesystem =
  fs_stat :: "string \<Rightarrow> file_stat option"
  fs_open :: "string \<Rightarrow> bool"
  fs_mmap :: "string \<Rightarrow> nat \<Rightarrow> string option"

definition kResponses :: "int \<rightharpoonup> string" where
  "kResponses = [200 \<mapsto> ''OK'', 400 \<mapsto> ''Bad Request'', 403 \<mapsto> ''Forbidden'', 404 \<mapsto> ''Not Found'']"

definition kMimeType :: "string \<rightharpoonup> string" where
  "kMimeType = map_of
     [(''.html'', ''text/html''), (''.xml'', ''text/xml''), (''.xhtml'', ''application/xhtml+xml''),
      (''.txt'', ''text/plain''), (''.rtf'', ''application/rtf''), (''.pdf'', ''application/pdf''),
      (''.doc'', ''application/msword''), (''.png'', ''image/png''), (''.gif'', ''image/gif''),
      (''.jpg'', ''image/jpeg''), (''.jpeg'', ''image/jpeg''), (''.au'', ''audio/basic''),
      (''.mpeg'', ''video/mpeg''), (''.mpg'', ''video/mpeg''), (''.avi'', ''video/x-msvideo''),
      (''.gz'', ''application/x-gzip''), (''.tar'', ''application/x-tar''), (''.css'', ''text/css''),
      (''.js'', ''text/javascript'')]"

definition HttpConnection_new :: "string \<Rightarrow> HttpConnection" where
  "HttpConnection_new sourceDir =
     \<lparr>parseState = kRequestLine, http_method = [], http_path = [], http_version = [],
      header = Map.empty, http_body = [], post = Map.empty, responseCode = -1, keepAlive = False,
      requestFileStat = None, http_timerId = \<lparr>id_timer = 0, id_sequence = 0\<rparr>, kSourceDir = sourceDir\<rparr>"

definition resetState :: "HttpConnection \<Rightarrow> HttpConnection" where
  "resetState h =
     h\<lparr>parseState := kRequestLine, http_method := [], http_path := [], http_version := [],
       header := Map.empty, http_body := [], responseCode := -1,
       requestFileStat := Some \<lparr>st_isdir = False, st_roth = False, st_size = 0\<rparr>\<rparr>"

text \<open>The C string of a \<open>std::string\<close> ends at its first null character.\<close>

definition c_str :: "string \<Rightarrow> string" where
  "c_str s = takeWhile (\<lambda>c. c \<noteq> CHR 0x00) s"

definition file_name :: "HttpConnection \<Rightarrow> string" where
  "file_name h = c_str (kSourceDir h @ http_path h)"

section \<open>The request line\<close>

text \<open>\<open>^([^ ]+) ([^ ]+) HTTP/([^ ]+)$\<close>\<close>

definition not_blank :: "char \<Rightarrow> bool" where
  "not_blank c \<longleftrightarrow> c \<noteq> CHR '' ''"

definition http_slash :: string where
  "http_slash = ''HTTP/''"

definition match_request_line :: "string \<Rightarrow> (string \<times> string \<times> string) option" where
  "match_request_line line =
     (let m = takeWhile not_blank line; r1 = dropWhile not_blank line;
          p = takeWhile not_blank (tl r1); r2 = dropWhile not_blank (tl r1);
          v = drop (length http_slash) (tl r2)
      in if m \<noteq> [] \<and> r1 \<noteq> [] \<and> p \<noteq> [] \<and> r2 \<noteq> [] \<and> take (length http_slash) (tl r2) = http_slash \<and>
            v \<noteq> [] \<and> list_all not_blank v
         then Some (m, p, v) else None)"

definition parseRequestLine ::
    "filesystem \<Rightarrow> HttpConnection \<Rightarrow> string \<Rightarrow> HttpCode \<times> HttpConnection" where
  "parseRequestLine fs h line =
     (case match_request_line line of
        None \<Rightarrow> (kBadRequest, h)
      | Some (m, p, v) \<Rightarrow>
          let path = (if p = ''/'' then p @ ''index.html''
                      else if CHR ''.'' \<notin> set p then p @ ''.html'' else p);
              h1 = h\<lparr>http_method := m, http_path := path, http_version := v, parseState := kHeader\<rparr>
          in (case fs_stat fs (file_name h1) of
                None \<Rightarrow> (kNoResource, h1)
              | Some s \<Rightarrow>
                  let h2 = h1\<lparr>requestFileStat := Some s\<rparr> in
                  if st_isdir s then (kNoResource, h2)
                  else if \<not> st_roth s then (kForbidden, h2)
                  else (kNoRequest, h2)))"

section \<open>Headers\<close>

text \<open>
  \<open>^([^:]+): *(.+)$\<close>. The blanks after the colon are taken greedily, but the value needs one
  character; the dot matches no line terminator.
\<close>

definition not_colon :: "char \<Rightarrow> bool" where
  "not_colon c \<longleftrightarrow> c \<noteq> CHR '':''"

definition is_blank :: "char \<Rightarrow> bool" where
  "is_blank c \<longleftrightarrow> c = CHR '' ''"

definition not_newline :: "char \<Rightarrow> bool" where
  "not_newline c \<longleftrightarrow> c \<noteq> CHR 0x0A \<and> c \<noteq> CHR 0x0D"

definition match_header :: "string \<Rightarrow> (string \<times> string) option" where
  "match_header line =
     (let k = takeWhile not_colon line; r = dropWhile not_colon line; w = tl r;
          v = (if list_all is_blank w then drop (length w - 1) w else dropWhile is_blank w)
      in if k \<noteq> [] \<and> r \<noteq> [] \<and> v \<noteq> [] \<and> list_all not_newline v then Some (k, v) else None)"

definition kContentLength :: string where
  "kContentLength = ''Content-Length''"

definition parseRequestHeader :: "HttpConnection \<Rightarrow> string \<Rightarrow> (HttpCode \<times> HttpConnection) res" where
  "parseRequestHeader h line =
     (if line = []
      then (case header h kContentLength of
              None \<Rightarrow> Inr (kGetRequest, h\<lparr>parseState := kFinish\<rparr>)
            | Some s \<Rightarrow> bindR (std_stoi s) (\<lambda>n.
                if n = 0 then Inr (kGetRequest, h\<lparr>parseState := kFinish\<rparr>)
                else Inr (kNoRequest, h\<lparr>parseState := kBody\<rparr>)))
      else (case match_header line of
              None \<Rightarrow> Inr (kBadRequest, h)
            | Some (k, v) \<Rightarrow> Inr (kNoRequest, h\<lparr>header := (header h)(k \<mapsto> v)\<rparr>)))"

section \<open>The body\<close>

text \<open>\<open>strtol(s, nullptr, 16)\<close> on the two characters after a percent sign.\<close>

definition hex_val :: "char \<Rightarrow> nat option" where
  "hex_val c =
     (let n = of_char c in
      if 48 \<le> n \<and> n \<le> 57 then Some (n - 48)
      else if 97 \<le> n \<and> n \<le> 102 then Some (n - 87)
      else if 65 \<le> n \<and> n \<le> 70 then Some (n - 55) else (None::nat option))"

fun hex_acc :: "nat \<Rightarrow> string \<Rightarrow> nat" where
  "hex_acc a [] = a"
| "hex_acc a (c # cs) = (case hex_val c of None \<Rightarrow> a | Some d \<Rightarrow> hex_acc (16 * a + d) cs)"

definition strip_0x :: "string \<Rightarrow> string" where
  "strip_0x s =
     (if 3 \<le> length s \<and> s ! 0 = CHR ''0'' \<and> s ! 1 \<in> set ''xX'' \<and> hex_val (s ! 2) \<noteq> None
      then drop 2 s else s)"

definition strtol16 :: "string \<Rightarrow> int" where
  "strtol16 s =
     (let s1 = dropWhile is_space s in
      case s1 of
        [] \<Rightarrow> 0
      | c # cs \<Rightarrow> (if c = CHR ''-'' then - int (hex_acc 0 (strip_0x cs))
                  else if c = CHR ''+'' then int (hex_acc 0 (strip_0x cs))
                  else int (hex_acc 0 (strip_0x s1))))"

text \<open>\<open>parseFromUrlEncode\<close>: the loop over the body; \<open>cur\<close> says which string \<open>current\<close> points to.\<close>

datatype url_target = UKey | UValue

definition url_add :: "url_target \<Rightarrow> string \<Rightarrow> string \<times> string \<Rightarrow> string \<times> string" where
  "url_add cur s kv = (case cur of UKey \<Rightarrow> (fst kv @ s, snd kv) | UValue \<Rightarrow> (fst kv, snd kv @ s))"

fun url_loop ::
    "string \<Rightarrow> url_target \<Rightarrow> string \<times> string \<Rightarrow> (string \<rightharpoonup> string) \<Rightarrow> HttpCode \<times> (string \<rightharpoonup> string)" where
  "url_loop [] cur kv pst =
     (if fst kv = [] \<or> snd kv = [] then (kBadRequest, pst)
      else (kNoRequest, pst(fst kv \<mapsto> snd kv)))"
| "url_loop (c # cs) cur kv pst =
     (if c = CHR ''='' then url_loop cs UValue kv pst
      else if c = CHR ''&''
      then (if fst kv = [] \<or> snd kv = [] then (kBadRequest, pst)
            else url_loop cs UKey ([], []) (pst(fst kv \<mapsto> snd kv)))
      else if c = CHR ''+'' then url_loop cs cur (url_add cur '' '' kv) pst
      else if c = CHR ''%''
      then (if length cs < 2 then (kBadRequest, pst)
            else url_loop (drop 2 cs) cur (url_add cur (to_string (strtol16 (take 2 cs))) kv) pst)
      else url_loop cs cur (url_add cur [c] kv) pst)"

definition parseFromUrlEncode :: "HttpConnection \<Rightarrow> HttpCode \<times> HttpConnection" where
  "parseFromUrlEncode h =
     (let (r, pst) = url_loop (http_body h) UKey ([], []) (post h) in (r, h\<lparr>post := pst\<rparr>))"

definition parsePost :: "HttpConnection \<Rightarrow> HttpCode \<times> HttpConnection" where
  "parsePost h =
     (if http_body h = [] then (kNoRequest, h)
      else (case header h ''Content-Type'' of
              None \<Rightarrow> (kBadRequest, h)
            | Some t \<Rightarrow> if t = ''application/x-www-form-urlencoded'' then parseFromUrlEncode h
                        else (kNoRequest, h)))"

text \<open>\<open>userVerify\<close>; reading a missing form field inserts an empty one.\<close>

definition form_field :: "(string \<rightharpoonup> string) \<Rightarrow> string \<Rightarrow> string \<times> (string \<rightharpoonup> string)" where
  "form_field pst k = (case pst k of Some v \<Rightarrow> (v, pst) | None \<Rightarrow> ([], pst(k \<mapsto> [])))"

definition userVerify :: "filesystem \<Rightarrow> HttpConnection \<Rightarrow> HttpCode \<times> HttpConnection" where
  "userVerify fs h =
     (let h1 =
        (if find_sub ''register.html'' (http_path h) \<noteq> None then h\<lparr>http_path := ''/welcome.html''\<rparr>
         else if find_sub ''login.html'' (http_path h) \<noteq> None
         then (let (u, pst1) = form_field (post h) ''username'' in
               if u = ''admin''
               then (let (pw, pst2) = form_field pst1 ''password'' in
                     if pw = ''123456'' then h\<lparr>post := pst2, http_path := ''/welcome.html''\<rparr>
                     else h\<lparr>post := pst2, http_path := ''/error.html''\<rparr>)
               else h\<lparr>post := pst1, http_path := ''/error.html''\<rparr>)
         else h\<lparr>http_path := ''/error.html''\<rparr>)
      in (case fs_stat fs (file_name h1) of
            None \<Rightarrow> (kNoResource, h1)
          | Some s \<Rightarrow> (kNoRequest, h1\<lparr>requestFileStat := Some s\<rparr>)))"

definition parseRequestBody ::
    "filesystem \<Rightarrow> HttpConnection \<Rightarrow> string \<Rightarrow> (HttpCode \<times> HttpConnection) res" where
  "parseRequestBody fs h line =
     (let h1 = h\<lparr>http_body := http_body h @ line\<rparr> in
      case header h1 kContentLength of
        None \<Rightarrow> Inl (Thrown ''std::out_of_range'')
      | Some s \<Rightarrow> bindR (std_stoul s) (\<lambda>contentLength.
          if length (http_body h1) < contentLength then Inr (kNoRequest, h1)
          else if contentLength < length (http_body h1) then Inr (kBadRequest, h1)
          else if http_method h1 = ''POST''
          then (let (r1, h2) = parsePost h1 in
                if r1 \<noteq> kNoRequest then Inr (r1, h2)
                else let (r2, h3) = userVerify fs h2 in
                     if r2 \<noteq> kNoRequest then Inr (r2, h3)
                     else Inr (kGetRequest, h3\<lparr>parseState := kFinish\<rparr>))
          else Inr (kGetRequest, h1\<lparr>parseState := kFinish\<rparr>)))"

section \<open>The parse loop\<close>

text \<open>The line an iteration takes out of the buffer; no line is the return of \<open>kNoRequest\<close>.\<close>

definition next_line :: "HttpConnection \<Rightarrow> Buffer \<Rightarrow> (string option \<times> Buffer) res" where
  "next_line h b =
     (if parseState h = kBody
      then (case header h kContentLength of
              None \<Rightarrow> Inl (AssertFail ''header_.find(Content-Length) != header_.end()'')
            | Some s \<Rightarrow> bindR (std_stoul s) (\<lambda>n.
                let remain = szsub n (length (http_body h)) in
                if readableBytes b < remain then Inr (None, b)
                else bindR (retrieveAsString b remain) (\<lambda>(line, b1). Inr (Some line, b1))))
      else (case findCRLF b of
              None \<Rightarrow> Inr (None, b)
            | Some crlf \<Rightarrow>
                bindR (retrieveAsString b (crlf - Buffer_peek b)) (\<lambda>(line, b1).
                  bindR (retrieveUntil b1 (crlf + 2)) (\<lambda>b2. Inr (Some line, b2)))))"

definition parse_line ::
    "filesystem \<Rightarrow> HttpConnection \<Rightarrow> string \<Rightarrow> (HttpCode \<times> HttpConnection) res" where
  "parse_line fs h line =
     (case parseState h of
        kRequestLine \<Rightarrow> Inr (parseRequestLine fs h line)
      | kHeader \<Rightarrow> parseRequestHeader h line
      | kBody \<Rightarrow> parseRequestBody fs h line
      | kFinish \<Rightarrow> Inr (kNoRequest, h))"

fun parse_loop ::
    "nat \<Rightarrow> filesystem \<Rightarrow> HttpConnection \<Rightarrow> Buffer \<Rightarrow> (HttpCode \<times> HttpConnection \<times> Buffer) res option" where
  "parse_loop fuel fs h b =
     (if parseState h = kFinish then Some (Inr (kGetRequest, h, b))
      else (case fuel of 0 \<Rightarrow> None
        | Suc k \<Rightarrow>
            (case next_line h b of
               Inl e \<Rightarrow> Some (Inl e)
             | Inr (None, b1) \<Rightarrow> Some (Inr (kNoRequest, h, b1))
             | Inr (Some line, b1) \<Rightarrow>
                 (case parse_line fs h line of
                    Inl e \<Rightarrow> Some (Inl e)
                  | Inr (ret, h1) \<Rightarrow>
                      if ret \<noteq> kNoRequest then Some (Inr (ret, h1, b1))
                      else parse_loop k fs h1 b1))))"

definition parse_fuel :: "Buffer \<Rightarrow> nat" where
  "parse_fuel b = readableBytes b + 2"

definition parseRequest ::
    "filesystem \<Rightarrow> HttpConnection \<Rightarrow> Buffer \<Rightarrow> (HttpCode \<times> HttpConnection \<times> Buffer) res option" where
  "parseRequest fs h b = parse_loop (parse_fuel b) fs h b"

section \<open>The response\<close>

fun response_code :: "HttpCode \<Rightarrow> int" where
  "response_code kGetRequest = 200"
| "response_code kBadRequest = 400"
| "response_code kForbidden = 403"
| "response_code kNoResource = 404"
| "response_code kNoRequest = 400"

definition initResponse :: "filesystem \<Rightarrow> HttpConnection \<Rightarrow> HttpCode \<Rightarrow> HttpConnection res" where
  "initResponse fs h code =
     (let h1 = h\<lparr>responseCode := response_code code\<rparr> in
      if responseCode h1 \<noteq> 200
      then (let h2 = h1\<lparr>http_path := ''/'' @ to_string (responseCode h1) @ ''.html''\<rparr> in
            case fs_stat fs (file_name h2) of
              None \<Rightarrow> Inl (FatalLog ''HttpConnection::initResponse(), stat error'')
            | Some s \<Rightarrow> Inr (h2\<lparr>requestFileStat := Some s\<rparr>))
      else Inr h1)"

definition crlf_str :: string where
  "crlf_str = kCRLF"

definition response_line :: "HttpConnection \<Rightarrow> string res" where
  "response_line h =
     assertR (responseCode h \<noteq> -1) ''responseCode_ != -1''
       (case kResponses (responseCode h) of
          None \<Rightarrow> Inl (AssertFail ''kResponses.find(responseCode_) != kResponses.end()'')
        | Some txt \<Rightarrow> Inr (''HTTP/1.1 '' @ to_string (responseCode h) @ '' '' @ txt @ crlf_str))"

definition wants_keepAlive :: "HttpConnection \<Rightarrow> bool" where
  "wants_keepAlive h \<longleftrightarrow> header h ''Connection'' = Some ''keep-alive'' \<and> http_version h = ''1.1''"

text \<open>The suffix from the last dot, and the media type of a path.\<close>

definition path_suffix :: "string \<Rightarrow> string option" where
  "path_suffix p =
     (if CHR ''.'' \<in> set p then Some (CHR ''.'' # rev (takeWhile (\<lambda>c. c \<noteq> CHR ''.'') (rev p))) else None)"

definition content_type :: "string \<Rightarrow> string" where
  "content_type p =
     (case path_suffix p of None \<Rightarrow> ''text/plain''
      | Some suffix \<Rightarrow> (case kMimeType suffix of None \<Rightarrow> ''text/plain'' | Some t \<Rightarrow> t))"

definition header_chunks :: "HttpConnection \<Rightarrow> nat \<Rightarrow> string list" where
  "header_chunks h len =
     [''Connection: ''] @
     (if wants_keepAlive h then [''keep-alive'' @ crlf_str, ''Keep-Alive: max=6, timeout=120'' @ crlf_str]
      else [''close'' @ crlf_str]) @
     [''Content-Type: '', content_type (http_path h) @ crlf_str,
      ''Content-Length: '' @ to_string (int len) @ crlf_str, crlf_str]"

definition append_all :: "Buffer \<Rightarrow> string list \<Rightarrow> Buffer res" where
  "append_all b ss = foldR (\<lambda>s b. Buffer_append b s) ss b"

definition makeResponseLine :: "HttpConnection \<Rightarrow> Buffer \<Rightarrow> Buffer res" where
  "makeResponseLine h b = bindR (response_line h) (Buffer_append b)"

definition stat_size :: "HttpConnection \<Rightarrow> nat res" where
  "stat_size h =
     (case requestFileStat h of None \<Rightarrow> Inl (BadAccess ''requestFileStat_'') | Some s \<Rightarrow> Inr (st_size s))"

definition makeResponseHeader :: "HttpConnection \<Rightarrow> Buffer \<Rightarrow> (HttpConnection \<times> Buffer) res" where
  "makeResponseHeader h b =
     bindR (stat_size h) (\<lambda>n.
       bindR (append_all b (header_chunks h n)) (\<lambda>b1.
         Inr (h\<lparr>keepAlive := wants_keepAlive h\<rparr>, b1)))"

definition makeResponseBody :: "filesystem \<Rightarrow> HttpConnection \<Rightarrow> Buffer \<Rightarrow> Buffer res" where
  "makeResponseBody fs h b =
     bindR (stat_size h) (\<lambda>n.
       if \<not> fs_open fs (file_name h) then Inl (FatalLog ''HttpConnection::makeResponseBody(), open error'')
       else (case fs_mmap fs (file_name h) n of
               None \<Rightarrow> Inl (FatalLog ''HttpConnection::makeResponseBody(), mmap error'')
             | Some bytes \<Rightarrow> Buffer_append b bytes))"

definition makeResponse ::
    "filesystem \<Rightarrow> HttpConnection \<Rightarrow> Buffer \<Rightarrow> HttpCode \<Rightarrow> (HttpConnection \<times> Buffer) res" where
  "makeResponse fs h b parseRet =
     assertR (parseRet \<noteq> kNoRequest) ''parseRet != kNoRequest''
       (bindR (initResponse fs h parseRet) (\<lambda>h1.
         bindR (makeResponseLine h1 b) (\<lambda>b1.
           bindR (makeResponseHeader h1 b1) (\<lambda>(h2, b2).
             bindR (makeResponseBody fs h2 b2) (\<lambda>b3. Inr (h2, b3))))))"

section \<open>The server's callbacks\<close>

text \<open>
  \<open>setContext\<close> and \<open>getContext\<close>. A timer callback is known by the connection it was bound to; \<open>p\<close> is the
  address of the new timer.
\<close>

definition context_put :: "'z conn_world_scheme \<Rightarrow> nat \<Rightarrow> HttpConnection \<Rightarrow> 'z conn_world_scheme res" where
  "context_put st c h = bindR (conn_deref st c) (\<lambda>x. Inr (conn_put st c (x\<lparr>conn_context := Some h\<rparr>)))"

definition get_context :: "'z conn_world_scheme \<Rightarrow> nat \<Rightarrow> HttpConnection res" where
  "get_context st c =
     bindR (conn_deref st c) (\<lambda>x. case conn_context x of None \<Rightarrow> Inl (BadAccess ''context_'') | Some h \<Rightarrow> Inr h)"

text \<open>\<open>conn->send(conn->outputBuffer())\<close>.\<close>

definition send_output ::
    "(Functor \<Rightarrow> 'z conn_world_scheme \<Rightarrow> 'z conn_world_scheme res) \<Rightarrow> nat \<Rightarrow>
     'z conn_world_scheme \<Rightarrow> 'z conn_world_scheme res" where
  "send_output exec c st =
     bindR (conn_deref st c) (\<lambda>x.
       if conn_state x = kConnected
       then bindR (retrieveAllAsString (outputBuffer x)) (\<lambda>(msg, b).
              runInLoop exec (F_sendInLoop c msg) (conn_put st c (x\<lparr>outputBuffer := b\<rparr>)))
       else Inr st)"

definition respond ::
    "filesystem \<Rightarrow> (Functor \<Rightarrow> 'z conn_world_scheme \<Rightarrow> 'z conn_world_scheme res) \<Rightarrow> nat \<Rightarrow>
     HttpCode \<Rightarrow> 'z conn_world_scheme \<Rightarrow> 'z conn_world_scheme res" where
  "respond fs exec c ret st =
     bindR (conn_deref st c) (\<lambda>x. bindR (get_context st c) (\<lambda>h.
       bindR (makeResponse fs h (outputBuffer x) ret) (\<lambda>(h1, b).
         bindR (send_output exec c (conn_put st c (x\<lparr>outputBuffer := b, conn_context := Some h1\<rparr>))) (\<lambda>st1.
           if \<not> keepAlive h1 then TcpConnection_shutdown exec c st1
           else context_put st1 c (resetState h1)))))"

definition processMessage ::
    "filesystem \<Rightarrow> (Functor \<Rightarrow> 'z conn_world_scheme \<Rightarrow> 'z conn_world_scheme res) \<Rightarrow> nat \<Rightarrow>
     'z conn_world_scheme \<Rightarrow> 'z conn_world_scheme res option" where
  "processMessage fs exec c st =
     (case bindR (conn_deref st c) (\<lambda>x. bindR (get_context st c) (\<lambda>h. Inr (x, h))) of
        Inl e \<Rightarrow> Some (Inl e)
      | Inr (x, h) \<Rightarrow> map_option (\<lambda>r. bindR r (\<lambda>(ret, h1, b1).
          let st1 = conn_put st c (x\<lparr>inputBuffer := b1, conn_context := Some h1\<rparr>) in
          if ret = kNoRequest then Inr st1 else respond fs exec c ret st1))
          (parseRequest fs h (inputBuffer x)))"

definition idle_timeout :: double where
  "idle_timeout = Dbl 60 0"

text \<open>\<open>timeoutCallback\<close>, bound with the connection.\<close>

definition timeoutCallback ::
    "(Functor \<Rightarrow> 'z conn_world_scheme \<Rightarrow> 'z conn_world_scheme res) \<Rightarrow> nat \<Rightarrow>
     'z conn_world_scheme \<Rightarrow> 'z conn_world_scheme res" where
  "timeoutCallback exec c st =
     (case conns st c of None \<Rightarrow> Inr st | Some x \<Rightarrow> TcpConnection_shutdown exec c st)"

definition source_dir :: string where
  "source_dir = ''/home/lofivo/Repository/myMuduo/resources''"

definition Http_onConnection ::
    "timer_ptr \<Rightarrow> nat \<Rightarrow> 'z conn_world_scheme \<Rightarrow> 'z conn_world_scheme res" where
  "Http_onConnection p c st =
     bindR (conn_deref st c) (\<lambda>x.
       if TcpConnection_connected x
       then bindR (runAfter p idle_timeout c st) (\<lambda>(tid, st1).
              context_put st1 c ((HttpConnection_new source_dir)\<lparr>http_timerId := tid\<rparr>))
       else bindR (get_context st c) (\<lambda>h. EventLoop_cancel (http_timerId h) st))"

definition Http_onMessage ::
    "filesystem \<Rightarrow> (Functor \<Rightarrow> 'z conn_world_scheme \<Rightarrow> 'z conn_world_scheme res) \<Rightarrow> timer_ptr \<Rightarrow> nat \<Rightarrow>
     'z conn_world_scheme \<Rightarrow> 'z conn_world_scheme res option" where
  "Http_onMessage fs exec p c st =
     (case bindR (get_context st c) (\<lambda>h.
        bindR (EventLoop_cancel (http_timerId h) st) (\<lambda>st1.
          bindR (runAfter p idle_timeout c st1) (\<lambda>(tid, st2).
            context_put st2 c (h\<lparr>http_timerId := tid\<rparr>)))) of
        Inl e \<Rightarrow> Some (Inl e)
      | Inr st3 \<Rightarrow> processMessage fs exec c st3)"

end
