(* ===== verification/Http_Parsing.thy ===== *)
theory Http_Parsing
  imports HttpConnection
begin

text \<open>
  The parser: the two patterns against their meaning, what an iteration of the loop takes out of
  the buffer, termination, the round trip from a printed request, and the inputs that end the
  process.
\<close>

declare parse_loop.simps [simp del]

section \<open>The patterns\<close>

lemma takeWhile_split:
  "list_all P xs \<Longrightarrow> ys = [] \<or> \<not> P (hd ys) \<Longrightarrow> takeWhile P (xs @ ys) = xs \<and> dropWhile P (xs @ ys) = ys"
  by (cases ys) (auto simp: list_all_iff takeWhile_append dropWhile_append)

lemma list_all_takeWhile: "list_all P (takeWhile P xs)"
  by (auto simp: list_all_iff dest: set_takeWhileD)

lemma match_request_line_complete:
  assumes "m \<noteq> []" "p \<noteq> []" "v \<noteq> []" "list_all not_blank m" "list_all not_blank p" "list_all not_blank v"
  shows "match_request_line (m @ '' '' @ p @ '' HTTP/'' @ v) = Some (m, p, v)"
proof -
  have 1: "takeWhile not_blank (m @ '' '' @ p @ '' HTTP/'' @ v) = m"
    "dropWhile not_blank (m @ '' '' @ p @ '' HTTP/'' @ v) = '' '' @ p @ '' HTTP/'' @ v"
    using takeWhile_split [of not_blank m "'' '' @ p @ '' HTTP/'' @ v"] assms(4) by (simp_all add: not_blank_def)
  have 2: "takeWhile not_blank (p @ '' HTTP/'' @ v) = p"
    "dropWhile not_blank (p @ '' HTTP/'' @ v) = '' HTTP/'' @ v"
    using takeWhile_split [of not_blank p "'' HTTP/'' @ v"] assms(5) by (simp_all add: not_blank_def)
  show ?thesis
    unfolding match_request_line_def 1 Let_def using 2 assms by (simp add: http_slash_def)
qed

lemma match_request_line_sound:
  assumes "match_request_line line = Some (m, p, v)"
  shows "line = m @ '' '' @ p @ '' HTTP/'' @ v \<and> m \<noteq> [] \<and> p \<noteq> [] \<and> v \<noteq> [] \<and>
    list_all not_blank m \<and> list_all not_blank p \<and> list_all not_blank v"
proof -
  define r1 where "r1 = dropWhile not_blank line"
  define r2 where "r2 = dropWhile not_blank (tl r1)"
  have *: "m = takeWhile not_blank line" "p = takeWhile not_blank (tl r1)" "r1 \<noteq> []" "r2 \<noteq> []"
    "take (length http_slash) (tl r2) = http_slash" "v = drop (length http_slash) (tl r2)"
    "m \<noteq> []" "p \<noteq> []" "v \<noteq> []" "list_all not_blank v"
    using assms unfolding match_request_line_def Let_def r1_def [symmetric] r2_def [symmetric]
    by (metis option.distinct(1) option.inject prod.inject)+
  have hd: "hd r1 = CHR '' ''" "hd r2 = CHR '' ''"
    using hd_dropWhile [of not_blank line] hd_dropWhile [of not_blank "tl r1"] *(3,4)
    by (auto simp: r1_def r2_def not_blank_def)
  have "line = m @ r1" by (simp add: *(1) r1_def)
  also have "r1 = CHR '' '' # tl r1" using *(3) hd(1) by (cases r1) auto
  also have "tl r1 = p @ r2" by (simp add: *(2) r2_def)
  also have "r2 = CHR '' '' # tl r2" using *(4) hd(2) by (cases r2) auto
  also have "tl r2 = http_slash @ v" using *(5,6) by (metis append_take_drop_id)
  finally show ?thesis using * by (simp add: http_slash_def list_all_takeWhile)
qed

lemma match_header_complete:
  assumes "k \<noteq> []" "list_all not_colon k" "list_all is_blank sp" "v \<noteq> []" "list_all not_newline v"
    "is_blank (hd v) \<Longrightarrow> length v = 1"
  shows "match_header (k @ '':'' @ sp @ v) = Some (k, v)"
proof -
  have 1: "takeWhile not_colon (k @ '':'' @ sp @ v) = k" "dropWhile not_colon (k @ '':'' @ sp @ v) = '':'' @ sp @ v"
    using takeWhile_split [of not_colon k "'':'' @ sp @ v"] assms(2) by (simp_all add: not_colon_def)
  have e: "(if list_all is_blank (sp @ v) then drop (length (sp @ v) - 1) (sp @ v) else dropWhile is_blank (sp @ v)) = v"
  proof (cases "is_blank (hd v)")
    case True
    then obtain c where "v = [c]" "is_blank c" using assms(6) by (metis One_nat_def length_0_conv length_Suc_conv list.sel(1))
    then show ?thesis using assms(3) by simp
  next
    case False
    then have "\<not> list_all is_blank (sp @ v)" using assms(4) by (cases v) auto
    moreover have "dropWhile is_blank (sp @ v) = v"
      using takeWhile_split [of is_blank sp v] assms(3) False by auto
    ultimately show ?thesis by (simp only: if_False)
  qed
  have t: "tl ('':'' @ sp @ v) = sp @ v" by simp
  show ?thesis unfolding match_header_def 1 Let_def t e using assms by simp
qed

lemma match_header_sound:
  assumes "match_header line = Some (k, v)"
  shows "\<exists>sp. line = k @ '':'' @ sp @ v \<and> k \<noteq> [] \<and> list_all not_colon k \<and> list_all is_blank sp \<and>
    v \<noteq> [] \<and> list_all not_newline v \<and> (is_blank (hd v) \<longrightarrow> length v = 1)"
proof -
  define r where "r = dropWhile not_colon line"
  define w where "w = tl r"
  have *: "k = takeWhile not_colon line" "r \<noteq> []" "k \<noteq> []" "v \<noteq> []" "list_all not_newline v"
    "v = (if list_all is_blank w then drop (length w - 1) w else dropWhile is_blank w)"
    using assms by (auto simp: match_header_def Let_def r_def w_def split: if_splits)
  have "hd r = CHR '':''" using hd_dropWhile [of not_colon line] *(2) by (auto simp: r_def not_colon_def)
  then have "r = '':'' @ w" using *(2) by (cases r) (auto simp: w_def)
  moreover have "line = k @ r" by (simp add: *(1) r_def)
  ultimately have line: "line = k @ '':'' @ w" by simp
  show ?thesis
  proof (cases "list_all is_blank w")
    case True
    then have v: "v = drop (length w - 1) w" using * by simp
    then have "w = take (length w - 1) w @ v" by simp
    moreover have "list_all is_blank (take (length w - 1) w)" using True by (auto simp: list_all_iff dest: in_set_takeD)
    moreover have "length v = 1" using v *(4) by (cases w) auto
    ultimately show ?thesis using line * list_all_takeWhile by metis
  next
    case False
    then have v: "v = dropWhile is_blank w" using * by simp
    then have "w = takeWhile is_blank w @ v" by simp
    moreover have "\<not> is_blank (hd v)" using hd_dropWhile v *(4) by metis
    ultimately show ?thesis using line * list_all_takeWhile by metis
  qed
qed

text \<open>C38. \<open>parseRequestLine\<close> accepts exactly the lines of the form method, blank, target, blank,
  \<open>HTTP/\<close>, version, each part non-empty and free of blanks, and returns those parts.\<close>

theorem request_line_pattern:
  "match_request_line line = Some (m, p, v) \<longleftrightarrow>
   line = m @ '' '' @ p @ '' HTTP/'' @ v \<and> m \<noteq> [] \<and> p \<noteq> [] \<and> v \<noteq> [] \<and>
     list_all not_blank m \<and> list_all not_blank p \<and> list_all not_blank v"
  using match_request_line_complete match_request_line_sound by blast

text \<open>\<open>parseRequestHeader\<close> accepts exactly the lines made of a non-empty name without colon, a
  colon, blanks, and a non-empty value without line terminators; the blanks after the colon belong
  to the value only when nothing else does.\<close>

theorem header_pattern:
  "match_header line = Some (k, v) \<longleftrightarrow>
   (\<exists>sp. line = k @ '':'' @ sp @ v \<and> k \<noteq> [] \<and> list_all not_colon k \<and> list_all is_blank sp \<and>
      v \<noteq> [] \<and> list_all not_newline v \<and> (is_blank (hd v) \<longrightarrow> length v = 1))"
  using match_header_complete match_header_sound by metis

theorem header_pattern_witness:
  "match_header ''Host:  a b'' = Some (''Host'', ''a b'')"
  unfolding header_pattern
  by (intro exI [of _ "''  ''"]) (simp add: not_colon_def is_blank_def not_newline_def)

section \<open>One iteration\<close>

lemma find_sub_CRLF:
  assumes "list_all not_newline line"
  shows "find_sub kCRLF (line @ kCRLF @ rest) = Some (length line)"
  using assms
proof (induction line)
  case Nil
  then show ?case by (simp add: kCRLF_def)
next
  case (Cons c line)
  then have "c \<noteq> CHR 0x0D" by (simp add: not_newline_def)
  then have "take (length kCRLF) (c # line @ kCRLF @ rest) \<noteq> kCRLF" by (simp add: kCRLF_def)
  then have "find_sub kCRLF (c # line @ kCRLF @ rest) = map_option Suc (find_sub kCRLF (line @ kCRLF @ rest))"
    by (simp only: find_sub.simps if_False)
  moreover have "list_all not_newline line" using Cons.prems by simp
  ultimately show ?case using Cons.IH by simp
qed

lemma next_line_at:
  assumes inv: "Buffer_inv b" and st: "parseState h \<noteq> kBody"
    and f: "find_sub kCRLF (contents b) = Some k"
  shows "\<exists>b'. next_line h b = Inr (Some (take k (contents b)), b') \<and> Buffer_inv b' \<and>
    contents b' = drop (k + 2) (contents b) \<and> k + 2 \<le> length (contents b)"
proof -
  have k: "k + 2 \<le> length (contents b)" using find_sub_Some [OF f] by (simp add: length_kCRLF)
  have crlf: "findCRLF b = Some (readerIndex b + k)" using f by (simp add: findCRLF_eq)
  obtain b1 where b1: "retrieveAsString b k = Inr (take k (contents b), b1)" "Buffer_inv b1"
    "contents b1 = drop k (contents b)" using retrieveAsString_spec [OF inv, of k] k by auto
  have r1: "readerIndex b1 = readerIndex b + k \<and> writerIndex b1 = writerIndex b"
  proof -
    have "k < readableBytes b" using k length_contents [OF inv] by simp
    moreover have "szadd (readerIndex b) k = readerIndex b + k"
      using Buffer_invD [OF inv] k length_contents [OF inv] readableBytes_eq [OF inv]
      by (intro szadd_no_wrap) linarith
    ultimately show ?thesis using b1(1)
      by (auto simp: retrieveAsString_def Buffer_retrieve_def res_iffs)
  qed
  have "readerIndex b1 \<le> readerIndex b + k + 2" "readerIndex b + k + 2 \<le> writerIndex b1"
    using r1 k length_contents [OF inv] readableBytes_eq [OF inv] by auto
  then obtain b2 where b2: "retrieveUntil b1 (readerIndex b + k + 2) = Inr b2" "Buffer_inv b2"
    "contents b2 = drop (readerIndex b + k + 2 - readerIndex b1) (contents b1)"
    using retrieveUntil_spec [OF b1(2)] by blast
  have "contents b2 = drop (k + 2) (contents b)" using b2(3) b1(3) r1 by simp
  then show ?thesis using st crlf b1(1) b2(1,2) k by (simp add: next_line_def Buffer_peek_def)
qed

lemma next_line_cons:
  assumes "Buffer_inv b" and "parseState h \<noteq> kBody" and "list_all not_newline line"
    and "contents b = line @ kCRLF @ rest"
  shows "\<exists>b'. next_line h b = Inr (Some line, b') \<and> Buffer_inv b' \<and> contents b' = rest"
  using next_line_at [OF assms(1,2), of "length line"] assms(3,4) find_sub_CRLF [of line rest]
  by (auto simp: kCRLF_def)

text \<open>Reading moves the indices only.\<close>

lemma next_line_storage:
  assumes "next_line h b = Inr (l, b1)"
  shows "storage b1 = storage b"
proof -
  have r: "storage b2 = storage b" if "retrieveAsString b n = Inr (s, b2)" for b n s b2
    using that by (auto simp: retrieveAsString_def Buffer_retrieve_def retrieveAll_def storage_def res_iffs split: if_splits)
  have u: "storage b2 = storage b" if "retrieveUntil b n = Inr b2" for b n b2
    using that by (auto simp: retrieveUntil_def Buffer_retrieve_def retrieveAll_def storage_def res_iffs split: if_splits)
  show ?thesis using assms
    by (auto simp: next_line_def res_iffs Let_def split: if_splits option.splits dest!: r u)
qed

lemma parse_storage:
  assumes "parseRequest fs h b = Some (Inr (ret, h', b'))"
  shows "storage b' = storage b"
proof -
  have "parse_loop fuel fs h b = Some (Inr (ret, h', b')) \<Longrightarrow> storage b' = storage b" for fuel
  proof (induction fuel arbitrary: h b)
    case 0
    then show ?case by (subst (asm) parse_loop.simps) (simp split: if_splits)
  next
    case (Suc k)
    show ?case
    proof (cases "parseState h = kFinish")
      case True
      then show ?thesis using Suc.prems by (subst (asm) parse_loop.simps) simp
    next
      case False
      then have "(case next_line h b of Inl e \<Rightarrow> Some (Inl e) | Inr (None, b1) \<Rightarrow> Some (Inr (kNoRequest, h, b1))
         | Inr (Some line, b1) \<Rightarrow> (case parse_line fs h line of Inl e \<Rightarrow> Some (Inl e)
            | Inr (r, h1) \<Rightarrow> if r \<noteq> kNoRequest then Some (Inr (r, h1, b1)) else parse_loop k fs h1 b1)) = Some (Inr (ret, h', b'))"
        using Suc.prems by (subst (asm) parse_loop.simps) simp
      then show ?thesis
        by (auto simp del: parse_loop.simps split: sum.splits prod.splits option.splits if_splits
            dest!: next_line_storage Suc.IH)
    qed
  qed
  then show ?thesis using assms by (simp add: parseRequest_def)
qed

lemma next_line_shrinks:
  assumes "Buffer_inv b" and "parseState h \<noteq> kBody" and "next_line h b = Inr (Some line, b1)"
  shows "Buffer_inv b1 \<and> length (contents b1) + 2 \<le> length (contents b)"
proof -
  from assms(2,3) obtain k where "find_sub kCRLF (contents b) = Some k"
    by (auto simp: next_line_def findCRLF_eq split: option.splits)
  from next_line_at [OF assms(1,2) this] assms(3) show ?thesis by auto
qed

lemma stoul_less: "std_stoul s = Inr n \<Longrightarrow> n < 2 ^ 64"
  by (auto simp: std_stoul_def Let_def szsub_def split: prod.splits if_splits)

lemma szsub_sum: "n < 2 ^ 64 \<Longrightarrow> n \<le> L + szsub n L"
proof -
  assume n: "n < 2 ^ 64"
  have "L mod 2 ^ 64 \<le> 2 ^ 64" by (simp add: less_imp_le)
  then have "(L + szsub n L) mod 2 ^ 64 = (L mod 2 ^ 64 + (n + (2 ^ 64 - L mod 2 ^ 64))) mod 2 ^ 64"
    by (simp only: szsub_def mod_add_left_eq mod_add_right_eq)
  also have "\<dots> = (n + 2 ^ 64) mod 2 ^ 64" using \<open>L mod 2 ^ 64 \<le> 2 ^ 64\<close> by (simp add: algebra_simps)
  finally have "(L + szsub n L) mod 2 ^ 64 = n" using n by simp
  then show ?thesis by (metis mod_less_eq_dividend)
qed

text \<open>The body is taken in one piece: an iteration on it never asks for another.\<close>

lemma body_returns:
  assumes inv: "Buffer_inv b" and st: "parseState h = kBody" and nl: "next_line h b = Inr (Some line, b1)"
    and pl: "parse_line fs h line = Inr (ret, h1)"
  shows "ret \<noteq> kNoRequest"
proof -
  from st nl obtain s n where s: "header h kContentLength = Some s" "std_stoul s = Inr n"
    and r: "\<not> readableBytes b < szsub n (length (http_body h))"
      "retrieveAsString b (szsub n (length (http_body h))) = Inr (line, b1)"
    by (auto simp: next_line_def res_iffs Let_def split: option.splits if_splits)
  have "length line = szsub n (length (http_body h))"
    using retrieveAsString_spec [OF inv, of "szsub n (length (http_body h))"] r length_contents [OF inv]
    by (auto simp: min_def)
  then have "\<not> length (http_body h @ line) < n" using szsub_sum [OF stoul_less [OF s(2)], of "length (http_body h)"] by simp
  with pl st s show ?thesis
    by (auto simp: parse_line_def parseRequestBody_def Let_def split: if_splits prod.splits)
qed

section \<open>Termination\<close>

lemma parse_loop_total:
  "Buffer_inv b \<Longrightarrow> length (contents b) < fuel \<Longrightarrow> parse_loop fuel fs h b \<noteq> None"
proof (induction fuel arbitrary: h b)
  case 0
  then show ?case by simp
next
  case (Suc k)
  have step: "\<exists>r. parse_loop k fs h1 b1 = Some r"
    if "next_line h b = Inr (Some line, b1)" "parse_line fs h line = Inr (kNoRequest, h1)" for line b1 h1
  proof -
    have "parseState h \<noteq> kBody" using body_returns [OF Suc.prems(1) _ that] by blast
    from next_line_shrinks [OF Suc.prems(1) this that(1)] Suc.prems(2)
    have "parse_loop k fs h1 b1 \<noteq> None" by (intro Suc.IH) auto
    then show ?thesis by blast
  qed
  show ?case
    by (subst parse_loop.simps)
      (auto simp: step split: sum.split prod.split option.split)
qed

text \<open>C26. The parse loop terminates on every input in every state: the fuel, the number of
  readable bytes plus two, never runs out.\<close>

theorem parseRequest_terminates:
  assumes "Buffer_inv b"
  shows "\<exists>r. parseRequest fs h b = Some r"
  using parse_loop_total [OF assms, of "parse_fuel b" fs h] length_contents [OF assms]
  by (auto simp: parseRequest_def parse_fuel_def)

theorem parseRequest_terminates_witness:
  "\<exists>r. parseRequest (\<lparr>fs_stat = (\<lambda>n. None), fs_open = (\<lambda>n. False), fs_mmap = (\<lambda>n k. None)\<rparr>)
      (HttpConnection_new ''/srv'') (Buffer_new 16) = Some r"
proof (rule parseRequest_terminates)
  show "Buffer_inv (Buffer_new 16)" by (rule Buffer_new_inv) (simp add: buffer_defs)
qed

section \<open>Round trip\<close>

definition print_header :: "string \<times> string \<Rightarrow> string" where
  "print_header kv = fst kv @ '': '' @ snd kv @ kCRLF"

definition print_request ::
    "string \<Rightarrow> string \<Rightarrow> string \<Rightarrow> (string \<times> string) list \<Rightarrow> string" where
  "print_request m p v hs =
     (m @ '' '' @ p @ '' HTTP/'' @ v) @ kCRLF @ concat (map print_header hs) @ kCRLF"

definition token :: "string \<Rightarrow> bool" where
  "token s \<longleftrightarrow> s \<noteq> [] \<and> list_all not_blank s \<and> list_all not_newline s"

definition wf_header :: "string \<times> string \<Rightarrow> bool" where
  "wf_header kv \<longleftrightarrow> fst kv \<noteq> [] \<and> list_all not_colon (fst kv) \<and> list_all not_newline (fst kv) \<and>
     snd kv \<noteq> [] \<and> list_all not_newline (snd kv) \<and> \<not> is_blank (hd (snd kv))"

definition full_path :: "string \<Rightarrow> string" where
  "full_path p = (if p = ''/'' then p @ ''index.html''
     else if CHR ''.'' \<notin> set p then p @ ''.html'' else p)"

lemma parse_loop_continue:
  assumes "parseState h \<noteq> kFinish" and "next_line h b = Inr (Some line, b1)"
    and "parse_line fs h line = Inr (kNoRequest, h1)"
  shows "parse_loop (Suc k) fs h b = parse_loop k fs h1 b1"
  using assms by (subst parse_loop.simps) simp

lemma parse_loop_return:
  assumes "parseState h \<noteq> kFinish" and "next_line h b = Inr (Some line, b1)"
    and "parse_line fs h line = Inr (ret, h1)" and "ret \<noteq> kNoRequest"
  shows "parse_loop (Suc k) fs h b = Some (Inr (ret, h1, b1))"
  using assms by (subst parse_loop.simps) simp

lemma parse_header_lines:
  assumes "Buffer_inv b" and "parseState h = kHeader" and "list_all wf_header hs"
    and "contents b = concat (map print_header hs) @ rest"
  shows "\<exists>b'. parse_loop (length hs + k) fs h b =
      parse_loop k fs (h\<lparr>header := header h ++ map_of (rev hs)\<rparr>) b' \<and> Buffer_inv b' \<and> contents b' = rest"
  using assms
proof (induction hs arbitrary: h b)
  case Nil
  then show ?case by (intro exI [of _ b]) simp
next
  case (Cons kv hs)
  obtain n v where kv: "kv = (n, v)" by (cases kv)
  let ?line = "n @ '': '' @ v"
  have wf: "n \<noteq> []" "list_all not_colon n" "list_all not_newline n" "v \<noteq> []" "list_all not_newline v"
    "\<not> is_blank (hd v)" using Cons.prems(3) by (auto simp: kv wf_header_def)
  have nl: "list_all not_newline ?line" using wf by (simp add: not_newline_def)
  have "print_header kv = ?line @ kCRLF" by (simp add: kv print_header_def)
  then have "contents b = ?line @ kCRLF @ concat (map print_header hs) @ rest"
    using Cons.prems(4) by simp
  from next_line_cons [OF Cons.prems(1) _ nl this, of h] obtain b1 where
    b1: "next_line h b = Inr (Some ?line, b1)" "Buffer_inv b1"
      "contents b1 = concat (map print_header hs) @ rest" using Cons.prems(2) by auto
  have "match_header ?line = Some (n, v)" using match_header_complete [of n "'' ''" v] wf by (simp add: is_blank_def)
  then have pl: "parse_line fs h ?line = Inr (kNoRequest, h\<lparr>header := (header h)(n \<mapsto> v)\<rparr>)"
    using Cons.prems(2) by (simp add: parse_line_def parseRequestHeader_def)
  let ?h = "h\<lparr>header := (header h)(n \<mapsto> v)\<rparr>"
  have "list_all wf_header hs" "parseState ?h = kHeader" using Cons.prems by simp_all
  from Cons.IH [OF b1(2) this(2,1) b1(3)] obtain b' where b':
    "parse_loop (length hs + k) fs ?h b1 = parse_loop k fs (?h\<lparr>header := header ?h ++ map_of (rev hs)\<rparr>) b'"
    "Buffer_inv b'" "contents b' = rest" by blast
  have map_eq: "header ?h ++ map_of (rev hs) = header h ++ map_of (rev (kv # hs))"
    by (simp add: kv map_add_upd_left [symmetric] map_add_def fun_eq_iff split: option.split)
  have "parse_loop (length (kv # hs) + k) fs h b = parse_loop (length hs + k) fs ?h b1"
    using parse_loop_continue [OF _ b1(1) pl, of "length hs + k"] Cons.prems(2) by simp
  then show ?case using b' map_eq by (intro exI [of _ b']) (simp add: kv)
qed

lemma length_headers: "length hs \<le> length (concat (map print_header hs))"
  by (induction hs) (auto simp: print_header_def kCRLF_def)

text \<open>The state before a request: a new connection's, and the one \<open>resetState\<close> leaves.\<close>

definition fresh_request :: "HttpConnection \<Rightarrow> bool" where
  "fresh_request h \<longleftrightarrow> parseState h = kRequestLine \<and> header h = Map.empty \<and> http_body h = []"

lemma fresh_request_intros [simp]: "fresh_request (HttpConnection_new dir)" "fresh_request (resetState h)"
  by (simp_all add: fresh_request_def HttpConnection_new_def resetState_def)

text \<open>The state in which the parser reaches the empty line that ends the headers.\<close>

definition head_state ::
    "HttpConnection \<Rightarrow> string \<Rightarrow> string \<Rightarrow> string \<Rightarrow> (string \<times> string) list \<Rightarrow> file_stat \<Rightarrow>
     HttpConnection" where
  "head_state h0 m p v hs s = h0\<lparr>http_method := m, http_path := full_path p,
     http_version := v, parseState := kHeader, requestFileStat := Some s, header := map_of (rev hs)\<rparr>"

definition readable_file :: "filesystem \<Rightarrow> string \<Rightarrow> file_stat \<Rightarrow> bool" where
  "readable_file fs name s \<longleftrightarrow> fs_stat fs (c_str name) = Some s \<and> \<not> st_isdir s \<and> st_roth s"

definition wf_request :: "string \<Rightarrow> string \<Rightarrow> string \<Rightarrow> (string \<times> string) list \<Rightarrow> bool" where
  "wf_request m p v hs \<longleftrightarrow> token m \<and> token p \<and> token v \<and> list_all wf_header hs"

lemma parse_head:
  assumes "Buffer_inv b" and "contents b = print_request m p v hs @ rest" and "wf_request m p v hs"
    and "readable_file fs (kSourceDir h0 @ full_path p) s"
    and "fresh_request h0"
  shows "\<exists>k b'. parseRequest fs h0 b =
      parse_loop (Suc (Suc k)) fs (head_state h0 m p v hs s) b' \<and> Buffer_inv b' \<and> contents b' = kCRLF @ rest"
proof -
    let ?line = "m @ '' '' @ p @ '' HTTP/'' @ v"
  have tok: "token m" "token p" "token v" "list_all wf_header hs" using assms(3) by (auto simp: wf_request_def)
  define h1 where "h1 = h0\<lparr>http_method := m, http_path := full_path p, http_version := v,
    parseState := kHeader, requestFileStat := Some s\<rparr>"
  have nl: "list_all not_newline ?line" using tok by (simp add: token_def not_newline_def)
  have "contents b = ?line @ kCRLF @ concat (map print_header hs) @ kCRLF @ rest"
    using assms(2) by (simp add: print_request_def)
  from next_line_cons [OF assms(1) _ nl this, of h0] obtain b1 where
    b1: "next_line h0 b = Inr (Some ?line, b1)" "Buffer_inv b1"
      "contents b1 = concat (map print_header hs) @ kCRLF @ rest"
    using assms(5) by (auto simp: fresh_request_def)
  have "match_request_line ?line = Some (m, p, v)"
    using match_request_line_complete [of m p v] tok by (simp add: token_def)
  then have pl1: "parse_line fs h0 ?line = Inr (kNoRequest, h1)"
    using assms(4,5)
    by (simp add: parse_line_def parseRequestLine_def Let_def h1_def fresh_request_def
        full_path_def file_name_def readable_file_def)
  have kh: "parseState h1 = kHeader" by (simp add: h1_def)
  have len: "readableBytes b = length ?line + 2 + (length (concat (map print_header hs)) + 2 + length rest)"
    using length_contents [OF assms(1)] assms(2) by (simp add: print_request_def kCRLF_def)
  define k where "k = parse_fuel b - length hs - 3"
  have k: "parse_fuel b = Suc (length hs + Suc (Suc k))"
    using length_headers [of hs] len by (simp add: parse_fuel_def k_def)
  obtain b2 where b2: "parse_loop (length hs + Suc (Suc k)) fs h1 b1 =
      parse_loop (Suc (Suc k)) fs (h1\<lparr>header := header h1 ++ map_of (rev hs)\<rparr>) b2"
    "Buffer_inv b2" "contents b2 = kCRLF @ rest"
    using parse_header_lines [OF b1(2) kh tok(4) b1(3), of "Suc (Suc k)" fs] by blast
  have "h1\<lparr>header := header h1 ++ map_of (rev hs)\<rparr> = head_state h0 m p v hs s"
    using assms(5) by (simp add: h1_def head_state_def fresh_request_def)
  moreover have "parseRequest fs h0 b = parse_loop (length hs + Suc (Suc k)) fs h1 b1"
    using parse_loop_continue [OF _ b1(1) pl1] k assms(5) by (simp add: parseRequest_def fresh_request_def)
  ultimately show ?thesis using b2 by auto
qed

lemma head_state_line:
  assumes "Buffer_inv b" and "contents b = kCRLF @ rest"
  shows "\<exists>b'. next_line (head_state h0 m p v hs s) b = Inr (Some [], b') \<and> Buffer_inv b' \<and> contents b' = rest"
  using next_line_cons [OF assms(1), of "head_state h0 m p v hs s" "[]" rest] assms(2)
  by (simp add: head_state_def)

lemma parse_request_spec:
  assumes "Buffer_inv b" and "contents b = print_request m p v hs @ rest" and "wf_request m p v hs"
    and "map_of (rev hs) kContentLength = None" and "readable_file fs (kSourceDir h0 @ full_path p) s"
    and "fresh_request h0"
  obtains b' where "parseRequest fs h0 b =
      Some (Inr (kGetRequest, (head_state h0 m p v hs s)\<lparr>parseState := kFinish\<rparr>, b'))"
    "Buffer_inv b'" "contents b' = rest"
proof -
  let ?h = "head_state h0 m p v hs s"
  obtain k b1 where b1: "parseRequest fs h0 b = parse_loop (Suc (Suc k)) fs ?h b1"
    "Buffer_inv b1" "contents b1 = kCRLF @ rest" using parse_head [OF assms(1-3,5,6)] by blast
  obtain b2 where b2: "next_line ?h b1 = Inr (Some [], b2)" "Buffer_inv b2" "contents b2 = rest"
    using head_state_line [OF b1(2,3)] by blast
  have pl: "parse_line fs ?h [] = Inr (kGetRequest, ?h\<lparr>parseState := kFinish\<rparr>)"
    using assms(4) by (simp add: parse_line_def parseRequestHeader_def head_state_def)
  have "parse_loop (Suc (Suc k)) fs ?h b1 = Some (Inr (kGetRequest, ?h\<lparr>parseState := kFinish\<rparr>, b2))"
    by (rule parse_loop_return [OF _ b2(1) pl]) (simp_all add: head_state_def)
  with b1(1) b2 that show ?thesis by simp
qed

text \<open>C17. Parsing is the inverse of printing: in the state before a request, first or later, a
  printed request without \<open>Content-Length\<close> for a readable file, followed by any bytes, is parsed into
  exactly its method, completed path, version and headers (the last of two headers with the same
  name wins), and the bytes that follow it stay in the buffer.\<close>

theorem parse_printed_request:
  assumes "Buffer_inv b" and "contents b = print_request m p v hs @ rest" and "wf_request m p v hs"
    and "map_of (rev hs) kContentLength = None" and "readable_file fs (kSourceDir h0 @ full_path p) s"
    and "fresh_request h0"
  shows "\<exists>h b'. parseRequest fs h0 b = Some (Inr (kGetRequest, h, b')) \<and>
    http_method h = m \<and> http_path h = full_path p \<and> http_version h = v \<and>
    header h = map_of (rev hs) \<and> parseState h = kFinish \<and> Buffer_inv b' \<and> contents b' = rest"
  by (rule parse_request_spec [OF assms]) (auto simp: head_state_def)

text \<open>C32. A body is read to its length and no further: a well-formed printed request for a readable file, of any method
  but \<open>POST\<close> (whose body is then decoded), with a \<open>Content-Length\<close> header that says the length of the body,
  positive and below \<open>2 ^ 31\<close>, parsed with a new context, takes exactly the bytes of the body, whatever
  they are, line ends included, and leaves what follows in the buffer.\<close>

theorem parse_printed_body:
  assumes "Buffer_inv b" and "contents b = print_request m p v hs @ body @ rest" and "wf_request m p v hs"
    and "map_of (rev hs) kContentLength = Some (dec_nat (length body))" and "m \<noteq> ''POST''"
    and "0 < length body" and "length body < 2 ^ 31" and "readable_file fs (kSourceDir h0 @ full_path p) s"
    and "fresh_request h0"
  shows "\<exists>h b'. parseRequest fs h0 b = Some (Inr (kGetRequest, h, b')) \<and>
    http_body h = body \<and> http_path h = full_path p \<and> parseState h = kFinish \<and> contents b' = rest"
proof -
  let ?h = "head_state h0 m p v hs s"
  obtain k b1 where b1: "parseRequest fs h0 b = parse_loop (Suc (Suc k)) fs ?h b1"
    "Buffer_inv b1" "contents b1 = kCRLF @ body @ rest" using parse_head [OF assms(1-3,8,9)] by blast
  obtain b2 where b2: "next_line ?h b1 = Inr (Some [], b2)" "Buffer_inv b2" "contents b2 = body @ rest"
    using head_state_line [OF b1(2,3)] by blast
  have hdr: "header ?h kContentLength = Some (dec_nat (length body))"
    using assms(4) by (simp add: head_state_def)
  have pl: "parse_line fs ?h [] = Inr (kNoRequest, ?h\<lparr>parseState := kBody\<rparr>)"
    using hdr stoi_dec_nat [OF assms(7)] assms(6)
    by (simp add: parse_line_def parseRequestHeader_def head_state_def)
  have p1: "parse_loop (Suc (Suc k)) fs ?h b1 = parse_loop (Suc k) fs (?h\<lparr>parseState := kBody\<rparr>) b2"
    by (rule parse_loop_continue [OF _ b2(1) pl]) (simp add: head_state_def)
  let ?g = "?h\<lparr>parseState := kBody\<rparr>"
  have ul: "std_stoul (dec_nat (length body)) = Inr (length body)"
    using assms(7) by (intro stoul_dec_nat) simp
  have sz: "szsub (length body) (length (http_body ?g)) = length body"
    using assms(7,9) by (simp add: head_state_def fresh_request_def szsub_def)
  obtain b3 where b3: "retrieveAsString b2 (length body) = Inr (body, b3)" "contents b3 = rest"
    using retrieveAsString_spec [OF b2(2), of "length body"] b2(3) by auto
  have nl: "next_line ?g b2 = Inr (Some body, b3)"
    using hdr ul sz b3(1) length_contents [OF b2(2)] b2(3) by (simp add: next_line_def Let_def)
  have pl3: "parse_line fs ?g body = Inr (kGetRequest, ?g\<lparr>http_body := body, parseState := kFinish\<rparr>)"
    using hdr ul assms(5,9) by (simp add: parse_line_def parseRequestBody_def head_state_def fresh_request_def Let_def)
  have "parse_loop (Suc k) fs ?g b2 = Some (Inr (kGetRequest, ?g\<lparr>http_body := body, parseState := kFinish\<rparr>, b3))"
    by (rule parse_loop_return [OF _ nl pl3]) (simp_all add: head_state_def)
  with b1(1) p1 b3 show ?thesis by (simp add: head_state_def)
qed

text \<open>A request whose \<open>Content-Length\<close> is not a number in the range of \<open>int\<close> raises an
  exception that nothing catches: the server process ends.\<close>

theorem bad_content_length_throws:
  assumes "Buffer_inv b" and "contents b = print_request m p v hs @ rest" and "wf_request m p v hs"
    and "map_of (rev hs) kContentLength = Some n" and "std_stoi n = Inl e"
    and "readable_file fs (kSourceDir h0 @ full_path p) s"
    and "fresh_request h0"
  shows "parseRequest fs h0 b = Some (Inl e)"
proof -
  let ?h = "head_state h0 m p v hs s"
  obtain k b1 where b1: "parseRequest fs h0 b = parse_loop (Suc (Suc k)) fs ?h b1"
    "Buffer_inv b1" "contents b1 = kCRLF @ rest" using parse_head [OF assms(1-3,6,7)] by blast
  obtain b2 where b2: "next_line ?h b1 = Inr (Some [], b2)" using head_state_line [OF b1(2,3)] by blast
  have "parse_line fs ?h [] = Inl e"
    using assms(4,5) by (simp add: parse_line_def parseRequestHeader_def head_state_def)
  with b2 have "parse_loop (Suc (Suc k)) fs ?h b1 = Some (Inl e)"
    by (subst parse_loop.simps) (simp add: head_state_def)
  with b1(1) show ?thesis by simp
qed

section \<open>Witnesses\<close>

text \<open>One readable file, and a buffer that holds given bytes.\<close>

definition one_file :: filesystem where
  "one_file = \<lparr>fs_stat = (\<lambda>n. Some \<lparr>st_isdir = False, st_roth = True, st_size = 5\<rparr>),
     fs_open = (\<lambda>n. True), fs_mmap = (\<lambda>n k. if k = 5 then Some ''hello'' else None)\<rparr>"

lemma buffer_holding: "length d \<le> 4096 \<Longrightarrow> \<exists>b. Buffer_inv b \<and> contents b = d"
proof -
  assume d: "length d \<le> 4096"
  have i: "Buffer_inv (Buffer_new 16)" by (rule Buffer_new_inv) (simp add: buffer_defs)
  have "storage (Buffer_new 16) + length d \<le> vector_max_size"
    using d by (simp add: storage_Buffer_new buffer_defs)
  from Buffer_append_spec [OF i this] show ?thesis by auto
qed

lemma one_file_readable: "readable_file one_file n \<lparr>st_isdir = False, st_roth = True, st_size = 5\<rparr>"
  by (simp add: readable_file_def one_file_def)

lemmas wf_eval = wf_request_def token_def wf_header_def not_blank_def not_newline_def not_colon_def
  is_blank_def kContentLength_def

theorem parse_printed_request_witness:
  "\<exists>b h b'. contents b = print_request ''GET'' ''/'' ''1.1'' [(''Host'', ''x'')] @ ''tail'' \<and>
    parseRequest one_file (HttpConnection_new ''/srv'') b = Some (Inr (kGetRequest, h, b')) \<and>
    http_path h = ''/index.html'' \<and> header h ''Host'' = Some ''x'' \<and> contents b' = ''tail''"
proof -
  obtain b where b: "Buffer_inv b" "contents b = print_request ''GET'' ''/'' ''1.1'' [(''Host'', ''x'')] @ ''tail''"
    using buffer_holding [of "print_request ''GET'' ''/'' ''1.1'' [(''Host'', ''x'')] @ ''tail''"]
    by (auto simp: print_request_def print_header_def kCRLF_def)
  have w: "wf_request ''GET'' ''/'' ''1.1'' [(''Host'', ''x'')]"
    "map_of (rev [(''Host'', ''x'')]) kContentLength = None" by (simp_all add: wf_eval)
  from parse_printed_request [OF b w one_file_readable fresh_request_intros(1), of "''/srv''"] b(2) show ?thesis
    by (auto simp: full_path_def)
qed

theorem parse_printed_body_witness:
  "\<exists>b h b'. contents b = print_request ''PUT'' ''/a.txt'' ''1.1'' [(''Content-Length'', ''2'')] @ ''okrest'' \<and>
    parseRequest one_file (HttpConnection_new ''/srv'') b = Some (Inr (kGetRequest, h, b')) \<and>
    http_body h = ''ok'' \<and> contents b' = ''rest''"
proof -
  let ?hs = "[(''Content-Length'', ''2'')]"
  obtain b where b: "Buffer_inv b" "contents b = print_request ''PUT'' ''/a.txt'' ''1.1'' ?hs @ ''ok'' @ ''rest''"
    using buffer_holding [of "print_request ''PUT'' ''/a.txt'' ''1.1'' ?hs @ ''ok'' @ ''rest''"]
    by (auto simp: print_request_def print_header_def kCRLF_def)
  have two: "dec_nat (length ''ok'') = ''2''" by code_simp
  have w: "wf_request ''PUT'' ''/a.txt'' ''1.1'' ?hs"
    "map_of (rev ?hs) kContentLength = Some (dec_nat (length ''ok''))" unfolding two by (simp_all add: wf_eval)
  have "\<exists>h b'. parseRequest one_file (HttpConnection_new ''/srv'') b = Some (Inr (kGetRequest, h, b')) \<and>
      http_body h = ''ok'' \<and> http_path h = full_path ''/a.txt'' \<and> parseState h = kFinish \<and> contents b' = ''rest''"
    by (rule parse_printed_body [OF b w _ _ _ one_file_readable]) simp_all
  with b(2) show ?thesis by auto
qed

theorem bad_content_length_throws_witness:
  "\<exists>b. contents b = print_request ''GET'' ''/'' ''1.1'' [(''Content-Length'', ''x'')] \<and>
    parseRequest one_file (HttpConnection_new ''/srv'') b = Some (Inl (Thrown ''std::invalid_argument''))"
proof -
  let ?hs = "[(''Content-Length'', ''x'')]"
  obtain b where b: "Buffer_inv b" "contents b = print_request ''GET'' ''/'' ''1.1'' ?hs @ []"
    using buffer_holding [of "print_request ''GET'' ''/'' ''1.1'' ?hs @ []"]
    by (auto simp: print_request_def print_header_def kCRLF_def)
  have w: "wf_request ''GET'' ''/'' ''1.1'' ?hs" "map_of (rev ?hs) kContentLength = Some ''x''"
    by (simp_all add: wf_eval)
  have "std_stoi ''x'' = Inl (Thrown ''std::invalid_argument'')" by code_simp
  from bad_content_length_throws [OF b w this one_file_readable fresh_request_intros(1)] b(2) show ?thesis by auto
qed

end
