(* ===== verification/Http_Response.thy ===== *)
theory Http_Response
  imports Http_Parsing
begin

text \<open>
  The response and the form decoder: the bytes \<open>makeResponse\<close> appends, the file it cannot serve,
  decoding of plain forms and of percent escapes.
\<close>

section \<open>Appending\<close>

lemma append_all_spec:
  assumes "Buffer_inv b" and "storage b + length (concat ss) \<le> vector_max_size"
  shows "\<exists>b'. append_all b ss = Inr b' \<and> Buffer_inv b' \<and> contents b' = contents b @ concat ss \<and>
    storage b' \<le> storage b + length (concat ss)"
  using assms
proof (induction ss arbitrary: b)
  case Nil
  then show ?case by (simp add: append_all_def)
next
  case (Cons s ss)
  then obtain b1 where b1: "Buffer_append b s = Inr b1" "Buffer_inv b1" "contents b1 = contents b @ s"
    "storage b1 \<le> storage b + length s" using Buffer_append_spec [of b s] by auto
  then obtain b2 where "append_all b1 ss = Inr b2" "Buffer_inv b2" "contents b2 = contents b1 @ concat ss"
    "storage b2 \<le> storage b1 + length (concat ss)" using Cons.IH [of b1] Cons.prems by auto
  with b1 show ?case by (auto simp: append_all_def)
qed

section \<open>The response\<close>

text \<open>
  What the server relies on for a regular file that \<open>stat\<close> has found readable for everyone: it can be
  opened, and \<open>mmap\<close> of its size, when that is positive, gives that many bytes. Nothing is promised of
  directories and of files that are not readable. \<open>mmap\<close> of length zero fails (\<open>EINVAL\<close>).
\<close>

definition world_readable :: "file_stat \<Rightarrow> bool" where
  "world_readable s \<longleftrightarrow> \<not> st_isdir s \<and> st_roth s"

definition fs_contract :: "filesystem \<Rightarrow> bool" where
  "fs_contract fs \<longleftrightarrow>
     (\<forall>n s. fs_stat fs n = Some s \<and> world_readable s \<longrightarrow> fs_open fs n \<and>
        (0 < st_size s \<longrightarrow> (\<exists>bytes. fs_mmap fs n (st_size s) = Some bytes \<and> length bytes = st_size s))) \<and>
     (\<forall>n. fs_mmap fs n 0 = None)"

definition response_text :: "HttpConnection \<Rightarrow> string \<Rightarrow> string \<Rightarrow> string" where
  "response_text h status bytes =
     ''HTTP/1.1 '' @ to_string (responseCode h) @ '' '' @ status @ kCRLF @
     ''Connection: '' @ (if wants_keepAlive h then ''keep-alive'' @ kCRLF @ ''Keep-Alive: max=6, timeout=120'' @ kCRLF
                         else ''close'' @ kCRLF) @
     ''Content-Type: '' @ content_type (http_path h) @ kCRLF @
     ''Content-Length: '' @ dec_nat (length bytes) @ kCRLF @ kCRLF @ bytes"

text \<open>What \<open>initResponse\<close> leaves: a code of the table and the attributes of the file to send.\<close>

lemma initResponse_file:
  assumes "initResponse fs h code = Inr h1" and "code \<noteq> kNoRequest"
    and "code = kGetRequest \<Longrightarrow> fs_stat fs (file_name h) = requestFileStat h \<and> requestFileStat h \<noteq> None"
  shows "\<exists>s. fs_stat fs (file_name h1) = Some s \<and> requestFileStat h1 = Some s \<and>
    responseCode h1 = response_code code \<and> header h1 = header h \<and> http_version h1 = http_version h"
  using assms
  by (cases code) (auto simp: initResponse_def Let_def file_name_def split: option.splits if_splits)

lemma response_code_table: "code \<noteq> kNoRequest \<Longrightarrow> \<exists>t. kResponses (response_code code) = Some t \<and> response_code code \<noteq> -1"
  by (cases code) (simp_all add: kResponses_def)

lemma concat_header_chunks:
  "concat (header_chunks h n) =
     ''Connection: '' @ (if wants_keepAlive h then ''keep-alive'' @ kCRLF @ ''Keep-Alive: max=6, timeout=120'' @ kCRLF
                         else ''close'' @ kCRLF) @
     ''Content-Type: '' @ content_type (http_path h) @ kCRLF @
     ''Content-Length: '' @ dec_nat n @ kCRLF @ kCRLF"
  by (simp add: header_chunks_def crlf_str_def)

lemma response_parts:
  assumes fs: "fs_contract fs" and s: "fs_stat fs (file_name h) = Some s" "requestFileStat h = Some s" "0 < st_size s"
    and t: "kResponses (responseCode h) = Some t" "responseCode h \<noteq> -1"
    and inv: "Buffer_inv b"
    and room: "\<And>bytes. length bytes = st_size s \<Longrightarrow> storage b + length (response_text h t bytes) \<le> vector_max_size"
    and readable: "world_readable s"
  shows "\<exists>bytes b3. bindR (makeResponseLine h b) (\<lambda>b1. bindR (makeResponseHeader h b1) (\<lambda>(h2, b2).
       bindR (makeResponseBody fs h2 b2) (\<lambda>b3. Inr (h2, b3)))) = Inr (h\<lparr>keepAlive := wants_keepAlive h\<rparr>, b3) \<and>
    fs_mmap fs (file_name h) (length bytes) = Some bytes \<and> length bytes = st_size s \<and> Buffer_inv b3 \<and>
    contents b3 = contents b @ response_text h t bytes \<and>
    storage b3 \<le> storage b + length (response_text h t bytes)"
proof -
  obtain bytes where bytes: "fs_mmap fs (file_name h) (st_size s) = Some bytes" "length bytes = st_size s"
    and op: "fs_open fs (file_name h)" using fs s(1,3) readable unfolding fs_contract_def by metis
  define l where "l = ''HTTP/1.1 '' @ to_string (responseCode h) @ '' '' @ t @ crlf_str"
  define m where "m = concat (header_chunks h (st_size s))"
  have full: "response_text h t bytes = l @ m @ bytes"
    by (simp add: response_text_def l_def m_def concat_header_chunks crlf_str_def bytes(2))
  have rm: "storage b + length l + length m + length bytes \<le> vector_max_size"
    using room [OF bytes(2)] by (simp add: full)
  obtain b1 where b1: "Buffer_append b l = Inr b1" "Buffer_inv b1" "contents b1 = contents b @ l"
    "storage b1 \<le> storage b + length l" using Buffer_append_spec [OF inv, of l] rm by auto
  obtain b2 where b2: "append_all b1 (header_chunks h (st_size s)) = Inr b2" "Buffer_inv b2"
    "contents b2 = contents b1 @ m" "storage b2 \<le> storage b1 + length m"
    using append_all_spec [OF b1(2), of "header_chunks h (st_size s)"] b1(4) rm by (auto simp: m_def)
  obtain b3 where b3: "Buffer_append b2 bytes = Inr b3" "Buffer_inv b3" "contents b3 = contents b2 @ bytes"
    "storage b3 \<le> storage b2 + length bytes"
    using Buffer_append_spec [OF b2(2), of bytes] b2(4) b1(4) rm by auto
  have "makeResponseLine h b = Inr b1" using t b1(1) by (simp add: makeResponseLine_def response_line_def l_def)
  moreover have "makeResponseHeader h b1 = Inr (h\<lparr>keepAlive := wants_keepAlive h\<rparr>, b2)"
    using b2(1) s(2) by (simp add: makeResponseHeader_def stat_size_def)
  moreover have "makeResponseBody fs (h\<lparr>keepAlive := wants_keepAlive h\<rparr>) b2 = Inr b3"
    using b3(1) s(2) bytes(1) op by (simp add: makeResponseBody_def stat_size_def file_name_def)
  ultimately show ?thesis using bytes b1(3,4) b2(3,4) b3(2-4) full by (intro exI [of _ bytes] exI [of _ b3]) simp
qed

text \<open>\<open>makeResponse\<close> appends one complete response: the status line of the result, the
  \<open>Connection\<close>, \<open>Content-Type\<close> and \<open>Content-Length\<close> headers, the empty line and the bytes of the
  file, with \<open>Content-Length\<close> equal to the number of bytes sent; and \<open>keepAlive_\<close> is set exactly
  when the response says so.\<close>

theorem makeResponse_complete:
  assumes "fs_contract fs" and "code \<noteq> kNoRequest" and "initResponse fs h code = Inr h1"
    and "code = kGetRequest \<Longrightarrow> fs_stat fs (file_name h) = requestFileStat h \<and> requestFileStat h \<noteq> None"
    and "requestFileStat h1 = Some s" and "0 < st_size s" and "kResponses (response_code code) = Some t"
    and "Buffer_inv b"
    and "\<And>bytes. length bytes = st_size s \<Longrightarrow> storage b + length (response_text h1 t bytes) \<le> vector_max_size"
    and "world_readable s"
  shows "\<exists>h2 b' bytes. makeResponse fs h b code = Inr (h2, b') \<and> Buffer_inv b' \<and>
    contents b' = contents b @ response_text h1 t bytes \<and> responseCode h1 = response_code code \<and>
    fs_mmap fs (file_name h1) (length bytes) = Some bytes \<and> keepAlive h2 = wants_keepAlive h1"
proof -
  obtain s' where "fs_stat fs (file_name h1) = Some s'" "requestFileStat h1 = Some s'"
    and rc: "responseCode h1 = response_code code"
    using initResponse_file [OF assms(3,2,4)] by blast
  then have st: "fs_stat fs (file_name h1) = Some s" using assms(5) by simp
  have "response_code code \<noteq> -1" by (cases code) simp_all
  then obtain bytes b3 where "bindR (makeResponseLine h1 b) (\<lambda>b1. bindR (makeResponseHeader h1 b1) (\<lambda>(h2, b2).
       bindR (makeResponseBody fs h2 b2) (\<lambda>b3. Inr (h2, b3)))) = Inr (h1\<lparr>keepAlive := wants_keepAlive h1\<rparr>, b3)"
    "fs_mmap fs (file_name h1) (length bytes) = Some bytes" "Buffer_inv b3"
    "contents b3 = contents b @ response_text h1 t bytes"
    using response_parts [OF assms(1) st assms(5,6) _ _ assms(8-10)] assms(7) rc by auto
  with assms(2,3) rc show ?thesis by (intro exI) (auto simp: makeResponse_def)
qed

text \<open>A request for an empty file ends the process: \<open>mmap\<close> refuses the length zero and the
  failure is logged as fatal.\<close>

theorem empty_file_aborts:
  assumes "fs_contract fs" and "requestFileStat h = Some s" and "st_size s = 0"
    and "fs_open fs (file_name h)"
  shows "makeResponseBody fs h b = Inl (FatalLog ''HttpConnection::makeResponseBody(), mmap error'')"
  using assms by (simp add: makeResponseBody_def stat_size_def fs_contract_def)

section \<open>Forms\<close>

definition plain_char :: "char \<Rightarrow> bool" where
  "plain_char c \<longleftrightarrow> c \<notin> set ''=&+%''"

lemma url_loop_plain:
  "list_all plain_char xs \<Longrightarrow> url_loop (xs @ rest) cur kv pst = url_loop rest cur (url_add cur xs kv) pst"
proof (induction xs arbitrary: kv)
  case Nil
  then show ?case by (cases cur) (simp_all add: url_add_def)
next
  case (Cons c xs)
  then have "url_loop ((c # xs) @ rest) cur kv pst = url_loop (xs @ rest) cur (url_add cur [c] kv) pst"
    by (auto simp: plain_char_def)
  also have "\<dots> = url_loop rest cur (url_add cur xs (url_add cur [c] kv)) pst" using Cons by simp
  finally show ?case by (cases cur) (simp_all add: url_add_def)
qed

fun print_form :: "(string \<times> string) list \<Rightarrow> string" where
  "print_form [] = []"
| "print_form [(k, v)] = k @ ''='' @ v"
| "print_form ((k, v) # kvs) = k @ ''='' @ v @ ''&'' @ print_form kvs"

definition plain_pair :: "string \<times> string \<Rightarrow> bool" where
  "plain_pair kv \<longleftrightarrow> fst kv \<noteq> [] \<and> snd kv \<noteq> [] \<and> list_all plain_char (fst kv) \<and> list_all plain_char (snd kv)"

lemma url_loop_pair:
  assumes "plain_pair (k, v)"
  shows "url_loop (k @ ''='' @ v @ rest) UKey ([], []) pst = url_loop rest UValue (k, v) pst"
proof -
  have "url_loop (k @ ''='' @ v @ rest) UKey ([], []) pst = url_loop (''='' @ v @ rest) UKey (k, []) pst"
    using url_loop_plain [of k] assms by (simp add: plain_pair_def url_add_def)
  also have "\<dots> = url_loop (v @ rest) UValue (k, []) pst" by simp
  finally show ?thesis using url_loop_plain [of v] assms by (simp add: plain_pair_def url_add_def)
qed

text \<open>What a form means, for every body: it is a sequence of signs, where an escape stands for two
  characters after its percent sign; the ampersands separate the fields; the name of a field is what
  stands before its first equals sign, its value what stands behind it, further equals signs left out.
  A plus sign is a blank, and an escape of two hexadecimal digits is, in this server, the decimal numeral
  of their value; \<open>escapes_whole\<close> says that no escape is cut off by the end.\<close>

datatype form_sign = FormEq | FormAmp | FormText string

definition escape_text :: "char \<Rightarrow> char \<Rightarrow> string" where
  "escape_text c d =
     (case (hex_val c, hex_val d) of (Some a, Some b) \<Rightarrow> dec_nat (16 * a + b) | _ \<Rightarrow> to_string (strtol16 [c, d]))"

definition form_sign :: "char \<Rightarrow> form_sign" where
  "form_sign c =
     (if c = CHR ''='' then FormEq else if c = CHR ''&'' then FormAmp else if c = CHR ''+'' then FormText '' '' else FormText [c])"

fun form_signs :: "string \<Rightarrow> form_sign list" where
  "form_signs [] = []"
| "form_signs (c # cs) =
     (if c \<noteq> CHR ''%'' then form_sign c # form_signs cs
      else (case cs of d # e # ds \<Rightarrow> FormText (escape_text d e) # form_signs ds | _ \<Rightarrow> []))"

fun escapes_whole :: "string \<Rightarrow> bool" where
  "escapes_whole [] = True"
| "escapes_whole (c # cs) =
     (if c \<noteq> CHR ''%'' then escapes_whole cs else (case cs of d # e # ds \<Rightarrow> escapes_whole ds | _ \<Rightarrow> False))"

fun split_fields :: "form_sign list \<Rightarrow> form_sign list list" where
  "split_fields [] = [[]]"
| "split_fields (t # ts) =
     (let fss = split_fields ts in if t = FormAmp then [] # fss else (t # hd fss) # tl fss)"

definition form_text :: "form_sign list \<Rightarrow> string" where
  "form_text ts = concat (map (\<lambda>t. case t of FormText s \<Rightarrow> s | _ \<Rightarrow> []) ts)"

definition sign_field :: "form_sign list \<Rightarrow> string \<times> string" where
  "sign_field ts = (form_text (takeWhile (\<lambda>t. t \<noteq> FormEq) ts), form_text (dropWhile (\<lambda>t. t \<noteq> FormEq) ts))"

definition whole_field :: "string \<times> string \<Rightarrow> bool" where
  "whole_field kv \<longleftrightarrow> fst kv \<noteq> [] \<and> snd kv \<noteq> []"

text \<open>The fields of a body; of one that ends in a cut escape, the last field is not counted.\<close>

definition sign_fields :: "string \<Rightarrow> (string \<times> string) list" where
  "sign_fields s = (let fs = map sign_field (split_fields (form_signs s)) in if escapes_whole s then fs else butlast fs)"

lemma escape_text_code: "to_string (strtol16 [c, d]) = escape_text c d"
proof (cases "hex_val c = None \<or> hex_val d = None")
  case False
  then obtain a b where h: "hex_val c = Some a" "hex_val d = Some b" by auto
  have sp: "\<not> is_space c" "c \<noteq> CHR ''-''" "c \<noteq> CHR ''+''"
    using h(1) by (auto simp: hex_val_def is_space_def Let_def split: if_splits)
  have "strtol16 [c, d] = int (16 * a + b)"
    using sp h by (simp add: strtol16_def strip_0x_def)
  then show ?thesis using h to_string_of_nat [of "16 * a + b"] by (simp add: escape_text_def)
qed (auto simp: escape_text_def split: option.splits)

lemma split_fields_cons: "hd (split_fields ts) # tl (split_fields ts) = split_fields ts"
  by (induction ts) (auto simp: Let_def)

lemma split_fields_nonempty [simp]: "split_fields ts \<noteq> []"
  by (cases ts) (auto simp: Let_def)

text \<open>What the loop has made of the field it is in, and its result on a list of fields.\<close>

definition field_from :: "url_target \<Rightarrow> string \<times> string \<Rightarrow> form_sign list \<Rightarrow> string \<times> string" where
  "field_from cur kv ts =
     (case cur of UKey \<Rightarrow> (fst kv @ fst (sign_field ts), snd kv @ snd (sign_field ts))
      | UValue \<Rightarrow> (fst kv, snd kv @ form_text ts))"

definition form_result :: "bool \<Rightarrow> (string \<times> string) list \<Rightarrow> (string \<rightharpoonup> string) \<Rightarrow> HttpCode \<times> (string \<rightharpoonup> string)" where
  "form_result ok fs pst =
     (if ok \<and> list_all whole_field fs then kNoRequest else kBadRequest, pst ++ map_of (rev (takeWhile whole_field fs)))"

lemma form_result_cons:
  "form_result ok (f # fs) pst = (if whole_field f then form_result ok fs (pst(fst f \<mapsto> snd f)) else (kBadRequest, pst))"
proof (cases "whole_field f")
  case True
  have "pst ++ map_of (xs @ [f]) = pst(fst f \<mapsto> snd f) ++ map_of xs" for xs
    by (cases f) (auto simp: map_add_def fun_eq_iff split: option.split)
  with True show ?thesis by (simp add: form_result_def)
qed (simp add: form_result_def)

lemma field_from_simps [simp]:
  "field_from cur kv [] = kv"
  "field_from cur kv (FormEq # ts) = field_from UValue kv ts"
  "field_from cur kv (FormText s # ts) = field_from cur (url_add cur s kv) ts"
  "field_from UKey ([], []) ts = sign_field ts"
  by (cases cur; cases kv; simp add: field_from_def sign_field_def form_text_def url_add_def; fail)+

definition fields_from :: "url_target \<Rightarrow> string \<times> string \<Rightarrow> string \<Rightarrow> (string \<times> string) list" where
  "fields_from cur kv s =
     (let fss = split_fields (form_signs s); fs = field_from cur kv (hd fss) # map sign_field (tl fss)
      in if escapes_whole s then fs else butlast fs)"

lemma fields_from_start: "fields_from UKey ([], []) s = sign_fields s"
  by (simp add: fields_from_def sign_fields_def split_fields_cons flip: list.map)

lemma fields_from_amp: "fields_from cur kv (CHR ''&'' # cs) = kv # sign_fields cs"
  by (simp add: fields_from_def sign_fields_def form_sign_def Let_def)

lemma url_loop_fields: "url_loop s cur kv pst = form_result (escapes_whole s) (fields_from cur kv s) pst"
proof (induction s cur kv pst rule: url_loop.induct)
  case (1 cur kv pst)
  then show ?case by (cases kv) (simp add: fields_from_def form_result_def whole_field_def)
next
  case (2 c cs cur kv pst)
  consider "c = CHR ''=''" | "c = CHR ''&''" | "c = CHR ''+''" | "c = CHR ''%''" | "c \<notin> set ''=&+%''" by auto
  then show ?case
  proof cases
    case 2
    define p where "p = pst(fst kv \<mapsto> snd kv)"
    have "fst kv \<noteq> [] \<and> snd kv \<noteq> [] \<Longrightarrow>
        url_loop cs UKey ([], []) p = form_result (escapes_whole cs) (sign_fields cs) p"
      using "2.IH"(2) 2 unfolding p_def [symmetric] by (simp add: fields_from_start)
    moreover have "form_result ok (kv # sign_fields cs) pst =
        (if fst kv \<noteq> [] \<and> snd kv \<noteq> [] then form_result ok (sign_fields cs) p else (kBadRequest, pst))" for ok
      by (simp only: form_result_cons whole_field_def p_def)
    moreover have "url_loop (c # cs) cur kv pst =
        (if fst kv = [] \<or> snd kv = [] then (kBadRequest, pst) else url_loop cs UKey ([], []) p)"
      using 2 by (simp add: p_def)
    ultimately show ?thesis using 2 by (simp add: fields_from_amp)
  next
    case 4
    then show ?thesis
      using 2 by (cases cs rule: remdups_adj.cases)
        (auto simp: fields_from_def form_result_def escape_text_code Let_def)
  qed (use 2 in \<open>simp_all add: fields_from_def form_sign_def Let_def\<close>)
qed

text \<open>C27. Decoding a form, for every body and whatever fields are already there: the fields of the body
  are stored in order, a later one replacing an earlier one of the same name, up to the first that lacks a
  name or a value; the answer is a bad request when there is one, or when an escape is cut off by the
  end, and otherwise the request goes on. Plus signs become blanks, and an escape of two hexadecimal digits
  becomes the decimal numeral of its value, not the character it stands for.\<close>

theorem form_decoding:
  "parseFromUrlEncode h =
     (if escapes_whole (http_body h) \<and> list_all whole_field (sign_fields (http_body h)) then kNoRequest else kBadRequest,
      h\<lparr>post := post h ++ map_of (rev (takeWhile whole_field (sign_fields (http_body h))))\<rparr>)"
  by (simp add: parseFromUrlEncode_def url_loop_fields fields_from_start form_result_def)

text \<open>Decoding a printed form, of names and values that are not empty and in which no character has a
  meaning of its own, gives back its fields, added to those already present.\<close>

theorem form_roundtrip:
  assumes "kvs \<noteq> []" and "list_all plain_pair kvs"
  shows "url_loop (print_form kvs) UKey ([], []) pst = (kNoRequest, pst ++ map_of (rev kvs))"
  using assms
proof (induction kvs arbitrary: pst rule: print_form.induct)
  case 1
  then show ?case by simp
next
  case (2 k v)
  then show ?case using url_loop_pair [of k v "[]" pst]
    by (simp add: plain_pair_def map_add_def fun_eq_iff)
next
  case (3 k v kv kvs)
  then have kv: "plain_pair (k, v)" by simp
  have "url_loop (print_form ((k, v) # kv # kvs)) UKey ([], []) pst =
      url_loop (''&'' @ print_form (kv # kvs)) UValue (k, v) pst"
    using url_loop_pair [OF kv] by simp
  also have "\<dots> = url_loop (print_form (kv # kvs)) UKey ([], []) (pst(k \<mapsto> v))"
    using kv by (simp add: plain_pair_def)
  also have "\<dots> = (kNoRequest, (pst(k \<mapsto> v)) ++ map_of (rev (kv # kvs)))"
    using "3.IH" "3.prems" by simp
  finally show ?case by (simp add: map_add_def fun_eq_iff split: option.split)
qed

text \<open>A percent escape is not decoded: the decimal numeral of the byte is stored in place of
  the byte, for every escape of two hexadecimal digits.\<close>

theorem percent_escape_stores_numeral:
  assumes "list_all plain_char k" and "k \<noteq> []" and "hex_val c = Some a" and "hex_val d = Some b"
  shows "url_loop (k @ ''=%'' @ [c, d]) UKey ([], []) pst = (kNoRequest, pst(k \<mapsto> dec_nat (16 * a + b)))"
proof -
  have sp: "\<not> is_space c" "c \<noteq> CHR ''-''" "c \<noteq> CHR ''+''"
    using assms(3) by (auto simp: hex_val_def is_space_def Let_def split: if_splits)
  have "strtol16 [c, d] = int (16 * a + b)"
    using sp assms(3,4) by (simp add: strtol16_def strip_0x_def)
  then have "url_loop (''=%'' @ [c, d]) UKey (k, []) pst = (kNoRequest, pst(k \<mapsto> dec_nat (16 * a + b)))"
    using assms(2) to_string_of_nat [of "16 * a + b"] by (simp add: url_add_def)
  then show ?thesis using url_loop_plain [OF assms(1), of "''=%'' @ [c, d]" UKey "([], [])" pst]
    by (simp add: url_add_def)
qed

section \<open>Witnesses\<close>

definition demo_file_stat :: file_stat where
  "demo_file_stat = \<lparr>st_isdir = False, st_roth = True, st_size = 5\<rparr>"

definition demo_http :: HttpConnection where
  "demo_http = (HttpConnection_new ''/srv'')\<lparr>http_path := ''/index.html'', requestFileStat := Some demo_file_stat\<rparr>"

lemma one_file_contract: "fs_contract one_file"
  by (simp add: fs_contract_def one_file_def)

theorem makeResponse_complete_witness:
  "\<exists>h2 b' bytes. makeResponse one_file demo_http (Buffer_new 16) kGetRequest = Inr (h2, b') \<and>
    contents b' = response_text (demo_http\<lparr>responseCode := 200\<rparr>) ''OK'' bytes \<and> \<not> keepAlive h2"
proof -
  let ?h = "demo_http\<lparr>responseCode := 200\<rparr>"
  have inv: "Buffer_inv (Buffer_new 16)" by (rule Buffer_new_inv) (simp add: buffer_defs)
  have ini: "initResponse one_file demo_http kGetRequest = Inr ?h" by (simp add: initResponse_def)
  have ct: "content_type ''/index.html'' = ''text/html''" by (simp add: content_type_def path_suffix_def kMimeType_def)
  have num: "to_string 200 = ''200''" "dec_nat 5 = ''5''" by code_simp+
  have keep: "\<not> wants_keepAlive ?h" by (simp add: wants_keepAlive_def demo_http_def HttpConnection_new_def)
  have "\<exists>h2 b' bytes. makeResponse one_file demo_http (Buffer_new 16) kGetRequest = Inr (h2, b') \<and> Buffer_inv b' \<and>
    contents b' = contents (Buffer_new 16) @ response_text ?h ''OK'' bytes \<and> responseCode ?h = response_code kGetRequest \<and>
    fs_mmap one_file (file_name ?h) (length bytes) = Some bytes \<and> keepAlive h2 = wants_keepAlive ?h"
  proof (rule makeResponse_complete [OF one_file_contract _ ini _ _ _ _ inv, where s = demo_file_stat])
    show "storage (Buffer_new 16) + length (response_text ?h ''OK'' bytes) \<le> vector_max_size"
      if "length bytes = st_size demo_file_stat" for bytes
      using that ct num keep
      by (simp add: response_text_def storage_Buffer_new buffer_defs kCRLF_def demo_file_stat_def demo_http_def)
  qed (simp_all add: demo_http_def demo_file_stat_def one_file_def kResponses_def world_readable_def)
  with keep show ?thesis by auto
qed

theorem empty_file_aborts_witness:
  "makeResponseBody one_file (demo_http\<lparr>requestFileStat := Some (demo_file_stat\<lparr>st_size := 0\<rparr>)\<rparr>) (Buffer_new 16) =
    Inl (FatalLog ''HttpConnection::makeResponseBody(), mmap error'')"
  by (rule empty_file_aborts [OF one_file_contract, where s = "demo_file_stat\<lparr>st_size := 0\<rparr>"])
    (simp_all add: one_file_def)

theorem form_decoding_witness:
  "parseFromUrlEncode (demo_http\<lparr>http_body := ''user=a+b&key=%41=1&x&y=2''\<rparr>) =
    (kBadRequest, demo_http\<lparr>http_body := ''user=a+b&key=%41=1&x&y=2'', post := [''user'' \<mapsto> ''a b'', ''key'' \<mapsto> ''651'']\<rparr>)"
proof -
  have f: "sign_fields ''user=a+b&key=%41=1&x&y=2'' = [(''user'', ''a b''), (''key'', ''651''), (''x'', []), (''y'', ''2'')]"
    "escapes_whole ''user=a+b&key=%41=1&x&y=2''" by code_simp+
  show ?thesis
    unfolding form_decoding
    by (simp add: f whole_field_def) (simp add: demo_http_def HttpConnection_new_def map_add_def fun_eq_iff)
qed

theorem form_roundtrip_witness:
  "url_loop ''a=1&b=2'' UKey ([], []) Map.empty = (kNoRequest, Map.empty ++ map_of [(''b'', ''2''), (''a'', ''1'')])"
  using form_roundtrip [of "[(''a'', ''1''), (''b'', ''2'')]" Map.empty]
  by (simp add: plain_pair_def plain_char_def)

theorem percent_escape_stores_numeral_witness:
  "url_loop ''a=%41'' UKey ([], []) Map.empty = (kNoRequest, Map.empty(''a'' \<mapsto> ''65''))"
proof -
  have h: "hex_val CHR ''4'' = Some 4" "hex_val CHR ''1'' = Some 1" by code_simp+
  have n: "dec_nat (16 * 4 + 1) = ''65''" by code_simp
  have "url_loop (''a'' @ ''=%'' @ ''41'') UKey ([], []) Map.empty = (kNoRequest, Map.empty(''a'' \<mapsto> dec_nat (16 * 4 + 1)))"
    by (rule percent_escape_stores_numeral [OF _ _ h]) (simp_all add: plain_char_def)
  then show ?thesis by (simp only: n append.simps)
qed

end
