(* ===== verification/Http_Exchange.thy ===== *)
theory Http_Exchange
  imports Connection_Send Http_Response
begin

text \<open>
  A request and its response over a connection: \<open>HttpConnection::processMessage\<close> together with the
  parser, the response writer and \<open>TcpConnection::send\<close> and \<open>shutdown\<close>.
\<close>

section \<open>Sending the output buffer\<close>

text \<open>\<open>makeResponse\<close> writes into the output buffer of the connection, and that buffer is then sent.\<close>

lemma send_output_idle:
  fixes st :: "'z conn_world_scheme"
  assumes I: "idle_conn c x ch k st" and B: "Buffer_inv b" "contents b = resp"
    and room: "storage b + length resp \<le> vector_max_size"
  obtains st' x' ch' where "send_output (exec_call_functor wcb) c (conn_put st c (x\<lparr>outputBuffer := b\<rparr>)) = Inr st'"
    "isInLoopThread st'" "conns st' c = Some x'" "chan_store st' (conn_channel x) = Some ch'" "sent_conn resp k x x' ch'"
    "length resp \<le> k \<longrightarrow> idle_conn c x' ch' k st' \<and> storage (outputBuffer x') = storage b \<and> same_timers st st'"
proof -
  note I' = I [unfolded idle_conn_def]
  obtain b' where b': "retrieveAllAsString b = Inr (resp, b')" "Buffer_inv b'" "contents b' = []" "storage b' = storage b"
    using retrieveAsString_spec [OF B(1), of "readableBytes b"] length_contents [OF B(1)] B(2)
    by (auto simp: retrieveAllAsString_def)
  let ?y = "x\<lparr>outputBuffer := b'\<rparr>"
  have "idle_conn c ?y ch k (conn_put st c ?y)"
    using I' b'(2,3) by (simp add: idle_conn_def conn_put_def isInLoopThread_def)
  then obtain st' x' ch' where
    s: "sendInLoop (wcb) c resp (conn_put st c ?y) = Inr st'" "isInLoopThread st'" "conns st' c = Some x'"
    "chan_store st' (conn_channel ?y) = Some ch'" "sent_conn resp k ?y x' ch'"
    "conn_world.more st' = conn_world.more (conn_put st c ?y)"
    "length resp \<le> k \<longrightarrow> idle_conn c x' ch' k st' \<and> outputBuffer x' = outputBuffer ?y \<and> same_timers (conn_put st c ?y) st'"
    by (rule sendInLoop_idle [where msg = resp and wcb = wcb]) (use room b'(4) in auto)
  have "send_output (exec_call_functor wcb) c (conn_put st c (x\<lparr>outputBuffer := b\<rparr>)) = Inr st'"
    using I' b'(1) s(1) by (simp add: send_output_def conn_put_def runInLoop_def isInLoopThread_def)
  then show ?thesis by (rule that) (use s b'(4) in \<open>auto simp: sent_conn_def conn_put_def same_timers_def\<close>)
qed

section \<open>Responding\<close>

text \<open>The context after a response, and what the connection's state then is.\<close>

definition after_response :: "HttpConnection \<Rightarrow> HttpConnection" where
  "after_response h = (let h1 = h\<lparr>keepAlive := wants_keepAlive h\<rparr> in if wants_keepAlive h then resetState h1 else h1)"

definition answered :: "HttpConnection \<Rightarrow> string \<Rightarrow> nat \<Rightarrow> TcpConnection \<Rightarrow> TcpConnection \<Rightarrow> Channel \<Rightarrow> bool" where
  "answered h resp k x x' ch' \<longleftrightarrow>
     sock_written x' = sock_written x @ take k resp \<and> contents (outputBuffer x') = drop k resp \<and>
     inputBuffer x' = inputBuffer x \<and> (isWriting ch' \<longleftrightarrow> drop k resp \<noteq> []) \<and>
     (if wants_keepAlive h then conn_state x' = kConnected \<and> \<not> sock_shutdown x'
      else conn_state x' = kDisconnecting \<and> (sock_shutdown x' \<longleftrightarrow> drop k resp = []))"

lemma respond_idle:
  fixes st :: "'z conn_world_scheme"
  assumes I: "idle_conn c x ch k st" and h: "conn_context x = Some h"
    and mk: "makeResponse fs h (outputBuffer x) code = Inr (h1\<lparr>keepAlive := wants_keepAlive h1\<rparr>, b)"
    and B: "Buffer_inv b" "contents b = resp" and room: "storage b + length resp \<le> vector_max_size"
  obtains st' x' ch' where "respond fs (exec_call_functor wcb) c code st = Inr st'" "conns st' c = Some x'"
    "chan_store st' (conn_channel x) = Some ch'" "answered h1 resp k x x' ch'" "conn_context x' = Some (after_response h1)"
    "length resp \<le> k \<and> wants_keepAlive h1 \<longrightarrow> idle_conn c x' ch' k st' \<and> storage (outputBuffer x') = storage b \<and>
      same_timers st st'"
proof -
  let ?h = "h1\<lparr>keepAlive := wants_keepAlive h1\<rparr>"
  let ?x = "x\<lparr>conn_context := Some ?h\<rparr>"
  let ?s = "conn_put st c ?x"
  note I' = I [unfolded idle_conn_def]
  obtain s x' ch' where s: "send_output (exec_call_functor wcb) c (conn_put ?s c (?x\<lparr>outputBuffer := b\<rparr>)) = Inr s"
    "isInLoopThread s" "conns s c = Some x'" "chan_store s (conn_channel ?x) = Some ch'" "sent_conn resp k ?x x' ch'"
    "length resp \<le> k \<longrightarrow> idle_conn c x' ch' k s \<and> storage (outputBuffer x') = storage b \<and> same_timers ?s s"
    by (rule send_output_idle [OF idle_context [OF I, of "Some ?h"] B room, where wcb = wcb])
  have st: "conn_state x = kConnected" "\<not> sock_shutdown x" using I' by simp_all
  have put: "conn_put ?s c (?x\<lparr>outputBuffer := b\<rparr>) = conn_put st c (x\<lparr>outputBuffer := b, conn_context := Some ?h\<rparr>)"
    by (cases x) (simp add: conn_put_def)
  have go: "respond fs (exec_call_functor wcb) c code st =
      (if \<not> wants_keepAlive h1 then TcpConnection_shutdown (exec_call_functor wcb) c s
       else context_put s c (resetState ?h))"
    using I' h mk s(1) unfolding put by (simp add: respond_def get_context_def conn_deref_def)
  have ctx: "conn_context x' = Some ?h" "conn_state x' = kConnected" "conn_channel x' = conn_channel x"
    using s(5) st(1) by (simp_all add: sent_conn_def)
  show ?thesis
  proof (cases "wants_keepAlive h1")
    case True
    let ?y = "x'\<lparr>conn_context := Some (resetState ?h)\<rparr>"
    have "context_put s c (resetState ?h) = Inr (conn_put s c ?y)" using s(3) by (simp add: context_put_def conn_deref_def)
    moreover have "length resp \<le> k \<longrightarrow> idle_conn c ?y ch' k (conn_put s c ?y) \<and> same_timers st (conn_put s c ?y)"
      using s(6) idle_context [of c x' ch' k s] by (simp add: same_timers_def conn_put_def)
    ultimately show ?thesis using True go s(3-6) st
      by (intro that [of "conn_put s c ?y" ?y ch'])
        (simp_all add: answered_def sent_conn_def after_response_def Let_def conn_put_def)
  next
    case False
    let ?y = "x'\<lparr>conn_state := kDisconnecting, sock_shutdown := sock_shutdown x' \<or> \<not> isWriting ch'\<rparr>"
    from shutdown_eq [OF s(2,3) ctx(2), of ch' wcb] s(4) ctx(3)
    have "TcpConnection_shutdown (exec_call_functor wcb) c s = Inr (conn_put s c ?y)" by simp
    then show ?thesis
      by (intro that [of "conn_put s c ?y" ?y ch'])
        (use False go s(3-5) st ctx in \<open>simp_all add: conn_put_def answered_def sent_conn_def after_response_def\<close>)
  qed
qed

section \<open>A request and its response\<close>

text \<open>The context that answers a well-formed request for a readable file.\<close>

definition served ::
    "HttpConnection \<Rightarrow> string \<Rightarrow> string \<Rightarrow> string \<Rightarrow> (string \<times> string) list \<Rightarrow> file_stat \<Rightarrow> HttpConnection" where
  "served h0 m p v hs s = (head_state h0 m p v hs s)\<lparr>parseState := kFinish, responseCode := 200\<rparr>"

lemma served_simps [simp]:
  "http_version (served h0 m p v hs s) = v" "header (served h0 m p v hs s) = map_of (rev hs)"
  "responseCode (served h0 m p v hs s) = 200" "requestFileStat (served h0 m p v hs s) = Some s"
  "file_name (served h0 m p v hs s) = c_str (kSourceDir h0 @ full_path p)"
  "kSourceDir (served h0 m p v hs s) = kSourceDir h0" "parseState (served h0 m p v hs s) = kFinish"
  by (simp_all add: served_def head_state_def file_name_def)

lemma get_response:
  assumes "fs_contract fs" and "fs_stat fs (file_name h) = Some s" and "requestFileStat h = Some s" and "0 < st_size s"
    and "Buffer_inv b" and "\<And>bytes. length bytes = st_size s \<Longrightarrow>
      storage b + length (response_text (h\<lparr>responseCode := 200\<rparr>) ''OK'' bytes) \<le> vector_max_size"
    and "world_readable s"
  obtains bytes b' where "makeResponse fs h b kGetRequest =
      Inr (h\<lparr>responseCode := 200, keepAlive := wants_keepAlive h\<rparr>, b')"
    "fs_mmap fs (file_name h) (length bytes) = Some bytes" "length bytes = st_size s"
    "Buffer_inv b'" "contents b' = contents b @ response_text (h\<lparr>responseCode := 200\<rparr>) ''OK'' bytes"
    "storage b' \<le> storage b + length (response_text (h\<lparr>responseCode := 200\<rparr>) ''OK'' bytes)"
proof -
  let ?h = "h\<lparr>responseCode := 200\<rparr>"
  have pre: "fs_stat fs (file_name ?h) = Some s" "requestFileStat ?h = Some s" "kResponses (responseCode ?h) = Some ''OK''"
    "responseCode ?h \<noteq> -1" using assms(2,3) by (simp_all add: file_name_def kResponses_def)
  obtain bytes b' where r: "bindR (makeResponseLine ?h b) (\<lambda>b1. bindR (makeResponseHeader ?h b1) (\<lambda>(h2, b2).
       bindR (makeResponseBody fs h2 b2) (\<lambda>b3. Inr (h2, b3)))) = Inr (?h\<lparr>keepAlive := wants_keepAlive ?h\<rparr>, b')"
    "fs_mmap fs (file_name ?h) (length bytes) = Some bytes" "length bytes = st_size s" "Buffer_inv b'"
    "contents b' = contents b @ response_text ?h ''OK'' bytes"
    "storage b' \<le> storage b + length (response_text ?h ''OK'' bytes)"
    using response_parts [OF assms(1) pre(1,2) assms(4) pre(3,4) assms(5-7)] by blast
  have "makeResponse fs h b kGetRequest = Inr (?h\<lparr>keepAlive := wants_keepAlive h\<rparr>, b')"
    using r(1) by (simp add: makeResponse_def initResponse_def Let_def wants_keepAlive_def)
  then show ?thesis using that r by (simp add: file_name_def)
qed

lemma served_response:
  assumes "fs_contract fs" and "readable_file fs (kSourceDir h0 @ full_path p) s" and "0 < st_size s" and "Buffer_inv b"
    and "\<And>bytes. length bytes = st_size s \<Longrightarrow>
      storage b + length (response_text (served h0 m p v hs s) ''OK'' bytes) \<le> vector_max_size"
  obtains bytes b' where "makeResponse fs ((head_state h0 m p v hs s)\<lparr>parseState := kFinish\<rparr>) b kGetRequest =
      Inr ((served h0 m p v hs s)\<lparr>keepAlive := wants_keepAlive (served h0 m p v hs s)\<rparr>, b')"
    "fs_mmap fs (c_str (kSourceDir h0 @ full_path p)) (length bytes) = Some bytes" "length bytes = st_size s"
    "Buffer_inv b'" "contents b' = contents b @ response_text (served h0 m p v hs s) ''OK'' bytes"
    "storage b' \<le> storage b + length (response_text (served h0 m p v hs s) ''OK'' bytes)"
proof -
  let ?g = "(head_state h0 m p v hs s)\<lparr>parseState := kFinish\<rparr>"
  have g: "?g\<lparr>responseCode := 200\<rparr> = served h0 m p v hs s" "wants_keepAlive ?g = wants_keepAlive (served h0 m p v hs s)"
    "file_name ?g = c_str (kSourceDir h0 @ full_path p)" "requestFileStat ?g = Some s"
    by (simp_all add: served_def wants_keepAlive_def file_name_def head_state_def)
  have "fs_stat fs (file_name ?g) = Some s" using assms(2) g(3) by (simp add: readable_file_def)
  then show ?thesis
    by (rule get_response [OF assms(1) _ g(4) assms(3,4)]) (use assms(2,5) that g in \<open>simp_all add: readable_file_def world_readable_def\<close>)
qed

lemma request_spec:
  assumes "idle_conn c x ch k st" and "conn_context x = Some h0" and "fresh_request h0"
    and "contents (inputBuffer x) = print_request m p v hs @ rest" and "wf_request m p v hs"
    and "map_of (rev hs) kContentLength = None" and "fs_contract fs"
    and "readable_file fs (kSourceDir h0 @ full_path p) s" and "0 < st_size s"
    and "\<And>bytes. length bytes = st_size s \<Longrightarrow> storage (outputBuffer x) +
      2 * length (response_text (served h0 m p v hs s) ''OK'' bytes) \<le> vector_max_size"
  obtains st' x' ch' bytes b response where "processMessage fs (exec_call_functor wcb) c st = Some (Inr st')"
    "fs_mmap fs (c_str (kSourceDir h0 @ full_path p)) (st_size s) = Some bytes"
    "response = response_text (served h0 m p v hs s) ''OK'' bytes"
    "conns st' c = Some x'" "chan_store st' (conn_channel x) = Some ch'"
    "conn_context x' = Some (after_response (served h0 m p v hs s))"
    "answered (served h0 m p v hs s) response k (x\<lparr>inputBuffer := b\<rparr>) x' ch'" "contents b = rest"
    "storage b = storage (inputBuffer x)"
    "length response \<le> k \<and> wants_keepAlive (served h0 m p v hs s) \<longrightarrow> idle_conn c x' ch' k st' \<and>
      storage (outputBuffer x') \<le> storage (outputBuffer x) + length response \<and> same_timers st st'"
proof -
  let ?h = "served h0 m p v hs s" and ?g = "(head_state h0 m p v hs s)\<lparr>parseState := kFinish\<rparr>"
  note I = assms(1) [unfolded idle_conn_def]
  have bi: "Buffer_inv (inputBuffer x)" "Buffer_inv (outputBuffer x)" "contents (outputBuffer x) = []" using I by simp_all
  obtain b where b: "parseRequest fs h0 (inputBuffer x) = Some (Inr (kGetRequest, ?g, b))" "Buffer_inv b" "contents b = rest"
    by (rule parse_request_spec [OF bi(1) assms(4-6,8,3)])
  have room: "storage (outputBuffer x) + length (response_text ?h ''OK'' bytes) \<le> vector_max_size"
    if "length bytes = st_size s" for bytes using assms(10) [OF that] by simp
  obtain bytes b' where r: "makeResponse fs ?g (outputBuffer x) kGetRequest = Inr (?h\<lparr>keepAlive := wants_keepAlive ?h\<rparr>, b')"
    "fs_mmap fs (c_str (kSourceDir h0 @ full_path p)) (length bytes) = Some bytes" "length bytes = st_size s"
    "Buffer_inv b'" "contents b' = contents (outputBuffer x) @ response_text ?h ''OK'' bytes"
    "storage b' \<le> storage (outputBuffer x) + length (response_text ?h ''OK'' bytes)"
    by (rule served_response [OF assms(7-9) bi(2) room])
  let ?y = "x\<lparr>inputBuffer := b, conn_context := Some ?g\<rparr>" and ?r = "response_text ?h ''OK'' bytes"
  let ?s = "conn_put st c ?y"
  have idle: "idle_conn c ?y ch k ?s" using I b(2) by (simp add: idle_conn_def conn_put_def isInLoopThread_def)
  have fits: "storage b' + length ?r \<le> vector_max_size" using r(6) assms(10) [OF r(3)] by simp
  have "contents b' = ?r" using r(5) bi(3) by simp
  obtain st' x' ch' where q: "respond fs (exec_call_functor wcb) c kGetRequest ?s = Inr st'" "conns st' c = Some x'"
    "chan_store st' (conn_channel ?y) = Some ch'" "answered ?h ?r k ?y x' ch'" "conn_context x' = Some (after_response ?h)"
    "length ?r \<le> k \<and> wants_keepAlive ?h \<longrightarrow> idle_conn c x' ch' k st' \<and> storage (outputBuffer x') = storage b' \<and>
      same_timers ?s st'"
    by (rule respond_idle [OF idle _ _ r(4) \<open>contents b' = ?r\<close> fits, of ?g fs kGetRequest "?h" wcb]) (use r(1) in simp_all)
  have "processMessage fs (exec_call_functor wcb) c st = Some (Inr st')"
    using I assms(2) b(1) q(1) by (simp add: processMessage_def get_context_def conn_deref_def Let_def)
  moreover have "same_timers ?s st' \<longleftrightarrow> same_timers st st'" by (simp add: same_timers_def conn_put_def)
  moreover have "answered ?h ?r k (x\<lparr>inputBuffer := b\<rparr>) x' ch'" using q(4) by (simp add: answered_def)
  ultimately show ?thesis using q(6)
    by (intro that [OF _ _ refl q(2) _ q(5) _ b(3)]) (use q(3) r(2,3,6) parse_storage [OF b(1)] in auto)
qed


text \<open>A response that closes the connection does not reset the context, and the parser of a
  finished request returns at once: whatever the peer sends while the connection is being closed makes
  the server append the same response to the output buffer again, with the input left unread.\<close>

theorem closing_response_repeated:
  assumes "conns st c = Some x" and "conn_state x = kDisconnecting" and "Buffer_inv (outputBuffer x)"
    and "conn_context x = Some h" and "parseState h = kFinish" and "\<not> wants_keepAlive h"
    and "fs_contract fs" and "fs_stat fs (file_name h) = Some s" and "requestFileStat h = Some s" and "0 < st_size s"
    and "\<And>bytes. length bytes = st_size s \<Longrightarrow>
      storage (outputBuffer x) + length (response_text (h\<lparr>responseCode := 200\<rparr>) ''OK'' bytes) \<le> vector_max_size"
    and "world_readable s"
  shows "\<exists>st' x' bytes. processMessage fs exec c st = Some (Inr st') \<and> conns st' c = Some x' \<and>
    contents (outputBuffer x') = contents (outputBuffer x) @ response_text (h\<lparr>responseCode := 200\<rparr>) ''OK'' bytes \<and>
    inputBuffer x' = inputBuffer x \<and> conn_state x' = kDisconnecting \<and> chan_store st' = chan_store st \<and>
    map_option parseState (conn_context x') = Some kFinish"
proof -
  obtain bytes b where r: "makeResponse fs h (outputBuffer x) kGetRequest =
      Inr (h\<lparr>responseCode := 200, keepAlive := wants_keepAlive h\<rparr>, b)"
    "contents b = contents (outputBuffer x) @ response_text (h\<lparr>responseCode := 200\<rparr>) ''OK'' bytes"
    by (rule get_response [OF assms(7-10,3,11,12)])
  let ?h = "h\<lparr>responseCode := 200, keepAlive := False\<rparr>" 
  let ?x = "x\<lparr>outputBuffer := b, conn_context := Some ?h\<rparr>"
  let ?s = "conn_put st c ?x"
  have p: "parseRequest fs h (inputBuffer x) = Some (Inr (kGetRequest, h, inputBuffer x))"
    unfolding parseRequest_def by (subst parse_loop.simps) (simp add: assms(5))
  have "processMessage fs exec c st = Some (Inr ?s)"
    using assms(1,2,4,6) r(1) p
    by (simp add: processMessage_def Let_def respond_def get_context_def send_output_def TcpConnection_shutdown_def
        conn_put_def conn_deref_def)
  with r(2) assms(2,5) show ?thesis
    by (intro exI [of _ ?s] exI [of _ ?x] exI [of _ bytes]) (simp add: conn_put_def)
qed

section \<open>Examples\<close>

definition demo_get :: string where
  "demo_get = print_request ''GET'' ''/'' ''1.1'' [(''Host'', ''x'')]"

lemma demo_get_wf: "wf_request ''GET'' ''/'' ''1.1'' [(''Host'', ''x'')]"
  "map_of (rev [(''Host'', ''x'')]) kContentLength = None"
  by (simp_all add: wf_eval)

lemma demo_response_small:
  assumes "http_path h = ''/index.html''" "responseCode h = 200" "length bytes = 5" "\<not> wants_keepAlive h"
  shows "storage (Buffer_new kInitialSize) + 2 * length (response_text h ''OK'' bytes) \<le> vector_max_size"
    and "take 9 (response_text h ''OK'' bytes) = ''HTTP/1.1 ''" and "9 < length (response_text h ''OK'' bytes)"
proof -
  have ct: "content_type ''/index.html'' = ''text/html''" by (simp add: content_type_def path_suffix_def kMimeType_def)
  have num: "to_string 200 = ''200''" "dec_nat 5 = ''5''" by code_simp+
  show "storage (Buffer_new kInitialSize) + 2 * length (response_text h ''OK'' bytes) \<le> vector_max_size"
    using assms ct num by (simp add: response_text_def storage_Buffer_new buffer_defs kInitialSize_def kCRLF_def)
  show "take 9 (response_text h ''OK'' bytes) = ''HTTP/1.1 ''" "9 < length (response_text h ''OK'' bytes)"
    by (simp_all add: response_text_def)
qed


theorem closing_response_repeated_witness:
  "\<exists>(st::conn_world) st' x'. processMessage one_file (exec_call_functor False) 1 st = Some (Inr st') \<and> conns st' 1 = Some x' \<and>
    take 9 (contents (outputBuffer x')) = ''HTTP/1.1 '' \<and> conn_state x' = kDisconnecting"
proof -
  obtain st :: conn_world and x ch where s: "idle_conn 1 x ch 9 st" "outputBuffer x = Buffer_new kInitialSize"
    by (rule idle_demo)
  let ?f = "\<lparr>st_isdir = False, st_roth = True, st_size = 5\<rparr> :: file_stat"
  let ?h = "(HttpConnection_new ''/srv'')\<lparr>http_path := ''/index.html'', requestFileStat := Some ?f, parseState := kFinish\<rparr>"
  let ?x = "x\<lparr>conn_state := kDisconnecting, conn_context := Some ?h\<rparr>"
  let ?st = "conn_put st 1 ?x"
  have h: "http_path (?h\<lparr>responseCode := 200\<rparr>) = ''/index.html''" "responseCode (?h\<lparr>responseCode := 200\<rparr>) = 200"
    "\<not> wants_keepAlive (?h\<lparr>responseCode := 200\<rparr>)" "\<not> wants_keepAlive ?h"
    by (simp_all add: wants_keepAlive_def HttpConnection_new_def)
  have B: "Buffer_inv (outputBuffer ?x)" using s(1) by (simp add: idle_conn_def)
  have room: "storage (outputBuffer ?x) + length (response_text (?h\<lparr>responseCode := 200\<rparr>) ''OK'' bytes) \<le> vector_max_size"
    if "length bytes = st_size ?f" for bytes
    using demo_response_small(1) [OF h(1,2) _ h(3), of bytes] that s(2) by simp
  have nil: "contents (outputBuffer x) = []" using s(1) by (simp add: idle_conn_def)
  have pre: "conns ?st 1 = Some ?x" "conn_state ?x = kDisconnecting" "conn_context ?x = Some ?h" "parseState ?h = kFinish"
    "fs_stat one_file (file_name ?h) = Some ?f" "requestFileStat ?h = Some ?f" "0 < st_size ?f" "world_readable ?f"
    by (simp_all add: one_file_def world_readable_def)
  from closing_response_repeated [OF pre(1,2) B pre(3,4) h(4) one_file_contract pre(5-7) room pre(8)]
  obtain st' x' bytes where "processMessage one_file (exec_call_functor False) 1 ?st = Some (Inr st')" "conns st' 1 = Some x'"
    "contents (outputBuffer x') = contents (outputBuffer ?x) @ response_text (?h\<lparr>responseCode := 200\<rparr>) ''OK'' bytes"
    "conn_state x' = kDisconnecting" by blast
  then show ?thesis using nil
    by (intro exI [of _ ?st] exI [of _ st'] exI [of _ x']) (simp add: response_text_def)
qed

end
