(* ===== verification/Http_Session.thy ===== *)
theory Http_Session
  imports Http_Exchange
begin

text \<open>
  A client that keeps its connection: requests that arrive one after the other, each in a read event of
  its own (\<open>TcpConnection::handleRead\<close> reading into the input buffer, then the server's \<open>onMessage\<close>, which
  renews the idle timer and calls \<open>HttpConnection::processMessage\<close>), are answered in order on the one
  connection, as long as no timer expires. But the timers it has left behind, from \<open>onConnection\<close> on,
  shut it down all the same.
\<close>

section \<open>Events\<close>

text \<open>
  The two callbacks that \<open>HttpServer.cc\<close> sets; \<open>alloc\<close> is the address of the next timer made. The parse loop
  ends on every well-formed buffer (\<open>parseRequest_terminates\<close>). The close callback is the server's: it
  ends in \<open>connectDestroyed\<close> being queued.
\<close>

definition http_callbacks :: "filesystem \<Rightarrow> (TimerQueue \<Rightarrow> timer_ptr) \<Rightarrow> 'z conn_world_scheme conn_callbacks" where
  "http_callbacks fs alloc =
     \<lparr>connectionCallback = (\<lambda>c st. Http_onConnection (alloc (timerQueue st)) c st),
      messageCallback = (\<lambda>c t st.
        case Http_onMessage fs (exec_call_functor False) (alloc (timerQueue st)) c st of
          None \<Rightarrow> Inl (BadAccess ''inputBuffer_'')
        | Some r \<Rightarrow> r),
      closeCallback = (\<lambda>c st. Inr (queueInLoop (F_connectDestroyed c) st)), writeCompleteCallback = None\<rparr>"

lemma http_callbacks_simps [simp]:
  "connectionCallback (http_callbacks fs alloc) c st = Http_onConnection (alloc (timerQueue st)) c st"
  "writeCompleteCallback (http_callbacks fs alloc) = None"
  "Http_onMessage fs (exec_call_functor False) (alloc (timerQueue st)) c st = Some r \<Longrightarrow>
     messageCallback (http_callbacks fs alloc) c t st = r"
  by (simp_all add: http_callbacks_def)

text \<open>Successive events: the address of the new timer, the time, and the data that arrive, which the
  kernel hands out to the next \<open>read\<close>.\<close>

type_synonym http_event = "timer_ptr \<times> Timestamp \<times> string"

definition arrive :: "nat \<Rightarrow> Timestamp \<Rightarrow> string \<Rightarrow> 'z conn_world_scheme \<Rightarrow> 'z conn_world_scheme" where
  "arrive c now d st =
     (case conns st c of None \<Rightarrow> st\<lparr>clock := now\<rparr>
      | Some x \<Rightarrow> conn_put (st\<lparr>clock := now\<rparr>) c (x\<lparr>sock_read := IoOk d\<rparr>))"

text \<open>
  An event of the timer descriptor on the loop in focus: the callbacks of the expired timers, all of them
  \<open>timeoutCallback\<close>, which leaves the queue alone, run in the order of the queue.
\<close>

definition http_timer_event :: "Timestamp \<Rightarrow> 'z conn_world_scheme \<Rightarrow> 'z conn_world_scheme res" where
  "http_timer_event now st =
     bindR (TimerQueue_handleRead (\<lambda>cb. []) (timerQueue st) now now) (\<lambda>q.
       foldR (timeoutCallback (exec_call_functor False))
         (drop (length (callback_log (timerQueue st))) (callback_log q)) (st\<lparr>timerQueue := q\<rparr>))"

text \<open>Until the next read at \<open>now\<close> the timers that have become due run, if there are any.\<close>

definition timer_due :: "Timestamp \<Rightarrow> TimerQueue \<Rightarrow> bool" where
  "timer_due now q \<longleftrightarrow> list_ex (expired_at now) (timers q)"

definition until_read :: "Timestamp \<Rightarrow> 'z conn_world_scheme \<Rightarrow> 'z conn_world_scheme res" where
  "until_read now st = (if timer_due now (timerQueue st) then http_timer_event now (st\<lparr>clock := now\<rparr>) else Inr st)"

fun http_session ::
    "filesystem \<Rightarrow> nat \<Rightarrow> http_event list \<Rightarrow> 'z conn_world_scheme \<Rightarrow> 'z conn_world_scheme res" where
  "http_session fs c [] st = Inr st"
| "http_session fs c ((p, now, d) # es) st =
     bindR (until_read now st) (\<lambda>st1.
       bindR (TcpConnection_handleRead (http_callbacks fs (\<lambda>q. p)) c (arrive c now d st1)) (http_session fs c es))"

section \<open>Requests and replies\<close>

record http_request =
  rq_method :: string
  rq_path :: string
  rq_headers :: "(string \<times> string) list"
  rq_stat :: file_stat

definition request_text :: "http_request \<Rightarrow> string" where
  "request_text q = print_request (rq_method q) (rq_path q) ''1.1'' (rq_headers q)"

text \<open>A well-formed request that keeps the connection, for a readable file below \<open>dir\<close>.\<close>

definition keeping_request :: "filesystem \<Rightarrow> string \<Rightarrow> http_request \<Rightarrow> bool" where
  "keeping_request fs dir q \<longleftrightarrow> wf_request (rq_method q) (rq_path q) ''1.1'' (rq_headers q) \<and>
     map_of (rev (rq_headers q)) kContentLength = None \<and>
     map_of (rev (rq_headers q)) ''Connection'' = Some ''keep-alive'' \<and>
     readable_file fs (dir @ full_path (rq_path q)) (rq_stat q) \<and> 0 < st_size (rq_stat q) \<and>
     length (request_text q) \<le> extrabuf_size"

definition reply_of :: "http_request \<Rightarrow> string \<Rightarrow> string" where
  "reply_of q bytes =
     ''HTTP/1.1 200 OK'' @ kCRLF @ ''Connection: keep-alive'' @ kCRLF @ ''Keep-Alive: max=6, timeout=120'' @ kCRLF @
     ''Content-Type: '' @ content_type (full_path (rq_path q)) @ kCRLF @
     ''Content-Length: '' @ dec_nat (length bytes) @ kCRLF @ kCRLF @ bytes"

definition file_bytes :: "filesystem \<Rightarrow> string \<Rightarrow> http_request \<Rightarrow> string" where
  "file_bytes fs dir q =
     (case fs_mmap fs (c_str (dir @ full_path (rq_path q))) (st_size (rq_stat q)) of None \<Rightarrow> [] | Some bytes \<Rightarrow> bytes)"

definition reply :: "filesystem \<Rightarrow> string \<Rightarrow> http_request \<Rightarrow> string" where
  "reply fs dir q = reply_of q (file_bytes fs dir q)"

lemma request_text_nonempty: "request_text q \<noteq> []"
  by (simp add: request_text_def print_request_def kCRLF_def)

lemma served_reply:
  assumes "map_of (rev (rq_headers q)) ''Connection'' = Some ''keep-alive''"
  shows "response_text (served h0 (rq_method q) (rq_path q) ''1.1'' (rq_headers q) (rq_stat q)) ''OK'' bytes = reply_of q bytes"
    and "wants_keepAlive (served h0 (rq_method q) (rq_path q) ''1.1'' (rq_headers q) (rq_stat q))"
proof -
  let ?h = "served h0 (rq_method q) (rq_path q) ''1.1'' (rq_headers q) (rq_stat q)"
  show k: "wants_keepAlive ?h" using assms by (simp add: wants_keepAlive_def)
  have "http_path ?h = full_path (rq_path q)" by (simp add: served_def head_state_def)
  moreover have "to_string 200 = ''200''" by code_simp
  ultimately show "response_text ?h ''OK'' bytes = reply_of q bytes"
    using k by (simp add: response_text_def reply_of_def)
qed

lemma length_reply_of: "length bytes = length bytes' \<Longrightarrow> length (reply_of q bytes) = length (reply_of q bytes')"
  by (simp add: reply_of_def)

lemma extrabuf_fits: "extrabuf_size \<le> readv_capacity b"
  by (simp add: readv_capacity_def readv_iovcnt_def)

section \<open>The idle timer\<close>

definition fresh_timer :: "timer_ptr \<Rightarrow> 'z EventLoop_scheme \<Rightarrow> bool" where
  "fresh_timer p st \<longleftrightarrow> timer_heap (timerQueue st) p = None \<and> 0 < p \<and> p < UINTPTR_MAX"

text \<open>The queue after the timer \<open>p\<close> of connection \<open>c\<close> has been entered: nothing has been removed.\<close>

definition timer_added :: "timer_ptr \<Rightarrow> Timestamp \<Rightarrow> nat \<Rightarrow> TimerQueue \<Rightarrow> TimerQueue \<Rightarrow> bool" where
  "timer_added p now c q q' \<longleftrightarrow> tq_rest q' \<and>
     set (timers q') = insert (addTime now idle_timeout, p) (set (timers q)) \<and>
     (\<exists>t. timer_heap q' = (timer_heap q)(p \<mapsto> t) \<and> callback t = c)"

lemma runAfter_ok:
  fixes st :: "'z EventLoop_scheme"
  assumes "tq_rest (timerQueue st)" and "isInLoopThread st" and "fresh_timer p st"
  shows "\<exists>tid q. runAfter p idle_timeout c st = Inr (tid, st\<lparr>timerQueue := q\<rparr>) \<and>
    timer_added p (clock st) c (timerQueue st) q"
proof -
  obtain tid q where q: "EventLoop_addTimer p c (addTime (clock st) idle_timeout) (Dbl 0 0) st = Inr (tid, st\<lparr>timerQueue := q\<rparr>)"
    "tq_rest q" "set (timers q) = insert (addTime (clock st) idle_timeout, p) (set (timers (timerQueue st)))"
    "timer_heap q = (timer_heap (timerQueue st))(p \<mapsto> Timer_new c (addTime (clock st) idle_timeout) (Dbl 0 0)
       (s_numCreated (timerQueue st) + 1))"
    using addTimer_in_loop [OF assms(1,2)] assms(3) unfolding fresh_timer_def by blast
  moreover have "callback (Timer_new c w iv n) = c" for w iv n by (simp add: Timer_new_def)
  ultimately have "timer_added p (clock st) c (timerQueue st) q" unfolding timer_added_def by blast
  with q(1) show ?thesis by (auto simp: runAfter_def runAt_def)
qed

text \<open>An event of the timer descriptor runs the callback of every timer that is due.\<close>

lemma due_callback:
  assumes "tq_rest q" and "(w, p) \<in> set (timers q)" and "w \<le> now"
    and "timer_heap q p = Some t" and "callback t = c"
  shows "\<exists>q' called. TimerQueue_handleRead (\<lambda>cb. []) q now clk = Inr q' \<and>
    callback_log q' = callback_log q @ called \<and> c \<in> set called"
proof -
  have i: "tq_inv [] q" using assms(1) by (simp add: tq_rest_def)
  have "(w, p) \<in> set (expired_entries q now)" using assms(2,3) by (simp add: expired_at_def)
  moreover have "entry_callback q (w, p) = c" using assms(4,5) by (simp add: entry_callback_def)
  ultimately have c: "c \<in> set (map (entry_callback q) (expired_entries q now))" by (metis image_eqI list.set_map)
  obtain q0 where q0: "TimerQueue_handleRead (\<lambda>cb. []) q now clk = Inr q0" using handleRead_quiet [OF i, of "\<lambda>cb. []" now clk] by auto
  from i show ?thesis
  proof (cases rule: handleRead_cases [where script = "\<lambda>cb. []" and now = now and clk = clk])
    case alloc_failed
    with q0 show ?thesis by simp
  next
    case (finished q2 q')
    have "callback_log q' = callback_log q @ map (entry_callback q) (expired_entries q now)"
      using finished(9) unfolding finished(3) .
    with finished(4) c show ?thesis by blast
  qed
qed

text \<open>Cancelling a timer outside a timer callback does nothing.\<close>

lemma cancel_idle:
  fixes st :: "'z EventLoop_scheme"
  assumes "tq_rest (timerQueue st)" and "isInLoopThread st"
  shows "EventLoop_cancel tid st = Inr st"
proof -
  have "cancelInLoop (timerQueue st) tid = Inr (timerQueue st)"
    using cancelInLoop_spec(1) [of "[]" "timerQueue st" tid] assms(1) by (simp add: tq_rest_def)
  then show ?thesis using assms(2) by (simp add: EventLoop_cancel_def runInLoop_def)
qed

lemma timer_conn [simp]:
  fixes st :: "'z conn_world_scheme"
  shows "idle_conn c x ch k (st\<lparr>timerQueue := q\<rparr>) = idle_conn c x ch k st"
    and "idle_conn c x ch k (st\<lparr>clock := now\<rparr>) = idle_conn c x ch k st"
  using poller_inv_cong [of "st\<lparr>timerQueue := q\<rparr>" st] poller_inv_cong [of "st\<lparr>clock := now\<rparr>" st]
  by (simp_all add: idle_conn_def loop_inv_def isInLoopThread_def)

section \<open>One event of the session\<close>

text \<open>The connection between two events: idle, with everything read, the timers at rest and a context for
  a new request.\<close>

definition between :: "nat \<Rightarrow> TcpConnection \<Rightarrow> Channel \<Rightarrow> nat \<Rightarrow> string \<Rightarrow> 'z conn_world_scheme \<Rightarrow> bool" where
  "between c x ch k dir st \<longleftrightarrow> idle_conn c x ch k st \<and> contents (inputBuffer x) = [] \<and> tq_rest (timerQueue st) \<and>
     (\<exists>h. conn_context x = Some h \<and> fresh_request h \<and> kSourceDir h = dir)"

text \<open>\<open>onMessage\<close> enters a new timer and processes the message.\<close>

lemma onMessage_renews:
  fixes st :: "'z conn_world_scheme"
  assumes "tq_rest (timerQueue st)" and "isInLoopThread st" and "fresh_timer p st"
    and "conns st c = Some x" and "conn_context x = Some h"
  obtains tid q where "Http_onMessage fs exec p c st =
      processMessage fs exec c (conn_put (st\<lparr>timerQueue := q\<rparr>) c (x\<lparr>conn_context := Some (h\<lparr>http_timerId := tid\<rparr>)\<rparr>))"
    "timer_added p (clock st) c (timerQueue st) q"
  using runAfter_ok [OF assms(1-3), of c] cancel_idle [OF assms(1,2)] assms(4,5) that
  by (auto simp: Http_onMessage_def get_context_def context_put_def conn_deref_def)

lemma request_event:
  fixes st :: "'z conn_world_scheme"
  assumes B: "between c x ch k dir st" and q: "keeping_request fs dir q" and fs: "fs_contract fs" and p: "fresh_timer p st"
    and rin: "storage (inputBuffer x) + extrabuf_size \<le> vector_max_size"
    and rout: "storage (outputBuffer x) + 2 * length (reply fs dir q) \<le> vector_max_size" and k: "length (reply fs dir q) \<le> k"
  obtains st' x' ch' where "TcpConnection_handleRead (http_callbacks fs (\<lambda>q. p)) c (arrive c now (request_text q) st) = Inr st'"
    "between c x' ch' k dir st'" "sock_written x' = sock_written x @ reply fs dir q"
    "storage (inputBuffer x') \<le> storage (inputBuffer x) + extrabuf_size"
    "storage (outputBuffer x') \<le> storage (outputBuffer x) + length (reply fs dir q)"
    "timer_added p now c (timerQueue st) (timerQueue st')"
proof -
  note Q = q [unfolded keeping_request_def]
  let ?d = "request_text q" and ?name = "c_str (dir @ full_path (rq_path q))"
  obtain h where I: "idle_conn c x ch k st" and nil: "contents (inputBuffer x) = []" and T: "tq_rest (timerQueue st)"
    and h: "conn_context x = Some h" "fresh_request h" "kSourceDir h = dir" using B by (auto simp: between_def)
  note I' = I [unfolded idle_conn_def]
  have "length ?d \<le> readv_capacity (inputBuffer x)" using Q extrabuf_fits order_trans by blast
  then obtain b where b: "readFd (inputBuffer x) (IoOk ?d) = Inr (int (length ?d), None, b)" "Buffer_inv b"
    "contents b = ?d" "storage b \<le> storage (inputBuffer x) + extrabuf_size"
    using readFd_spec [OF _ _ rin] I' nil by fastforce
  let ?x = "x\<lparr>sock_read := IoOk ?d, inputBuffer := b\<rparr>"
  let ?sa = "conn_put (st\<lparr>clock := now\<rparr>) c ?x"
  have s1: "timerQueue ?sa = timerQueue st" "clock ?sa = now" "conns ?sa c = Some ?x" "isInLoopThread ?sa"
    using I' by (simp_all add: conn_put_def isInLoopThread_def)
  obtain tid tq where m: "Http_onMessage fs (exec_call_functor False) p c ?sa =
      processMessage fs (exec_call_functor False) c
        (conn_put (?sa\<lparr>timerQueue := tq\<rparr>) c (?x\<lparr>conn_context := Some (h\<lparr>http_timerId := tid\<rparr>)\<rparr>))"
    "timer_added p now c (timerQueue st) tq"
  proof (rule onMessage_renews [of ?sa p c ?x h fs "exec_call_functor False"])
    show "tq_rest (timerQueue ?sa)" "isInLoopThread ?sa" "fresh_timer p ?sa" "conns ?sa c = Some ?x"
      using T s1 p by (simp_all only: fresh_timer_def)
    show "conn_context ?x = Some h" using h(1) by simp
  qed (simp only: s1)
  let ?hc = "h\<lparr>http_timerId := tid\<rparr>"
  let ?xc = "?x\<lparr>conn_context := Some ?hc\<rparr>"
  let ?s = "conn_put (?sa\<lparr>timerQueue := tq\<rparr>) c ?xc"
  have "idle_conn c x ch k (st\<lparr>clock := now\<rparr>)" using I by simp
  then have "idle_conn c ?x ch k ?sa" using b(2) by (simp add: idle_conn_def conn_put_def isInLoopThread_def)
  then have "idle_conn c ?x ch k (?sa\<lparr>timerQueue := tq\<rparr>)" by simp
  then have idle: "idle_conn c ?xc ch k ?s" by (rule idle_context)
  have h0: "conn_context ?xc = Some ?hc" "fresh_request ?hc" "kSourceDir ?hc = dir"
    using h by (simp_all add: fresh_request_def)
  have inp: "contents (inputBuffer ?xc) = print_request (rq_method q) (rq_path q) ''1.1'' (rq_headers q) @ []"
    using b(3) by (simp add: request_text_def)
  have rf: "readable_file fs (kSourceDir ?hc @ full_path (rq_path q)) (rq_stat q)" using Q h0(3) by simp
  then obtain bytes0 where by0: "fs_mmap fs ?name (st_size (rq_stat q)) = Some bytes0" "length bytes0 = st_size (rq_stat q)"
    using fs Q h0(3) unfolding fs_contract_def readable_file_def world_readable_def by metis
  have rep: "reply fs dir q = reply_of q bytes0" using by0(1) by (simp add: reply_def file_bytes_def)
  let ?h = "served ?hc (rq_method q) (rq_path q) ''1.1'' (rq_headers q) (rq_stat q)"
  have ka: "map_of (rev (rq_headers q)) ''Connection'' = Some ''keep-alive''" using Q by simp
  have wf: "wf_request (rq_method q) (rq_path q) ''1.1'' (rq_headers q)"
    "map_of (rev (rq_headers q)) kContentLength = None" "0 < st_size (rq_stat q)" using Q by simp_all
  have room: "storage (outputBuffer ?xc) + 2 * length (response_text ?h ''OK'' bytes) \<le> vector_max_size"
    if "length bytes = st_size (rq_stat q)" for bytes
    using rout length_reply_of [of bytes bytes0 q] that by0(2) by (simp add: served_reply(1) [OF ka] rep)
  obtain st' x' ch' bytes b' r where e: "processMessage fs (exec_call_functor False) c ?s = Some (Inr st')"
    "fs_mmap fs (c_str (kSourceDir ?hc @ full_path (rq_path q))) (st_size (rq_stat q)) = Some bytes" "r = response_text ?h ''OK'' bytes"
    "conns st' c = Some x'" "chan_store st' (conn_channel ?xc) = Some ch'" "conn_context x' = Some (after_response ?h)"
    "answered ?h r k (?xc\<lparr>inputBuffer := b'\<rparr>) x' ch'" "contents b' = []" "storage b' = storage (inputBuffer ?xc)"
    "length r \<le> k \<and> wants_keepAlive ?h \<longrightarrow> idle_conn c x' ch' k st' \<and>
      storage (outputBuffer x') \<le> storage (outputBuffer ?xc) + length r \<and> same_timers ?s st'"
    by (rule request_spec [OF idle h0(1,2) inp wf(1,2) fs rf wf(3) room])
  have r: "r = reply fs dir q" using e(2,3) by0(1) h0(3) rep by (simp add: served_reply(1) [OF ka])
  have i: "idle_conn c x' ch' k st'" "storage (outputBuffer x') \<le> storage (outputBuffer x) + length r" "timerQueue st' = tq"
    using e(10) served_reply(2) [OF ka] k r by (simp_all add: same_timers_def conn_put_def)
  have a: "inputBuffer x' = b'" "sock_written x' = sock_written x @ r" using e(7) k r by (simp_all add: answered_def)
  have "fresh_request (after_response ?h)" "kSourceDir (after_response ?h) = dir"
    using served_reply(2) [OF ka] h0(3) by (simp_all add: after_response_def Let_def resetState_def fresh_request_def)
  then have "between c x' ch' k dir st'" using i(1,3) m(2) a(1) e(6,8) by (simp add: between_def timer_added_def)
  moreover have "arrive c now ?d st = conn_put (st\<lparr>clock := now\<rparr>) c (x\<lparr>sock_read := IoOk ?d\<rparr>)"
    using I' by (simp add: arrive_def)
  then have "TcpConnection_handleRead (http_callbacks fs (\<lambda>q. p)) c (arrive c now ?d st) = Inr st'"
    using I' b(1) e(1) m(1) request_text_nonempty [of q]
    by (simp add: TcpConnection_handleRead_def conn_put_def conn_deref_def assertInLoopThread_def isInLoopThread_def)
  ultimately show ?thesis using that a e(9) b(4) i(2,3) r m(2) by simp
qed

section \<open>The session\<close>

text \<open>What the client does: requests, with the time of each and the address of the timer it makes.\<close>

type_synonym visit = "timer_ptr \<times> Timestamp \<times> http_request"

definition events_of :: "visit list \<Rightarrow> http_event list" where
  "events_of vs = map (\<lambda>(p, now, q). (p, now, request_text q)) vs"

definition replies :: "filesystem \<Rightarrow> string \<Rightarrow> visit list \<Rightarrow> string" where
  "replies fs dir vs = concat (map (\<lambda>(p, now, q). reply fs dir q) vs)"

definition idle_entries :: "visit list \<Rightarrow> Entry set" where
  "idle_entries vs = (\<lambda>(p, now, q). (addTime now idle_timeout, p)) ` set vs"

text \<open>Requests that keep the connection, whose replies the kernel takes at once, and new timers for them.\<close>

definition visits_ok :: "filesystem \<Rightarrow> string \<Rightarrow> nat \<Rightarrow> visit list \<Rightarrow> 'z EventLoop_scheme \<Rightarrow> bool" where
  "visits_ok fs dir k vs st \<longleftrightarrow> distinct (map fst vs) \<and>
     (\<forall>(p, now, q)\<in>set vs. keeping_request fs dir q \<and> length (reply fs dir q) \<le> k \<and> fresh_timer p st)"

lemma visits_ok_mono:
  assumes "visits_ok fs dir k vs st" and "\<And>p. p \<in> fst ` set vs \<Longrightarrow> fresh_timer p st \<Longrightarrow> fresh_timer p st'"
  shows "visits_ok fs dir k vs st'"
proof -
  have "fresh_timer p st'" if "(p, now, q) \<in> set vs" for p now q
    using assms(1) assms(2) [of p] that by (force simp: visits_ok_def)
  with assms(1) show ?thesis unfolding visits_ok_def by blast
qed

text \<open>The buffers can grow by what the session needs.\<close>

definition room_for :: "filesystem \<Rightarrow> string \<Rightarrow> visit list \<Rightarrow> TcpConnection \<Rightarrow> bool" where
  "room_for fs dir vs x \<longleftrightarrow> storage (inputBuffer x) + length vs * extrabuf_size \<le> vector_max_size \<and>
     storage (outputBuffer x) + 2 * length (replies fs dir vs) \<le> vector_max_size"

text \<open>Every request arrives before any timer becomes due: those in the queue, and those of the requests.\<close>

definition before_timeouts :: "visit list \<Rightarrow> TimerQueue \<Rightarrow> bool" where
  "before_timeouts vs q \<longleftrightarrow>
     (\<forall>(p, now, r)\<in>set vs. \<forall>e\<in>set (timers q) \<union> idle_entries vs. now < fst e)"

lemma not_due:
  assumes "before_timeouts ((p, now, r) # vs) (timerQueue st)"
  shows "until_read now st = Inr st"
proof -
  have "\<not> expired_at now e" if "e \<in> set (timers (timerQueue st))" for e
    using assms that by (simp add: before_timeouts_def expired_at_def not_le)
  then show ?thesis by (simp add: until_read_def timer_due_def list_ex_iff)
qed

lemma before_timeouts_tl:
  assumes "before_timeouts ((p, now, r) # vs) q"
    and "set (timers q') = insert (addTime now idle_timeout, p) (set (timers q))"
  shows "before_timeouts vs q'"
  using assms by (fastforce simp: before_timeouts_def idle_entries_def)

lemma early_insert:
  assumes "before_timeouts vs q" and "set (timers q') = insert (w, p0) (set (timers q))"
    and "\<And>p now r. (p, now, r) \<in> set vs \<Longrightarrow> now < w"
  shows "before_timeouts vs q'"
  unfolding before_timeouts_def
proof (clarify)
  fix p now r a b
  assume v: "(p, now, r) \<in> set vs" and e: "(a, b) \<in> set (timers q') \<union> idle_entries vs"
  have early: "now < fst e'" if "e' \<in> set (timers q) \<union> idle_entries vs" for e'
    using assms(1) v that unfolding before_timeouts_def by fast
  from e assms(2) have "(a, b) = (w, p0) \<or> (a, b) \<in> set (timers q) \<union> idle_entries vs" by blast
  then show "now < fst (a, b)" using early [of "(a, b)"] assms(3) [OF v] by auto
qed

lemma session_spec:
  fixes st :: "'z conn_world_scheme"
  assumes "between c x ch k dir st" and "visits_ok fs dir k vs st" and "fs_contract fs" and "room_for fs dir vs x"
    and "before_timeouts vs (timerQueue st)"
  shows "\<exists>st' x' ch'. http_session fs c (events_of vs) st = Inr st' \<and>
    between c x' ch' k dir st' \<and> sock_written x' = sock_written x @ replies fs dir vs \<and>
    set (timers (timerQueue st')) = idle_entries vs \<union> set (timers (timerQueue st)) \<and>
    (\<forall>p. p \<notin> fst ` set vs \<longrightarrow> timer_heap (timerQueue st') p = timer_heap (timerQueue st) p)"
  using assms
proof (induction vs arbitrary: st x ch)
  case Nil
  then show ?case
    by (intro exI [of _ st] exI [of _ x] exI [of _ ch]) (simp add: events_of_def replies_def idle_entries_def)
next
  case (Cons v vs)
  obtain p now q where v: "v = (p, now, q)" by (metis prod.exhaust)
  have V: "keeping_request fs dir q" "length (reply fs dir q) \<le> k" "fresh_timer p st" "p \<notin> fst ` set vs"
    using Cons.prems(2) v by (auto simp: visits_ok_def)
  have "storage (inputBuffer x) + extrabuf_size \<le> vector_max_size"
    "storage (outputBuffer x) + 2 * length (reply fs dir q) \<le> vector_max_size"
    using Cons.prems(4) v by (simp_all add: room_for_def replies_def)
  then obtain st1 x1 ch1 where e: "TcpConnection_handleRead (http_callbacks fs (\<lambda>q. p)) c (arrive c now (request_text q) st) = Inr st1"
    "between c x1 ch1 k dir st1" "sock_written x1 = sock_written x @ reply fs dir q"
    "storage (inputBuffer x1) \<le> storage (inputBuffer x) + extrabuf_size"
    "storage (outputBuffer x1) \<le> storage (outputBuffer x) + length (reply fs dir q)"
    "timer_added p now c (timerQueue st) (timerQueue st1)"
    using request_event [OF Cons.prems(1) V(1) Cons.prems(3) V(3) _ _ V(2)] by blast
  have t: "set (timers (timerQueue st1)) = insert (addTime now idle_timeout, p) (set (timers (timerQueue st)))"
    "\<And>p'. p' \<noteq> p \<Longrightarrow> timer_heap (timerQueue st1) p' = timer_heap (timerQueue st) p'"
    using e(6) by (auto simp: timer_added_def)
  have B: "until_read now st = Inr st" "before_timeouts vs (timerQueue st1)"
    using Cons.prems(5) not_due before_timeouts_tl [OF _ t(1)] v by blast+
  have fr: "fresh_timer p' st1" if "fresh_timer p' st" "p' \<noteq> p" for p' using that t(2) by (simp add: fresh_timer_def)
  have "visits_ok fs dir k vs st1" using Cons.prems(2) fr V(4) v unfolding visits_ok_def by fastforce
  moreover have "room_for fs dir vs x1" using Cons.prems(4) e(4,5) v by (simp add: room_for_def replies_def)
  ultimately obtain st' x' ch' where I: "http_session fs c (events_of vs) st1 = Inr st'"
    "between c x' ch' k dir st'" "sock_written x' = sock_written x1 @ replies fs dir vs"
    "set (timers (timerQueue st')) = idle_entries vs \<union> set (timers (timerQueue st1))"
    "\<forall>p. p \<notin> fst ` set vs \<longrightarrow> timer_heap (timerQueue st') p = timer_heap (timerQueue st1) p"
    using Cons.IH [OF e(2) _ Cons.prems(3) _ B(2)] by blast
  have "http_session fs c (events_of (v # vs)) st = Inr st'"
    using e(1) I(1) B(1) v by (simp add: events_of_def)
  moreover have "sock_written x' = sock_written x @ replies fs dir (v # vs)" using I(3) e(3) v by (simp add: replies_def)
  moreover have "set (timers (timerQueue st')) = idle_entries (v # vs) \<union> set (timers (timerQueue st))"
    using I(4) t(1) v by (auto simp: idle_entries_def)
  ultimately show ?case using I(2,5) t(2) v by (intro exI [of _ st'] exI [of _ x'] exI [of _ ch']) auto
qed

section \<open>Properties\<close>

text \<open>C4. Keep-alive, until an idle timer expires: any number of well-formed requests that arrive one after
  the other on a connection, all of them before any timer of the queue or of the requests themselves is due,
  are answered on it, in order and each exactly once. Each request asks to keep the connection, is for a readable
  file that is not empty and is read at once, the buffers have room for the session, and the kernel takes the
  responses at once: then what has been written is their concatenation, nothing is left in either buffer, and
  the connection is up.
  A timer that is due between two requests runs in between, as in the code, and may shut the connection down.\<close>

theorem http_session_answered:
  assumes "between c x ch k dir st" and "visits_ok fs dir k vs st" and "fs_contract fs" and "room_for fs dir vs x"
    and "before_timeouts vs (timerQueue st)"
  shows "\<exists>st' x'. http_session fs c (events_of vs) st = Inr st' \<and>
    conns st' c = Some x' \<and> sock_written x' = sock_written x @ replies fs dir vs \<and>
    contents (inputBuffer x') = [] \<and> contents (outputBuffer x') = [] \<and> conn_state x' = kConnected"
  using session_spec [OF assms] unfolding between_def idle_conn_def by blast

text \<open>C29. The idle timer is never renewed: the timer that \<open>onConnection\<close> starts is still in the queue,
  for the time sixty seconds after the connection was established, however many requests the connection
  has served before that time. The event of the timer descriptor at any time from then on runs its
  callback, which shuts the connection down, however recent its last request is.\<close>

theorem http_idle_timer_not_renewed:
  assumes "idle_conn c x ch k st" and "contents (inputBuffer x) = []" and "tq_rest (timerQueue st)"
    and "fresh_timer p0 st" and "p0 \<notin> fst ` set vs" and "visits_ok fs source_dir k vs st" and "fs_contract fs"
    and "room_for fs source_dir vs x" and "before_timeouts vs (timerQueue st)"
    and "\<forall>(p, now, q)\<in>set vs. now < addTime (clock st) idle_timeout"
  shows "\<exists>st0 st' x' t st'' x''. Http_onConnection p0 c st = Inr st0 \<and>
    http_session fs c (events_of vs) st0 = Inr st' \<and>
    conns st' c = Some x' \<and> conn_state x' = kConnected \<and> sock_written x' = sock_written x @ replies fs source_dir vs \<and>
    (addTime (clock st) idle_timeout, p0) \<in> set (timers (timerQueue st')) \<and>
    timer_heap (timerQueue st') p0 = Some t \<and> callback t = c \<and>
    (\<forall>late \<ge> addTime (clock st) idle_timeout. \<exists>q called. TimerQueue_handleRead (\<lambda>cb. []) (timerQueue st') late late = Inr q \<and>
      callback_log q = callback_log (timerQueue st') @ called \<and> c \<in> set called) \<and>
    timeoutCallback (exec_call_functor False) c st' = Inr st'' \<and> conns st'' c = Some x'' \<and>
    conn_state x'' = kDisconnecting \<and> sock_shutdown x''"
proof -
  note I = assms(1) [unfolded idle_conn_def]
  have loop: "isInLoopThread st" using I by simp
  obtain tid tq where r: "runAfter p0 idle_timeout c st = Inr (tid, st\<lparr>timerQueue := tq\<rparr>)"
    "timer_added p0 (clock st) c (timerQueue st) tq" using runAfter_ok [OF assms(3) loop assms(4), of c] by blast
  let ?h = "(HttpConnection_new source_dir)\<lparr>http_timerId := tid\<rparr>"
  let ?x = "x\<lparr>conn_context := Some ?h\<rparr>"
  let ?st = "conn_put (st\<lparr>timerQueue := tq\<rparr>) c ?x"
  have c: "Http_onConnection p0 c st = Inr ?st" using I r(1) by (simp add: Http_onConnection_def TcpConnection_connected_def conn_deref_def context_put_def)
  have q: "timerQueue ?st = tq" by (simp add: conn_put_def)
  obtain t where t: "timer_heap tq = (timer_heap (timerQueue st))(p0 \<mapsto> t)" "callback t = c"
    "(addTime (clock st) idle_timeout, p0) \<in> set (timers tq)" "tq_rest tq" using r(2) by (auto simp: timer_added_def)
  have "idle_conn c ?x ch k ?st" by (rule idle_context) (use assms(1) in simp)
  moreover have "fresh_request ?h" "kSourceDir ?h = source_dir" by (simp_all add: fresh_request_def HttpConnection_new_def)
  ultimately have b: "between c ?x ch k source_dir ?st" using assms(2) t(4) q by (simp add: between_def)
  have room: "room_for fs source_dir vs ?x" using assms(8) by (simp add: room_for_def)
  have fr: "fresh_timer p ?st" if "fresh_timer p st" "p \<noteq> p0" for p using that t(1) q by (simp add: fresh_timer_def)
  have v: "visits_ok fs source_dir k vs ?st"
  proof (rule visits_ok_mono [OF assms(6)])
    show "fresh_timer p ?st" if "p \<in> fst ` set vs" "fresh_timer p st" for p
      using fr [of p] that assms(5) by blast
  qed
  have "set (timers (timerQueue ?st)) = insert (addTime (clock st) idle_timeout, p0) (set (timers (timerQueue st)))"
    using r(2) q by (simp add: timer_added_def)
  moreover have "now < addTime (clock st) idle_timeout" if "(p, now, q) \<in> set vs" for p now q
    using assms(10) that by fast
  ultimately have early: "before_timeouts vs (timerQueue ?st)"
    using early_insert [OF assms(9)] by blast
  obtain st' x' ch' where s: "http_session fs c (events_of vs) ?st = Inr st'"
    "between c x' ch' k source_dir st'" "sock_written x' = sock_written ?x @ replies fs source_dir vs"
    "set (timers (timerQueue st')) = idle_entries vs \<union> set (timers (timerQueue ?st))"
    "\<forall>p. p \<notin> fst ` set vs \<longrightarrow> timer_heap (timerQueue st') p = timer_heap (timerQueue ?st) p"
    using session_spec [OF b v assms(7) room early] by blast
  have i: "isInLoopThread st'" "conns st' c = Some x'" "conn_state x' = kConnected"
    "chan_store st' (conn_channel x') = Some ch'" "\<not> isWriting ch'" using s(2) by (simp_all add: between_def idle_conn_def)
  let ?y = "x'\<lparr>conn_state := kDisconnecting, sock_shutdown := sock_shutdown x' \<or> \<not> isWriting ch'\<rparr>"
  have "timeoutCallback (exec_call_functor False) c st' = Inr (conn_put st' c ?y)"
    using shutdown_eq [OF i(1-4), of False] i(2) by (simp add: timeoutCallback_def)
  moreover have "conns (conn_put st' c ?y) c = Some ?y" "conn_state ?y = kDisconnecting" "sock_shutdown ?y"
    using i(5) by (simp_all add: conn_put_def)
  moreover have h: "timer_heap (timerQueue st') p0 = Some t" using s(5) assms(5) t(1) q by simp
  moreover have e: "(addTime (clock st) idle_timeout, p0) \<in> set (timers (timerQueue st'))" using s(4) t(3) q by simp
  moreover have "\<exists>q called. TimerQueue_handleRead (\<lambda>cb. []) (timerQueue st') late late = Inr q \<and>
      callback_log q = callback_log (timerQueue st') @ called \<and> c \<in> set called"
    if "addTime (clock st) idle_timeout \<le> late" for late
    by (rule due_callback [OF _ e that]) (use s(2) h t(2) in \<open>simp_all add: between_def\<close>)
  ultimately show ?thesis using c s(1,3) i(2,3) t(2) by fastforce
qed

section \<open>Examples\<close>

definition demo_request :: http_request where
  "demo_request = \<lparr>rq_method = ''GET'', rq_path = ''/'', rq_headers = [(''Connection'', ''keep-alive'')],
     rq_stat = \<lparr>st_isdir = False, st_roth = True, st_size = 5\<rparr>\<rparr>"

definition demo_visits :: "visit list" where
  "demo_visits = [(50, Timestamp 1, demo_request), (51, Timestamp 2, demo_request)]"

lemma demo_request_ok:
  "keeping_request one_file dir demo_request" "length (reply one_file dir demo_request) \<le> 4096"
proof -
  have ct: "content_type ''/index.html'' = ''text/html''" by (simp add: content_type_def path_suffix_def kMimeType_def)
  have num: "length (dec_nat (length ''hello'')) \<le> 3000" by code_simp
  have "wf_request ''GET'' ''/'' ''1.1'' [(''Connection'', ''keep-alive'')]" by (simp add: wf_eval)
  then show "keeping_request one_file dir demo_request"
    using one_file_readable [of "dir @ full_path ''/''"]
    by (simp add: keeping_request_def demo_request_def request_text_def print_request_def print_header_def kCRLF_def
        kContentLength_def extrabuf_size_def)
  show "length (reply one_file dir demo_request) \<le> 4096"
    by (simp add: reply_def reply_of_def file_bytes_def demo_request_def one_file_def full_path_def ct kCRLF_def) (use num in simp)
qed

lemma demo_replies: "replies one_file dir demo_visits = reply one_file dir demo_request @ reply one_file dir demo_request"
  by (simp add: replies_def demo_visits_def)

lemma demo_early: "0 \<le> i \<Longrightarrow> Timestamp 1 < addTime (Timestamp i) idle_timeout" "0 \<le> i \<Longrightarrow> Timestamp 2 < addTime (Timestamp i) idle_timeout"
  using addTime_delta_whole [of 60] by (simp_all add: addTime_def idle_timeout_def less_Timestamp_def)

lemma demo_session:
  obtains st :: conn_world and x ch where "idle_conn 1 x ch 4096 st" "sock_written x = []" "contents (inputBuffer x) = []"
    "timerQueue st = TimerQueue_new" "conn_context x = Some (HttpConnection_new ''/srv'')"
    "\<And>dir. visits_ok one_file dir 4096 demo_visits st" "\<And>dir. room_for one_file dir demo_visits x" "fresh_timer 49 st"
    "before_timeouts demo_visits (timerQueue st)" "clock st = Timestamp 0"
proof -
  obtain st :: conn_world and x ch where s: "idle_conn 1 x ch 4096 st" "sock_written x = []"
    "inputBuffer x = Buffer_new kInitialSize" "outputBuffer x = Buffer_new kInitialSize" "timerQueue st = TimerQueue_new"
    by (rule idle_demo)
  let ?x = "x\<lparr>conn_context := Some (HttpConnection_new ''/srv'')\<rparr>"
  let ?st = "conn_put (st\<lparr>clock := Timestamp 0\<rparr>) 1 ?x"
  have p: "fresh_timer p ?st" if "0 < p" "p < 100" for p
    using that s(5) by (simp add: fresh_timer_def conn_put_def TimerQueue_new_def UINTPTR_MAX_def)
  have "visits_ok one_file dir 4096 demo_visits ?st" for dir
    using p [of 50] p [of 51] demo_request_ok [of dir] by (simp add: visits_ok_def demo_visits_def)
  moreover have "room_for one_file dir demo_visits ?x" for dir
    using demo_request_ok(2) [of dir]
    by (simp add: room_for_def demo_replies)
      (simp add: demo_visits_def s(3,4) storage_Buffer_new kInitialSize_def kCheapPrepend_def vector_max_size_def extrabuf_size_def)
  moreover have "before_timeouts demo_visits (timerQueue ?st)"
    using s(5) demo_early [of 1] demo_early [of 2]
    by (auto simp: before_timeouts_def idle_entries_def demo_visits_def TimerQueue_new_def conn_put_def)
  moreover have "idle_conn 1 ?x ch 4096 ?st" by (rule idle_context) (use s(1) in simp)
  ultimately show ?thesis using that [of ?x ch ?st] s p [of 49] new_buffer_facts by (simp add: conn_put_def)
qed

theorem http_session_answered_witness:
  "\<exists>(st::conn_world) st' x'. http_session one_file 1
      (events_of demo_visits) st = Inr st' \<and> conns st' 1 = Some x' \<and>
    sock_written x' = reply one_file ''/srv'' demo_request @ reply one_file ''/srv'' demo_request \<and> conn_state x' = kConnected"
proof -
  obtain st :: conn_world and x ch where s: "idle_conn 1 x ch 4096 st" "sock_written x = []" "contents (inputBuffer x) = []"
    "timerQueue st = TimerQueue_new" "conn_context x = Some (HttpConnection_new ''/srv'')"
    "visits_ok one_file ''/srv'' 4096 demo_visits st" "room_for one_file ''/srv'' demo_visits x" "before_timeouts demo_visits (timerQueue st)" by (rule demo_session) blast
  have "between 1 x ch 4096 ''/srv'' st"
    using s(1,3-5) TimerQueue_new_rest fresh_request_intros(1) [of "''/srv''"] by (simp add: between_def) (simp add: HttpConnection_new_def)
  from http_session_answered [OF this s(6) one_file_contract s(7,8)]
  obtain st' x' where "http_session one_file 1 (events_of demo_visits) st = Inr st'"
    "conns st' 1 = Some x'" "sock_written x' = sock_written x @ replies one_file ''/srv'' demo_visits"
    "conn_state x' = kConnected" by blast
  then show ?thesis using s(2) by (intro exI [of _ st] exI [of _ st'] exI [of _ x']) (simp add: demo_replies)
qed

theorem http_idle_timer_not_renewed_witness:
  "\<exists>(st::conn_world) st0 st' st'' x''. Http_onConnection 49 1 st = Inr st0 \<and>
    http_session one_file 1 (events_of demo_visits) st0 = Inr st' \<and>
    (addTime (clock st) idle_timeout, 49) \<in> set (timers (timerQueue st')) \<and>
    timeoutCallback (exec_call_functor False) 1 st' = Inr st'' \<and> conns st'' 1 = Some x'' \<and>
    conn_state x'' = kDisconnecting \<and> sock_shutdown x''"
proof -
  obtain st :: conn_world and x ch where s: "idle_conn 1 x ch 4096 st" "contents (inputBuffer x) = []"
    "timerQueue st = TimerQueue_new" "visits_ok one_file source_dir 4096 demo_visits st" "room_for one_file source_dir demo_visits x"
    "fresh_timer 49 st" "before_timeouts demo_visits (timerQueue st)" "clock st = Timestamp 0" by (rule demo_session) blast
  have "tq_rest (timerQueue st)" "49 \<notin> fst ` set demo_visits"
    using s(3) TimerQueue_new_rest by (simp_all add: demo_visits_def)
  moreover have "\<forall>(p, now, q)\<in>set demo_visits. now < addTime (clock st) idle_timeout"
    using s(8) demo_early [of 0] by (simp add: demo_visits_def)
  ultimately have "tq_rest (timerQueue st)" "49 \<notin> fst ` set demo_visits"
    "\<forall>(p, now, q)\<in>set demo_visits. now < addTime (clock st) idle_timeout" by blast+
  from http_idle_timer_not_renewed [OF s(1,2) this(1) s(6) this(2) s(4) one_file_contract s(5) s(7) this(3)]
  show ?thesis by (elim exE conjE) (intro exI conjI; assumption)
qed

end
