(* ===== verification/InetAddress.thy ===== *)
theory InetAddress
  imports Decimal
begin

text \<open>
  \<open>src/net/InetAddress.h\<close>, \<open>InetAddress.cc\<close>: IPv4 addresses with a port. \<open>sin_port\<close> and
  \<open>s_addr\<close> hold the bytes in network order as a little-endian host reads them, so the first octet
  of the dotted notation is the low byte of \<open>s_addr\<close> and \<open>htons\<close> swaps the bytes of a port.
  \<open>inet_addr\<close> is the C library's reader: one to four parts, each decimal, octal or hexadecimal, the
  last one filling the remaining bytes; \<open>0xFFFFFFFF\<close> when the text is no address.
\<close>

section \<open>Bytes\<close>

definition byte_of :: "nat \<Rightarrow> 'a::len word \<Rightarrow> nat" where
  "byte_of k w = (unat w div 256 ^ k) mod 256"

definition from_octets :: "nat \<Rightarrow> nat \<Rightarrow> nat \<Rightarrow> nat \<Rightarrow> 32 word" where
  "from_octets a b c d = word_of_nat (a + 256 * (b + 256 * (c + 256 * d)))"

definition htons :: "16 word \<Rightarrow> 16 word" where
  "htons w = word_of_nat (byte_of 1 w + 256 * byte_of 0 w)"

definition htonl :: "32 word \<Rightarrow> 32 word" where
  "htonl w = from_octets (byte_of 3 w) (byte_of 2 w) (byte_of 1 w) (byte_of 0 w)"

section \<open>Dotted text\<close>

definition is_octal :: "char \<Rightarrow> bool" where
  "is_octal c \<longleftrightarrow> c \<in> set ''01234567''"

definition xdigit_val :: "char \<Rightarrow> nat option" where
  "xdigit_val c =
     (if is_digit c then Some (digit_val c)
      else if c \<in> set ''abcdef'' then Some (of_char c - 87)
      else if c \<in> set ''ABCDEF'' then Some (of_char c - 55)
      else None)"

fun radix_val :: "nat \<Rightarrow> nat \<Rightarrow> string \<Rightarrow> nat" where
  "radix_val r a [] = a"
| "radix_val r a (c # cs) = radix_val r (r * a + the (xdigit_val c)) cs"

text \<open>\<open>strtoul(cp, \&endp, 0)\<close> on a text that starts with a digit: the value and the rest.\<close>

definition inet_number :: "string \<Rightarrow> (nat \<times> string) option" where
  "inet_number s =
     (case s of
        [] \<Rightarrow> None
      | c # cs \<Rightarrow>
          if \<not> is_digit c then None
          else if c = CHR ''0'' \<and> cs \<noteq> [] \<and> hd cs \<in> set ''xX'' \<and> tl cs \<noteq> [] \<and> xdigit_val (hd (tl cs)) \<noteq> None
          then Some (radix_val 16 0 (takeWhile (\<lambda>x. xdigit_val x \<noteq> None) (tl cs)),
                     dropWhile (\<lambda>x. xdigit_val x \<noteq> None) (tl cs))
          else if c = CHR ''0''
          then Some (radix_val 8 0 (takeWhile is_octal s), dropWhile is_octal s)
          else Some (dec_val (takeWhile is_digit s), dropWhile is_digit s))"

text \<open>The loop of \<open>inet_aton\<close>: \<open>k\<close> more dots are allowed, \<open>acc\<close> is the value of the parts read.\<close>

fun inet_parts :: "nat \<Rightarrow> nat \<Rightarrow> string \<Rightarrow> nat option" where
  "inet_parts k acc s =
     (case inet_number s of
        None \<Rightarrow> None
      | Some (v, r) \<Rightarrow>
          if r \<noteq> [] \<and> hd r = CHR ''.''
          then (case k of 0 \<Rightarrow> None
                | Suc k' \<Rightarrow> if 255 < v then None else inet_parts k' (256 * acc + v) (tl r))
          else if (r = [] \<or> is_space (hd r)) \<and> v < 256 ^ (k + 1) then Some (256 ^ (k + 1) * acc + v)
          else None)"

declare inet_parts.simps [simp del]

definition inet_aton :: "string \<Rightarrow> 32 word option" where
  "inet_aton s = map_option (\<lambda>v. htonl (word_of_nat v)) (inet_parts 3 0 s)"

definition inet_addr :: "string \<Rightarrow> 32 word" where
  "inet_addr s = (case inet_aton s of None \<Rightarrow> - 1 | Some a \<Rightarrow> a)"

definition inet_ntop :: "32 word \<Rightarrow> string" where
  "inet_ntop a =
     dec_nat (byte_of 0 a) @ ''.'' @ dec_nat (byte_of 1 a) @ ''.'' @
     dec_nat (byte_of 2 a) @ ''.'' @ dec_nat (byte_of 3 a)"

section \<open>The class\<close>

record sockaddr_in =
  sin_family :: "16 word"
  sin_port :: "16 word"
  s_addr :: "32 word"

definition AF_INET :: "16 word" where
  "AF_INET = 2"

text \<open>The C string the sources pass on ends at the first null character.\<close>

definition c_text :: "string \<Rightarrow> string" where
  "c_text s = takeWhile (\<lambda>c. c \<noteq> CHR 0x00) s"

definition InetAddress_port :: "16 word \<Rightarrow> sockaddr_in" where
  "InetAddress_port port =
     \<lparr>sin_family = AF_INET, sin_port = htons port, s_addr = inet_addr ''0.0.0.0''\<rparr>"

definition InetAddress_ip_port :: "string \<Rightarrow> 16 word \<Rightarrow> sockaddr_in" where
  "InetAddress_ip_port ip port =
     \<lparr>sin_family = AF_INET, sin_port = htons port, s_addr = inet_addr (c_text ip)\<rparr>"

definition toIp :: "sockaddr_in \<Rightarrow> string" where
  "toIp a = inet_ntop (s_addr a)"

definition toPort :: "sockaddr_in \<Rightarrow> 16 word" where
  "toPort a = htons (sin_port a)"

definition toIpPort :: "sockaddr_in \<Rightarrow> string" where
  "toIpPort a = toIp a @ '':'' @ to_string (uint (toPort a))"

text \<open>
  \<open>getLocalAddr\<close> and \<open>getPeerAddr\<close>: \<open>None\<close> when the system call fails, which is logged and leaves
  the zeroed structure.
\<close>

definition sockaddr_zero :: sockaddr_in where
  "sockaddr_zero = \<lparr>sin_family = 0, sin_port = 0, s_addr = 0\<rparr>"

definition getLocalAddr :: "sockaddr_in option \<Rightarrow> sockaddr_in" where
  "getLocalAddr r = (case r of None \<Rightarrow> sockaddr_zero | Some a \<Rightarrow> a)"

definition getPeerAddr :: "sockaddr_in option \<Rightarrow> sockaddr_in" where
  "getPeerAddr r = (case r of None \<Rightarrow> sockaddr_zero | Some a \<Rightarrow> a)"

section \<open>Facts\<close>

lemma byte_less [simp]: "byte_of k w < 256"
  by (simp add: byte_of_def)

lemma horner_div_mod:
  fixes a x :: nat
  assumes "a < 256"
  shows "(a + 256 * x) mod 256 = a" "(a + 256 * x) div 256 = x"
  using assms by auto

lemma byte_of_div:
  "byte_of 0 w = unat w mod 256" "byte_of 1 w = unat w div 256 mod 256"
  "byte_of 2 w = unat w div 256 div 256 mod 256" "byte_of 3 w = unat w div 256 div 256 div 256 mod 256"
  by (simp_all add: byte_of_def div_mult2_eq [symmetric])

lemma octets_less:
  fixes a b c d :: nat
  assumes "a < 256" "b < 256" "c < 256" "d < 256"
  shows "a + 256 * (b + 256 * (c + 256 * d)) < 2 ^ 32"
  using assms by simp

lemma unat_from_octets:
  assumes "a < 256" "b < 256" "c < 256" "d < 256"
  shows "unat (from_octets a b c d) = a + 256 * (b + 256 * (c + 256 * d))"
proof -
  have "LENGTH(32) = 32" by simp
  with octets_less [OF assms] show ?thesis by (simp only: from_octets_def unat_of_nat mod_less)
qed

lemma byte_from_octets:
  assumes "a < 256" "b < 256" "c < 256" "d < 256"
  shows "byte_of 0 (from_octets a b c d) = a" "byte_of 1 (from_octets a b c d) = b"
    "byte_of 2 (from_octets a b c d) = c" "byte_of 3 (from_octets a b c d) = d"
  unfolding byte_of_div unat_from_octets [OF assms]
  using assms by (simp_all only: horner_div_mod mod_less)

lemma nat_bytes:
  assumes "(n::nat) < 2 ^ 32"
  shows "n mod 256 + 256 * (n div 256 mod 256 + 256 * (n div 256 div 256 mod 256 +
    256 * (n div 256 div 256 div 256 mod 256))) = n"
proof -
  have "n div 256 div 256 div 256 < 256" using assms by (simp add: div_mult2_eq [symmetric])
  then show ?thesis by (simp only: mod_less mod_mult_div_eq)
qed

lemma from_octets_bytes: "from_octets (byte_of 0 w) (byte_of 1 w) (byte_of 2 w) (byte_of 3 w) = w"
proof -
  have "unat w < 2 ^ 32" using unsigned_less [of w] by simp
  from nat_bytes [OF this] show ?thesis
    by (intro word_unat_eq_iff [THEN iffD2])
      (simp only: unat_from_octets [OF byte_less byte_less byte_less byte_less], simp only: byte_of_div)
qed

lemma htonl_htonl [simp]: "htonl (htonl w) = w"
  unfolding htonl_def by (simp only: byte_from_octets [OF byte_less byte_less byte_less byte_less] from_octets_bytes)

lemma htons_htons [simp]: "htons (htons w) = w"
proof -
  have w: "unat w < 65536" using unsigned_less [of w] by simp
  have "byte_of 1 w + 256 * byte_of 0 w < 2 ^ 16"
    using byte_less [of 0 w] byte_less [of 1 w] by (simp del: byte_less One_nat_def)
  moreover have "LENGTH(16) = 16" by simp
  ultimately have u: "unat (htons w) = byte_of 1 w + 256 * byte_of 0 w"
    by (simp only: htons_def unat_of_nat mod_less)
  have "byte_of 0 (htons w) = byte_of 1 w" "byte_of 1 (htons w) = byte_of 0 w"
    unfolding byte_of_div(1,2) [of "htons w"] u
    by (simp_all only: horner_div_mod [OF byte_less] mod_less [OF byte_less])
  then have "htons (htons w) = word_of_nat (byte_of 0 w + 256 * byte_of 1 w)" by (simp add: htons_def)
  also have "byte_of 0 w + 256 * byte_of 1 w = unat w" using w by (simp add: byte_of_def)
  finally show ?thesis by simp
qed

section \<open>Reading back a printed address\<close>

lemma digit_char_0_iff: "d < 10 \<Longrightarrow> digit_char d = CHR ''0'' \<longleftrightarrow> d = 0"
  using digit_cases [of d] by (auto simp: digit_char_def)

lemma dec_nat_hd_not_0: "0 < n \<Longrightarrow> hd (dec_nat n) \<noteq> CHR ''0''"
proof (induction n rule: dec_nat.induct)
  case (1 n)
  then show ?case by (subst dec_nat.simps) (auto simp: digit_char_0_iff)
qed

definition ends_number :: "string \<Rightarrow> bool" where
  "ends_number r \<longleftrightarrow> r = [] \<or> hd r = CHR ''.''"

lemma takeWhile_append_stop:
  assumes "list_all P xs" and "r = [] \<or> \<not> P (hd r)"
  shows "takeWhile P (xs @ r) = xs" "dropWhile P (xs @ r) = r"
  using assms by (induction xs; cases r; auto)+

lemma inet_number_dec_nat:
  assumes r: "ends_number r"
  shows "inet_number (dec_nat v @ r) = Some (v, r)"
proof (cases "v = 0")
  case True
  have z: "dec_nat 0 = ''0''" by (subst dec_nat.simps) (simp add: digit_char_def)
  have o: "is_octal (CHR ''0'')" "\<not> is_octal (CHR ''.'')" "is_digit (CHR ''0'')"
    by (simp_all add: is_octal_def is_digit_def)
  have x: "radix_val 8 0 ''0'' = 0" by (simp add: xdigit_val_def digit_val_def o)
  show ?thesis
  proof (cases r)
    case Nil
    with o x show ?thesis unfolding True z by (simp add: inet_number_def del: radix_val.simps)
  next
    case (Cons d ds)
    with r have "d = CHR ''.''" by (simp add: ends_number_def)
    with o x Cons show ?thesis unfolding True z by (simp add: inet_number_def del: radix_val.simps)
  qed
next
  case False
  obtain c cs where c: "dec_nat v = c # cs" by (cases "dec_nat v") auto
  have "takeWhile is_digit (dec_nat v @ r) = dec_nat v" "dropWhile is_digit (dec_nat v @ r) = r"
    using r by (intro takeWhile_append_stop dec_nat_digits; auto simp: is_digit_def ends_number_def)+
  moreover have "c \<noteq> CHR ''0''" "is_digit c"
    using dec_nat_hd_not_0 [of v] dec_nat_hd [of v] False c by simp_all
  ultimately show ?thesis using dec_val_dec_nat [of v] by (simp add: inet_number_def c)
qed

lemma inet_parts_dot:
  assumes "v < 256"
  shows "inet_parts (Suc k) acc (dec_nat v @ CHR ''.'' # r) = inet_parts k (256 * acc + v) r"
  using assms inet_number_dec_nat [of "CHR ''.'' # r" v]
  by (subst inet_parts.simps) (simp add: ends_number_def)

lemma inet_parts_last: "v < 256 \<Longrightarrow> inet_parts 0 acc (dec_nat v) = Some (256 * acc + v)"
  using inet_number_dec_nat [of "[]" v]
  by (subst inet_parts.simps) (simp add: ends_number_def)

lemma inet_aton_ntop: "inet_aton (inet_ntop a) = Some a"
proof -
  let ?b = "\<lambda>k. byte_of k a"
  have "inet_parts 3 0 (inet_ntop a) = Some (256 * (256 * (256 * ?b 0 + ?b 1) + ?b 2) + ?b 3)"
    unfolding inet_ntop_def numeral_3_eq_3
    by (simp add: inet_parts_dot inet_parts_last del: One_nat_def)
  also have "256 * (256 * (256 * ?b 0 + ?b 1) + ?b 2) + ?b 3 =
      ?b 3 + 256 * (?b 2 + 256 * (?b 1 + 256 * ?b 0))" by simp
  finally have "inet_aton (inet_ntop a) = Some (htonl (from_octets (?b 3) (?b 2) (?b 1) (?b 0)))"
    by (simp add: inet_aton_def from_octets_def del: One_nat_def of_nat_add of_nat_mult)
  also have "from_octets (?b 3) (?b 2) (?b 1) (?b 0) = htonl a" by (simp add: htonl_def)
  finally show ?thesis by simp
qed

lemma digit_not_null: "is_digit c \<Longrightarrow> c \<noteq> CHR 0x00"
  by (auto simp: is_digit_def)

lemma c_text_inet_ntop: "c_text (inet_ntop a) = inet_ntop a"
proof -
  have "list_all (\<lambda>c. c \<noteq> CHR 0x00) (dec_nat n)" for n
    using dec_nat_digits [of n] by (auto simp: list_all_iff digit_not_null)
  then show ?thesis unfolding c_text_def inet_ntop_def by (intro takeWhile_all) simp
qed

text \<open>Reading back the address and the port a socket address prints gives the same socket
  address, for every IPv4 address and port.\<close>

theorem inetaddress_roundtrip:
  assumes "sin_family a = AF_INET"
  shows "InetAddress_ip_port (toIp a) (toPort a) = a"
  using assms
  by (simp add: InetAddress_ip_port_def toIp_def toPort_def c_text_inet_ntop inet_addr_def inet_aton_ntop)

theorem inetaddress_roundtrip_witness:
  "InetAddress_ip_port ''127.0.0.1'' 8888 =
    \<lparr>sin_family = AF_INET, sin_port = htons 8888, s_addr = from_octets 127 0 0 1\<rparr>"
proof -
  let ?a = "\<lparr>sin_family = AF_INET, sin_port = htons 8888, s_addr = from_octets 127 0 0 1\<rparr>"
  have "toIp ?a = ''127.0.0.1''"
    by (simp add: toIp_def inet_ntop_def byte_from_octets dec_nat.simps digit_char_def del: One_nat_def)
  then show ?thesis using inetaddress_roundtrip [of ?a] by (simp add: toPort_def)
qed

text \<open>A text that is no address goes unnoticed: the constructor stores the value \<open>inet_addr\<close>
  returns for an error, which is the address \<open>255.255.255.255\<close>.\<close>

theorem bad_ip_becomes_broadcast:
  assumes "inet_aton (c_text ip) = None"
  shows "toIp (InetAddress_ip_port ip port) = ''255.255.255.255''"
proof -
  have "byte_of k (- 1 :: 32 word) = 255" if "k < 4" for k
  proof -
    have "unat (- 1 :: 32 word) = 4294967295" by (simp add: unsigned_minus_1_eq_mask mask_eq_exp_minus_1)
    moreover have "k = 0 \<or> k = 1 \<or> k = 2 \<or> k = 3" using that by linarith
    ultimately show ?thesis by (elim disjE) (simp_all add: byte_of_def)
  qed
  moreover have "dec_nat 255 = ''255''" by (simp add: dec_nat.simps digit_char_def)
  ultimately show ?thesis using assms
    by (simp add: toIp_def InetAddress_ip_port_def inet_addr_def inet_ntop_def del: One_nat_def)
qed

theorem bad_ip_becomes_broadcast_witness:
  "toIp (InetAddress_ip_port ''300.1.1.1'' 80) = ''255.255.255.255''"
proof (rule bad_ip_becomes_broadcast)
  show "inet_aton (c_text ''300.1.1.1'') = None" by code_simp
qed

section \<open>Length of the printed forms\<close>

lemma length_dec_byte: "length (dec_nat (byte_of k w)) \<le> 3"
  using byte_less [of k w] by (intro length_dec_nat) (simp_all del: byte_less)

lemma length_toIp: "length (toIp a) \<le> 15"
  using length_dec_byte [of 0 "s_addr a"] length_dec_byte [of 1 "s_addr a"]
    length_dec_byte [of 2 "s_addr a"] length_dec_byte [of 3 "s_addr a"]
  by (simp add: toIp_def inet_ntop_def del: One_nat_def)

lemma length_toIpPort: "length (toIpPort a) \<le> 21"
proof -
  have p: "to_string (uint (toPort a)) = dec_nat (unat (toPort a))"
    using to_string_of_nat [of "unat (toPort a)"] by simp
  have "unat (toPort a) < 10 ^ 5" using unsigned_less [of "toPort a", where 'a = nat] by simp
  then have "length (dec_nat (unat (toPort a))) \<le> 5" by (intro length_dec_nat) simp_all
  then show ?thesis using length_toIp [of a] unfolding toIpPort_def p by simp
qed

end
