(* ===== verification/Socket.thy ===== *)
theory Socket
  imports InetAddress
begin

text \<open>
  \<open>src/net/Socket.h\<close>, \<open>Socket.cc\<close>: the wrapper of a socket descriptor. The first field is the
  class's own; the others are what the kernel holds for the descriptor after the calls that
  succeeded. The return value of each system call is an argument.
\<close>

record Socket =
  sockfd :: int
  bound_to :: "sockaddr_in option"
  so_listening :: bool
  tcp_nodelay :: bool
  so_reuseaddr :: bool
  so_reuseport :: bool
  so_keepalive :: bool
  shut_write :: bool
  shut_read :: bool

definition Socket_new :: "int \<Rightarrow> Socket" where
  "Socket_new fd =
     \<lparr>sockfd = fd, bound_to = None, so_listening = False, tcp_nodelay = False, so_reuseaddr = False,
      so_reuseport = False, so_keepalive = False, shut_write = False, shut_read = False\<rparr>"

definition createNonblockingFd :: "int \<Rightarrow> int res" where
  "createNonblockingFd ret =
     (if ret < 0 then Inl (FatalLog ''Socket::createNonblockingFd()'') else Inr ret)"

text \<open>The answer of \<open>getsockopt\<close>: an error number on the left, the option's value on the right.\<close>

definition getSocketError :: "int + int \<Rightarrow> int" where
  "getSocketError r = (case r of Inl err \<Rightarrow> err | Inr optval \<Rightarrow> optval)"

definition isSelfConnect :: "sockaddr_in option \<Rightarrow> sockaddr_in option \<Rightarrow> bool" where
  "isSelfConnect local peer =
     (let localaddr = getLocalAddr local; peeraddr = getPeerAddr peer
      in s_addr localaddr = s_addr peeraddr \<and> sin_port localaddr = sin_port peeraddr)"

definition Socket_bindAddress :: "int \<Rightarrow> sockaddr_in \<Rightarrow> Socket \<Rightarrow> Socket res" where
  "Socket_bindAddress ret localaddr s =
     (if ret \<noteq> 0 then Inl (FatalLog ''Socket::bindAddr(): bind'')
      else Inr (s\<lparr>bound_to := Some localaddr\<rparr>))"

definition Socket_listen :: "int \<Rightarrow> Socket \<Rightarrow> Socket res" where
  "Socket_listen ret s =
     (if ret < 0 then Inl (FatalLog ''Socket::listen()'') else Inr (s\<lparr>so_listening := True\<rparr>))"

text \<open>
  \<open>accept\<close>: the new descriptor and the peer's address, or an error number. On an error \<open>-1\<close> is
  returned, the caller's address is left as it is, and one line is logged.
\<close>

datatype accept_result = AcceptErr int | AcceptOk int sockaddr_in

definition Socket_accept :: "accept_result \<Rightarrow> sockaddr_in \<Rightarrow> int \<times> sockaddr_in" where
  "Socket_accept r peeraddr =
     (case r of AcceptOk connfd addr \<Rightarrow> (connfd, addr) | AcceptErr err \<Rightarrow> (-1, peeraddr))"

definition Socket_shutdownWrite :: "int \<Rightarrow> Socket \<Rightarrow> Socket" where
  "Socket_shutdownWrite ret s = (if ret < 0 then s else s\<lparr>shut_write := True\<rparr>)"

definition Socket_shutdown :: "int \<Rightarrow> Socket \<Rightarrow> Socket" where
  "Socket_shutdown ret s = (if ret < 0 then s else s\<lparr>shut_write := True, shut_read := True\<rparr>)"

definition Socket_setTcpNoDelay :: "int \<Rightarrow> bool \<Rightarrow> Socket \<Rightarrow> Socket" where
  "Socket_setTcpNoDelay ret on s = (if ret < 0 then s else s\<lparr>tcp_nodelay := on\<rparr>)"

definition Socket_setReuseAddr :: "int \<Rightarrow> bool \<Rightarrow> Socket \<Rightarrow> Socket" where
  "Socket_setReuseAddr ret on s = (if ret < 0 then s else s\<lparr>so_reuseaddr := on\<rparr>)"

definition Socket_setReusePort :: "int \<Rightarrow> bool \<Rightarrow> Socket \<Rightarrow> Socket" where
  "Socket_setReusePort ret on s = (if ret < 0 then s else s\<lparr>so_reuseport := on\<rparr>)"

definition Socket_setKeepAlive :: "int \<Rightarrow> bool \<Rightarrow> Socket \<Rightarrow> Socket" where
  "Socket_setKeepAlive ret on s = (if ret < 0 then s else s\<lparr>so_keepalive := on\<rparr>)"

section \<open>Facts\<close>

text \<open>No operation moves the object to another descriptor.\<close>

lemma sockfd_const [simp]:
  "sockfd (Socket_new fd) = fd"
  "sockfd (Socket_shutdownWrite r s) = sockfd s" "sockfd (Socket_shutdown r s) = sockfd s"
  "sockfd (Socket_setTcpNoDelay r on s) = sockfd s" "sockfd (Socket_setReuseAddr r on s) = sockfd s"
  "sockfd (Socket_setReusePort r on s) = sockfd s" "sockfd (Socket_setKeepAlive r on s) = sockfd s"
  by (simp_all add: Socket_new_def Socket_shutdownWrite_def Socket_shutdown_def Socket_setTcpNoDelay_def
      Socket_setReuseAddr_def Socket_setReusePort_def Socket_setKeepAlive_def)

lemma sockfd_results:
  "Socket_bindAddress r a s = Inr s' \<Longrightarrow> sockfd s' = sockfd s"
  "Socket_listen r s = Inr s' \<Longrightarrow> sockfd s' = sockfd s"
  by (auto simp: Socket_bindAddress_def Socket_listen_def split: if_splits)

text \<open>Two sockets whose addresses print alike are the same endpoint, and conversely.\<close>

lemma inet_ntop_inject: "inet_ntop a = inet_ntop b \<longleftrightarrow> a = b"
  by (metis inet_aton_ntop option.inject)

lemma isSelfConnect_iff:
  "isSelfConnect (Some a) (Some b) \<longleftrightarrow> toIp a = toIp b \<and> toPort a = toPort b"
  by (metis (no_types, lifting) getLocalAddr_def getPeerAddr_def htons_htons inet_ntop_inject
      isSelfConnect_def option.simps(5) toIp_def toPort_def)

end
