(* ===== verification/Channel_Release.thy ===== *)
theory Channel_Release
  imports EventLoop
begin

text \<open>
  What the acceptor, the connector and the connection rely on when they give a channel back:
  \<open>disableAll\<close>, \<open>remove\<close> and the destructor of \<open>src/net/Channel.cc\<close> pass their assertions and leave
  nothing of the channel in the loop.
\<close>

lemma loop_inv_cong:
  assumes "events_size st = events_size st'" and "chan_store st = chan_store st'"
    and "channels st = channels st'" and "epoll_set st = epoll_set st'"
    and "epoll_ctl_fails st = epoll_ctl_fails st'"
  shows "loop_inv st = loop_inv st'"
  using poller_inv_cong [of st st'] assms by (simp add: loop_inv_def)

text \<open>
  \<open>disableAll\<close>, \<open>remove\<close> and the destructor, on any channel that is not being handled: every
  assertion passes and nothing of the channel is left.
\<close>

lemma loop_fields_results [simp]:
  fixes st :: "'z EventLoop_scheme"
  shows "eventHandling (update_result st p ch) = eventHandling st"
    "activeChannels (update_result st p ch) = activeChannels st"
  by (simp_all add: update_result_def)

text \<open>What is left of a channel between \<open>remove\<close> and its destructor.\<close>

definition withdrawn :: "Channel \<Rightarrow> Channel" where
  "withdrawn ch = ch\<lparr>ch_events := 0, ch_index := kNew, addedToLoop := False\<rparr>"

lemma channel_withdraw:
  fixes st :: "'z EventLoop_scheme"
  assumes inv: "loop_inv st" and p: "chan_store st p = Some ch" and l: "ch_loop ch = loop_id st"
    and t: "isInLoopThread st" and free: "fd_free st ch" and act: "eventHandling st \<Longrightarrow> p \<notin> set (activeChannels st)"
  obtains c where "Channel_disableAll st p = Inr (update_result st p c)"
    "Channel_remove (update_result st p c) p = Inr (st\<lparr>channels := (channels st)(ch_fd ch := None),
       chan_store := (chan_store st)(p \<mapsto> withdrawn ch), epoll_set := (epoll_set st)(ch_fd ch := None)\<rparr>)"
proof -
  let ?c = "ch\<lparr>ch_events := mask_disableAll (ch_events ch), addedToLoop := True\<rparr>"
  let ?st1 = "update_result st p ?c"
  have d: "Channel_disableAll st p = Inr ?st1"
    unfolding Channel_disableAll_def using change_events_eq [OF inv p l t free] .
  then have inv1: "loop_inv ?st1" using change_events_inv [OF inv] by (simp add: Channel_disableAll_def)
  define i where "i = (if ch_index ch = kAdded then kDeleted else kAdded)"
  let ?c1 = "set_index ?c i"
  have none: "isNoneEvent ?c1" "isNoneEvent ?c"
    by (simp_all add: isNoneEvent_def mask_disableAll_eq kNoneEvent_def)
  have s1: "chan_store ?st1 p = Some ?c1" using none by (simp add: update_result_def i_def)
  have i: "i \<noteq> kNew" by (simp add: i_def index_defs)
  let ?st2 = "chan_put (remove_result ?st1 p ?c1) p (set_index ?c1 kNew\<lparr>addedToLoop := False\<rparr>)"
  have "Channel_remove ?st1 p = Inr ?st2"
    by (rule Channel_remove_eq [OF inv1 s1]) (use l t i none act in simp_all)
  also have "?st2 = st\<lparr>channels := (channels st)(ch_fd ch := None),
       chan_store := (chan_store st)(p \<mapsto> withdrawn ch), epoll_set := (epoll_set st)(ch_fd ch := None)\<rparr>"
    by (simp add: chan_put_def remove_result_def update_result_def withdrawn_def set_index_def
        mask_disableAll_eq fun_upd_twist)
  finally show ?thesis using that d by blast
qed

lemma delete_withdrawn:
  fixes st :: "'z EventLoop_scheme"
  assumes "chan_store st p = Some (withdrawn ch)" and "ch_loop ch = loop_id st"
    and "channels st (ch_fd ch) \<noteq> Some p" and "\<not> ch_eventHandling ch"
  shows "delete_Channel st p = Inr (st\<lparr>chan_store := (chan_store st)(p := None)\<rparr>)"
  using assms
  by (simp add: delete_Channel_def EventLoop_hasChannel_def Poller_hasChannel_def withdrawn_def
      assertInLoopThread_def)

text \<open>The three together.\<close>

lemma channel_release:
  fixes st :: "'z EventLoop_scheme"
  assumes "loop_inv st" and "chan_store st p = Some ch" and "ch_loop ch = loop_id st"
    and "isInLoopThread st" and "fd_free st ch" and "\<not> eventHandling st" and "\<not> ch_eventHandling ch"
  obtains c st2 where "Channel_disableAll st p = Inr (update_result st p c)"
    "Channel_remove (update_result st p c) p = Inr st2"
    "st2 = st\<lparr>channels := (channels st)(ch_fd ch := None),
       chan_store := (chan_store st)(p \<mapsto> withdrawn ch), epoll_set := (epoll_set st)(ch_fd ch := None)\<rparr>"
    "delete_Channel st2 p = Inr (st\<lparr>channels := (channels st)(ch_fd ch := None),
       chan_store := (chan_store st)(p := None), epoll_set := (epoll_set st)(ch_fd ch := None)\<rparr>)"
proof -
  let ?st2 = "st\<lparr>channels := (channels st)(ch_fd ch := None),
       chan_store := (chan_store st)(p \<mapsto> withdrawn ch), epoll_set := (epoll_set st)(ch_fd ch := None)\<rparr>"
  obtain c where c: "Channel_disableAll st p = Inr (update_result st p c)"
    "Channel_remove (update_result st p c) p = Inr ?st2"
    by (rule channel_withdraw [OF assms(1-5)]) (use assms(6) in auto)
  have "delete_Channel ?st2 p = Inr (?st2\<lparr>chan_store := (chan_store ?st2)(p := None)\<rparr>)"
    by (rule delete_withdrawn [of _ _ ch]) (use assms in simp_all)
  then have "delete_Channel ?st2 p = Inr (st\<lparr>channels := (channels st)(ch_fd ch := None),
       chan_store := (chan_store st)(p := None), epoll_set := (epoll_set st)(ch_fd ch := None)\<rparr>)"
    by simp
  with c that show ?thesis by blast
qed

end
