(* ===== verification/Acceptor.thy ===== *)
theory Acceptor
  imports Socket Channel_Release TcpConnection
begin

text \<open>
  \<open>src/net/Acceptor.h\<close>, \<open>Acceptor.cc\<close>: the listening socket and its reserve descriptor. The state is
  the loop's, with its connections and the acceptor's members; \<open>open_fds\<close> is the process's descriptor table, which
  \<open>socket\<close>, \<open>accept\<close>, \<open>open\<close> and \<open>close\<close> change. The answers of the system calls are arguments.
  \<open>log_errno\<close> is the value of \<open>errno\<close> after a log statement, given its value before.
\<close>

section \<open>State and operations\<close>

record acceptor_world = conn_world +
  acceptSocket :: Socket
  acceptChannel :: chan_ptr
  listening :: bool
  idleFd :: int
  open_fds :: "int set"

definition EMFILE :: int where
  "EMFILE = 24"

definition fd_opened :: "int \<Rightarrow> 'z acceptor_world_scheme \<Rightarrow> 'z acceptor_world_scheme" where
  "fd_opened fd st = (if 0 \<le> fd then st\<lparr>open_fds := insert fd (open_fds st)\<rparr> else st)"

definition fd_closed :: "int \<Rightarrow> 'z acceptor_world_scheme \<Rightarrow> 'z acceptor_world_scheme" where
  "fd_closed fd st = st\<lparr>open_fds := open_fds st - {fd}\<rparr>"

definition createNonblocking :: "int \<Rightarrow> int res" where
  "createNonblocking ret = (if ret < 0 then Inl (FatalLog ''createNonblocking error'') else Inr ret)"

text \<open>
  The constructor: \<open>ret\<close> is the answer of \<open>socket\<close>, \<open>idle\<close> of \<open>open\<close>, \<open>r1\<close> and \<open>r2\<close> of the two
  \<open>setsockopt\<close> calls, \<open>rb\<close> of \<open>bind\<close>; \<open>p\<close> is the address of \<open>acceptChannel_\<close>.
\<close>

definition Acceptor_new ::
    "int \<times> int \<times> int \<times> int \<times> int \<Rightarrow> chan_ptr \<Rightarrow> sockaddr_in \<Rightarrow> bool \<Rightarrow>
     'z acceptor_world_scheme \<Rightarrow> 'z acceptor_world_scheme res" where
  "Acceptor_new answers p listenAddr reuseport st =
     (case answers of (ret, idle, r1, r2, rb) \<Rightarrow>
        bindR (createNonblocking ret) (\<lambda>fd.
          bindR (new_Channel (fd_opened fd st) p (Channel_new (loop_id st) fd)) (\<lambda>st1.
            assertR (0 \<le> idle) ''idleFd_ >= 0''
              (bindR (Socket_bindAddress rb listenAddr
                       (Socket_setReusePort r2 reuseport (Socket_setReuseAddr r1 True (Socket_new fd)))) (\<lambda>s.
                 bindR (chan_deref st1 p) (\<lambda>ch.
                   Inr ((chan_put (fd_opened idle st1) p (Channel_setReadCallback ch))
                     \<lparr>acceptSocket := s, acceptChannel := p, listening := False, idleFd := idle\<rparr>)))))))"

text \<open>The destructor, followed by those of the members: the channel, then the socket.\<close>

definition Acceptor_delete :: "'z acceptor_world_scheme \<Rightarrow> 'z acceptor_world_scheme res" where
  "Acceptor_delete st =
     bindR (Channel_disableAll st (acceptChannel st)) (\<lambda>st1.
       bindR (Channel_remove st1 (acceptChannel st1)) (\<lambda>st2.
         bindR (delete_Channel st2 (acceptChannel st2)) (\<lambda>st3.
           Inr (fd_closed (sockfd (acceptSocket st3)) st3))))"

definition Acceptor_listen :: "int \<Rightarrow> 'z acceptor_world_scheme \<Rightarrow> 'z acceptor_world_scheme res" where
  "Acceptor_listen ret st =
     assertInLoopThread st
       (bindR (Socket_listen ret (acceptSocket st)) (\<lambda>s.
          Channel_enableReading (st\<lparr>listening := True, acceptSocket := s\<rparr>) (acceptChannel st)))"

text \<open>
  \<open>handleRead\<close>: \<open>r1\<close> is the answer of the first \<open>accept\<close>, \<open>fd2\<close> of the one made after the reserve
  descriptor has been closed, \<open>idle\<close> of the \<open>open\<close> that ends the branch; \<open>peer0\<close> is the content of
  the uninitialised \<open>peerAddr\<close>.
\<close>

definition Acceptor_handleRead ::
    "(int \<Rightarrow> sockaddr_in \<Rightarrow> 'z acceptor_world_scheme \<Rightarrow> 'z acceptor_world_scheme res) option \<Rightarrow>
     (int \<Rightarrow> int) \<Rightarrow> sockaddr_in \<Rightarrow> accept_result \<Rightarrow> int \<Rightarrow> int \<Rightarrow>
     'z acceptor_world_scheme \<Rightarrow> 'z acceptor_world_scheme res" where
  "Acceptor_handleRead newConnectionCallback log_errno peer0 r1 fd2 idle st =
     assertInLoopThread st
       (let (connfd, peerAddr) = Socket_accept r1 peer0; st1 = fd_opened connfd st in
        if 0 \<le> connfd
        then (case newConnectionCallback of
                Some cb \<Rightarrow> cb connfd peerAddr st1
              | None \<Rightarrow> Inr (fd_closed connfd st1))
        else if (case r1 of AcceptErr e \<Rightarrow> log_errno (log_errno e) = EMFILE | AcceptOk _ _ \<Rightarrow> False)
        then (let st2 = fd_closed (idleFd st1) st1;
                  st3 = (fd_opened fd2 st2)\<lparr>idleFd := fd2\<rparr>;
                  st4 = fd_closed (idleFd st3) st3
              in Inr ((fd_opened idle st4)\<lparr>idleFd := idle\<rparr>))
        else Inr st1)"

section \<open>Life cycle\<close>

lemma fd_table_simps [simp]:
  fixes st :: "'z acceptor_world_scheme"
  shows "loop_inv (fd_opened fd st) = loop_inv st" "loop_inv (fd_closed fd st) = loop_inv st"
    "isInLoopThread (fd_opened fd st) = isInLoopThread st" "isInLoopThread (fd_closed fd st) = isInLoopThread st"
    "chan_store (fd_opened fd st) = chan_store st" "chan_store (fd_closed fd st) = chan_store st"
    "channels (fd_opened fd st) = channels st" "channels (fd_closed fd st) = channels st"
    "epoll_set (fd_opened fd st) = epoll_set st" "epoll_set (fd_closed fd st) = epoll_set st"
    "loop_id (fd_opened fd st) = loop_id st" "eventHandling (fd_opened fd st) = eventHandling st"
    "idleFd (fd_opened fd st) = idleFd st" "idleFd (fd_closed fd st) = idleFd st"
    "acceptSocket (fd_opened fd st) = acceptSocket st" "acceptSocket (fd_closed fd st) = acceptSocket st"
    "open_fds (fd_closed fd st) = open_fds st - {fd}"
    "0 \<le> fd \<Longrightarrow> open_fds (fd_opened fd st) = insert fd (open_fds st)"
    "fd < 0 \<Longrightarrow> open_fds (fd_opened fd st) = open_fds st"
  by (simp_all add: fd_opened_def fd_closed_def loop_inv_def isInLoopThread_def cong: poller_inv_cong)

lemma loop_inv_acceptor_fields [simp]:
  fixes st :: "'z acceptor_world_scheme"
  shows "loop_inv (st\<lparr>acceptSocket := s, acceptChannel := p, listening := b, idleFd := i\<rparr>) = loop_inv st"
    and "loop_inv (st\<lparr>listening := b, acceptSocket := s\<rparr>) = loop_inv st"
  unfolding loop_inv_def by (simp_all cong: poller_inv_cong)

text \<open>The acceptor between its constructor and its destructor.\<close>

definition acceptor_ok :: "'z acceptor_world_scheme \<Rightarrow> bool" where
  "acceptor_ok st \<longleftrightarrow> loop_inv st \<and> isInLoopThread st \<and> \<not> eventHandling st \<and>
     (\<exists>ch. chan_store st (acceptChannel st) = Some ch \<and> ch_loop ch = loop_id st \<and>
        ch_fd ch = sockfd (acceptSocket st) \<and> fd_free st ch \<and> \<not> ch_eventHandling ch)"

lemma acceptChannel_results [simp]:
  fixes st :: "'z acceptor_world_scheme"
  shows "acceptChannel (update_result st p ch) = acceptChannel st"
    "acceptChannel (remove_result st p ch) = acceptChannel st"
    "acceptChannel (chan_put st p ch) = acceptChannel st"
  by (simp_all add: update_result_def remove_result_def chan_put_def)

lemma Acceptor_delete_ok:
  assumes "acceptor_ok st"
  shows "\<exists>st'. Acceptor_delete st = Inr st' \<and>
    epoll_set st' = (epoll_set st)(sockfd (acceptSocket st) := None) \<and>
    channels st' = (channels st)(sockfd (acceptSocket st) := None) \<and>
    chan_store st' = (chan_store st)(acceptChannel st := None) \<and>
    open_fds st' = open_fds st - {sockfd (acceptSocket st)}"
proof -
  obtain ch where ch: "chan_store st (acceptChannel st) = Some ch" "ch_loop ch = loop_id st"
    "ch_fd ch = sockfd (acceptSocket st)" "fd_free st ch" "\<not> ch_eventHandling ch"
    and st: "loop_inv st" "isInLoopThread st" "\<not> eventHandling st"
    using assms by (auto simp: acceptor_ok_def)
  obtain c st2 where s: "Channel_disableAll st (acceptChannel st) = Inr (update_result st (acceptChannel st) c)"
    "Channel_remove (update_result st (acceptChannel st) c) (acceptChannel st) = Inr st2"
    "st2 = st\<lparr>channels := (channels st)(ch_fd ch := None),
       chan_store := (chan_store st)(acceptChannel st \<mapsto> withdrawn ch),
       epoll_set := (epoll_set st)(ch_fd ch := None)\<rparr>"
    "delete_Channel st2 (acceptChannel st) = Inr (st\<lparr>channels := (channels st)(ch_fd ch := None),
       chan_store := (chan_store st)(acceptChannel st := None),
       epoll_set := (epoll_set st)(ch_fd ch := None)\<rparr>)"
    by (rule channel_release [OF st(1) ch(1,2) st(2) ch(4) st(3) ch(5)])
  have a1: "acceptChannel (update_result st (acceptChannel st) c) = acceptChannel st" by simp
  have a2: "acceptChannel st2 = acceptChannel st" unfolding s(3) by simp
  show ?thesis unfolding Acceptor_delete_def s(1) bindR_Inr a1 s(2) a2 s(4)
    by (simp add: fd_closed_def ch(3))
qed

lemma Acceptor_new_ok:
  assumes "loop_inv st" and "isInLoopThread st" and "\<not> eventHandling st"
    and "chan_store st p = None" and "channels st fd = None" and "0 \<le> fd" and "0 \<le> idle"
  shows "\<exists>st'. Acceptor_new (fd, idle, r1, r2, 0) p addr reuse st = Inr st' \<and> acceptor_ok st' \<and>
    epoll_set st' = epoll_set st \<and> channels st' = channels st \<and>
    chan_store st' = (chan_store st)(p \<mapsto> Channel_setReadCallback (Channel_new (loop_id st) fd)) \<and>
    acceptChannel st' = p \<and> sockfd (acceptSocket st') = fd \<and> idleFd st' = idle \<and>
    so_reuseaddr (acceptSocket st') = (0 \<le> r1) \<and> so_reuseport (acceptSocket st') = (0 \<le> r2 \<and> reuse) \<and>
    bound_to (acceptSocket st') = Some addr \<and> open_fds st' = insert idle (insert fd (open_fds st))"
proof -
  let ?ch = "Channel_setReadCallback (Channel_new (loop_id st) fd)"
  have inv: "loop_inv (chan_put st p ?ch)"
    by (rule new_Channel_inv [OF assms(1), of p ?ch])
      (use assms(4) in \<open>simp_all add: new_Channel_def Channel_setReadCallback_def Channel_new_def kNew_def kNoneEvent_def\<close>)
  let ?s = "Socket_setReusePort r2 reuse (Socket_setReuseAddr r1 True (Socket_new fd))\<lparr>bound_to := Some addr\<rparr>"
  let ?st' = "(chan_put st p ?ch)\<lparr>acceptSocket := ?s, acceptChannel := p, listening := False, idleFd := idle,
      open_fds := insert idle (insert fd (open_fds st))\<rparr>"
  have new: "Acceptor_new (fd, idle, r1, r2, 0) p addr reuse st = Inr ?st'"
    using assms(4,6,7) by (simp add: Acceptor_new_def createNonblocking_def new_Channel_def
        Socket_bindAddress_def fd_opened_def chan_put_def chan_deref_def)
  have inv': "loop_inv ?st'"
    using inv loop_inv_cong [of ?st' "chan_put st p ?ch"] by simp
  have "acceptor_ok ?st'"
    unfolding acceptor_ok_def
    using inv' assms(2,3,5) by (auto simp: chan_put_def fd_free_def isInLoopThread_def
        Channel_setReadCallback_def Channel_new_def)
  with new show ?thesis
    by (simp add: chan_put_def Socket_setReusePort_def Socket_setReuseAddr_def Socket_new_def)
qed

text \<open>C39. The acceptor's life, on its loop's thread and outside of its events, when \<open>socket\<close>, \<open>open\<close>, \<open>bind\<close> and
  \<open>listen\<close> succeed with new descriptors: the constructor, \<open>listen\<close> and the destructor pass every assertion;
  \<open>listen\<close> registers the listening descriptor for reading, and the destructor, after \<open>listen\<close> or
  without it, leaves the loop as it was before the constructor and closes the listening
  descriptor. The reserve descriptor stays open.\<close>

theorem acceptor_lifecycle:
  assumes "loop_inv st" and "isInLoopThread st" and "\<not> eventHandling st"
    and "chan_store st p = None" and "channels st fd = None" and "0 \<le> fd" and "0 \<le> idle"
    and "fd \<notin> open_fds st" and "idle \<noteq> fd" and "0 \<le> rl"
  shows "\<exists>st1 st2 st3 st3'. Acceptor_new (fd, idle, r1, r2, 0) p addr reuse st = Inr st1 \<and>
    Acceptor_listen rl st1 = Inr st2 \<and> listening st2 \<and> so_listening (acceptSocket st2) \<and>
    epoll_set st2 = (epoll_set st)(fd \<mapsto> (kReadEvent, p)) \<and>
    Acceptor_delete st2 = Inr st3 \<and> Acceptor_delete st1 = Inr st3' \<and>
    (\<forall>s \<in> {st3, st3'}. epoll_set s = epoll_set st \<and> channels s = channels st \<and>
       chan_store s = chan_store st \<and> open_fds s = insert idle (open_fds st))"
proof -
  obtain st1 where new: "Acceptor_new (fd, idle, r1, r2, 0) p addr reuse st = Inr st1"
    and ok: "acceptor_ok st1" and f: "epoll_set st1 = epoll_set st" "channels st1 = channels st"
    "chan_store st1 = (chan_store st)(p \<mapsto> Channel_setReadCallback (Channel_new (loop_id st) fd))"
    "acceptChannel st1 = p" "sockfd (acceptSocket st1) = fd"
    "open_fds st1 = insert idle (insert fd (open_fds st))"
    using Acceptor_new_ok [OF assms(1-7), of r1 r2 addr reuse] by blast
  have unreg: "epoll_set st fd = None"
    using assms(1,5) by (simp add: loop_inv_def poller_inv_def registered_def)
  let ?ch = "Channel_setReadCallback (Channel_new (loop_id st) fd)"
  let ?c = "?ch\<lparr>ch_events := mask_enableReading (ch_events ?ch), addedToLoop := True\<rparr>"
  let ?sl = "st1\<lparr>listening := True, acceptSocket := acceptSocket st1\<lparr>so_listening := True\<rparr>\<rparr>"
  have cf: "ch_fd ?c = fd" "ch_index ?c = kNew" "ch_events ?c = kReadEvent" "\<not> ch_eventHandling ?c"
    by (simp_all add: Channel_setReadCallback_def Channel_new_def kNew_def mask_enableReading_def)
  have inv: "loop_inv ?sl" "isInLoopThread st1" "loop_id st1 = loop_id st" "\<not> eventHandling st1"
    using ok f(3,4) by (auto simp: acceptor_ok_def Channel_setReadCallback_def Channel_new_def)
  have "change_events mask_enableReading ?sl p = Inr (update_result ?sl p ?c)"
    by (rule change_events_eq) (use inv f assms(5) in
      \<open>auto simp: isInLoopThread_def fd_free_def Channel_setReadCallback_def Channel_new_def\<close>)
  then have l: "Acceptor_listen rl st1 = Inr (update_result ?sl p ?c)"
    using inv assms(10) f(4)
    by (simp add: Acceptor_listen_def Socket_listen_def Channel_enableReading_def)
  then have "loop_inv (update_result ?sl p ?c)"
    using change_events_inv [OF inv(1), of mask_enableReading p] \<open>change_events _ _ _ = _\<close> by blast
  then have ok2: "acceptor_ok (update_result ?sl p ?c)"
    using inv f(4,5) cf
    by (auto simp: acceptor_ok_def update_result_def isInLoopThread_def fd_free_def index_defs
        set_index_def Channel_setReadCallback_def Channel_new_def)
  have e: "epoll_set (update_result ?sl p ?c) = (epoll_set st)(fd \<mapsto> (kReadEvent, p))"
    "channels (update_result ?sl p ?c) = (channels st)(fd \<mapsto> p)"
    "chan_store (update_result ?sl p ?c) = (chan_store st)(p \<mapsto> set_index ?c kAdded)"
    "open_fds (update_result ?sl p ?c) = insert idle (insert fd (open_fds st))"
    "sockfd (acceptSocket (update_result ?sl p ?c)) = fd" "acceptChannel (update_result ?sl p ?c) = p"
    "listening (update_result ?sl p ?c)" "so_listening (acceptSocket (update_result ?sl p ?c))"
    using cf f by (simp_all add: update_result_def index_defs)
  have "insert idle (insert fd (open_fds st)) - {fd} = insert idle (open_fds st)" using assms(8,9) by blast
  then show ?thesis
    using Acceptor_delete_ok [OF ok2] Acceptor_delete_ok [OF ok] new l e f unreg assms(4,5)
    by (simp add: fun_upd_idem) blast
qed

text \<open>When the process has run out of descriptors, \<open>handleRead\<close> uses the reserve: it takes one
  connection off the backlog, closes it, and has the reserve open again; no other descriptor is
  opened or closed, and the loop is unchanged.\<close>

theorem emfile_sheds_connection:
  assumes "isInLoopThread st" and "\<And>e. log_errno e = e"
    and "fd2 \<notin> open_fds st - {idleFd st}" and "0 \<le> idle" and "idle \<notin> open_fds st - {idleFd st}"
  shows "\<exists>st'. Acceptor_handleRead cb log_errno peer0 (AcceptErr EMFILE) fd2 idle st = Inr st' \<and>
    idleFd st' = idle \<and> idle \<in> open_fds st' \<and> open_fds st' - {idle} = open_fds st - {idleFd st} \<and>
    st' = st\<lparr>idleFd := idle, open_fds := open_fds st'\<rparr>"
proof -
  have "open_fds st - {idleFd st} - {fd2} = open_fds st - {idleFd st}" using assms(3) by blast
  moreover have "0 \<le> fd2 \<Longrightarrow> insert fd2 (open_fds st - {idleFd st}) - {fd2} = open_fds st - {idleFd st}"
    using assms(3) by blast
  ultimately show ?thesis using assms
    by (auto simp: Acceptor_handleRead_def Socket_accept_def fd_opened_def fd_closed_def Let_def)
qed

section \<open>Witnesses\<close>

definition acceptor_demo :: "EventLoop \<Rightarrow> acceptor_world" where
  "acceptor_demo l = conn_world.extend (EventLoop.EventLoop.extend l (conn_world.fields Map.empty))
     (acceptor_world.fields (Socket_new 0) 0 False 9 {0, 1, 2, 3, 4, 5, 9})"

lemma acceptor_demo_ok:
  obtains l where "EventLoop_new False 1 7 linux_epoll_fails 3 10 4 11 5 False (Timestamp 0) = Inr l"
    "loop_inv (acceptor_demo l)" "isInLoopThread (acceptor_demo l)" "\<not> eventHandling (acceptor_demo l)"
    "chan_store (acceptor_demo l) 12 = None" "channels (acceptor_demo l) 6 = None"
    "open_fds (acceptor_demo l) = {0, 1, 2, 3, 4, 5, 9}" "idleFd (acceptor_demo l) = 9"
proof -
  obtain l where l: "EventLoop_new False 1 7 linux_epoll_fails 3 10 4 11 5 False (Timestamp 0) = Inr l"
    using demo_loop_exists by blast
  have "loop_inv l" using EventLoop_new_inv [OF linux_epoll_contract l] .
  then have "loop_inv (acceptor_demo l)"
    by (subst loop_inv_cong [where st' = l]) (simp_all add: acceptor_demo_def EventLoop.EventLoop.defs conn_world.defs acceptor_world.defs)
  moreover have "isInLoopThread (acceptor_demo l)" "\<not> eventHandling (acceptor_demo l)"
    "chan_store (acceptor_demo l) 12 = None" "channels (acceptor_demo l) 6 = None"
    "open_fds (acceptor_demo l) = {0, 1, 2, 3, 4, 5, 9}" "idleFd (acceptor_demo l) = 9"
    using l by (auto simp: loop_eval linux_epoll_fails_def acceptor_demo_def conn_world.defs acceptor_world.defs)
  ultimately show ?thesis using that l by blast
qed

theorem acceptor_lifecycle_witness:
  "\<exists>(st::acceptor_world) st1 st2 st3. Acceptor_new (6, 8, 0, 0, 0) 12 (InetAddress_port 8888) True st = Inr st1 \<and>
    Acceptor_listen 0 st1 = Inr st2 \<and> epoll_set st2 6 = Some (kReadEvent, 12) \<and>
    Acceptor_delete st2 = Inr st3 \<and> open_fds st3 = {0, 1, 2, 3, 4, 5, 8, 9}"
proof -
  obtain l where l: "loop_inv (acceptor_demo l)" "isInLoopThread (acceptor_demo l)"
    "\<not> eventHandling (acceptor_demo l)" "chan_store (acceptor_demo l) 12 = None"
    "channels (acceptor_demo l) 6 = None" "open_fds (acceptor_demo l) = {0, 1, 2, 3, 4, 5, 9}"
    using acceptor_demo_ok by metis
  have "(6::int) \<notin> open_fds (acceptor_demo l)" unfolding l(6) by simp
  from acceptor_lifecycle [OF l(1-5) _ _ this, of 8 0 0 0 "InetAddress_port 8888" True]
  obtain st1 st2 st3 where
    "Acceptor_new (6, 8, 0, 0, 0) 12 (InetAddress_port 8888) True (acceptor_demo l) = Inr st1"
    "Acceptor_listen 0 st1 = Inr st2" "epoll_set st2 = (epoll_set (acceptor_demo l))(6 \<mapsto> (kReadEvent, 12))"
    "Acceptor_delete st2 = Inr st3" "open_fds st3 = insert 8 (open_fds (acceptor_demo l))" by auto
  moreover have "insert 8 {0, 1, 2, 3, 4, 5, 9} = {0, 1, 2, 3, 4, 5, 8, 9::int}" by auto
  ultimately show ?thesis using l(6) by (metis fun_upd_same)
qed

theorem emfile_sheds_connection_witness:
  "\<exists>(st::acceptor_world) st'. Acceptor_handleRead None (\<lambda>e. e) sockaddr_zero (AcceptErr EMFILE) 9 9 st = Inr st' \<and>
    open_fds st' = {0, 1, 2, 3, 4, 5, 9}"
proof -
  obtain l where l: "isInLoopThread (acceptor_demo l)" "open_fds (acceptor_demo l) = {0, 1, 2, 3, 4, 5, 9}"
    "idleFd (acceptor_demo l) = 9"
    using acceptor_demo_ok by metis
  have "9 \<notin> open_fds (acceptor_demo l) - {idleFd (acceptor_demo l)}" using l(3) by simp
  from emfile_sheds_connection [OF l(1) refl this _ this, of None sockaddr_zero]
  obtain st' where st': "Acceptor_handleRead None (\<lambda>e. e) sockaddr_zero (AcceptErr EMFILE) 9 9 (acceptor_demo l) = Inr st'"
    "9 \<in> open_fds st'" "open_fds st' - {9} = open_fds (acceptor_demo l) - {9}" unfolding l(3) by auto
  have "open_fds st' = insert 9 (open_fds st' - {9})" using st'(2) by blast
  also have "\<dots> = {0, 1, 2, 3, 4, 5, 9}" unfolding st'(3) l(2) by auto
  finally show ?thesis using st'(1) by blast
qed

end
