(* ===== verification/EventLoopThread.thy ===== *)
theory EventLoopThread
  imports EventLoop
begin

text \<open>
  \<open>src/base/Thread.h\<close>, \<open>Thread.cc\<close>, \<open>src/net/EventLoopThread.h\<close>, \<open>EventLoopThread.cc\<close>,
  \<open>EventLoopThreadPool.h\<close>, \<open>EventLoopThreadPool.cc\<close>: a thread that runs a loop, and the pool that
  hands out its loops in turn.

  The owner of an \<open>EventLoopThread\<close> and the thread it starts interleave; each access to \<open>loop_\<close>, to
  the loop's \<open>quit_\<close> and each blocking call is one step. The loop lives on the worker's stack:
  \<open>the_loop\<close> is the object while it exists. What a running loop does besides reading and writing
  \<open>quit_\<close> and \<open>looping_\<close> is in the theory of the wake-up.
\<close>

section \<open>Thread\<close>

record Thread =
  started :: bool
  joined :: bool
  detached :: bool
  thread_name :: string

text \<open>\<open>num\<close> is the value of \<open>++numCreated_\<close>.\<close>

definition Thread_new :: "int \<Rightarrow> string \<Rightarrow> Thread" where
  "Thread_new num name =
     \<lparr>started = False, joined = False, detached = False,
      thread_name = (if name = [] then snprintf_buf 32 (''Thread'' @ to_string num) else name)\<rparr>"

definition Thread_start :: "Thread \<Rightarrow> Thread res" where
  "Thread_start t = assertR (\<not> started t) ''!started_'' (Inr (t\<lparr>started := True\<rparr>))"

definition Thread_join :: "Thread \<Rightarrow> Thread res" where
  "Thread_join t =
     assertR (started t) ''started_'' (assertR (\<not> joined t) ''!joined_'' (Inr (t\<lparr>joined := True\<rparr>)))"

definition Thread_delete :: "Thread \<Rightarrow> Thread" where
  "Thread_delete t = (if started t \<and> \<not> joined t then t\<lparr>detached := True\<rparr> else t)"

section \<open>EventLoopThread\<close>

datatype owner_pc =
    OIdle           \<comment> \<open>before \<open>startLoop\<close>\<close>
  | OWait           \<comment> \<open>in \<open>startLoop\<close>, waiting for \<open>loop_\<close>\<close>
  | OReturn         \<comment> \<open>has seen \<open>loop_\<close>, has released the lock, about to read \<open>loop_\<close> for the result\<close>
  | OOwner bool     \<comment> \<open>\<open>startLoop\<close> has returned; whether the result is not null\<close>
  | OTest           \<comment> \<open>in the destructor, about to test \<open>loop_\<close>\<close>
  | OQuit           \<comment> \<open>about to call \<open>loop_->quit()\<close>\<close>
  | OJoin           \<comment> \<open>in \<open>thread_.join()\<close>\<close>
  | ODone           \<comment> \<open>destroyed\<close>
  | OFault          \<comment> \<open>used the loop after its end\<close>

datatype worker_pc =
    WNone           \<comment> \<open>not started\<close>
  | WConstruct      \<comment> \<open>constructing the loop\<close>
  | WPublish        \<comment> \<open>the callback has run, about to set \<open>loop_\<close>\<close>
  | WEnter          \<comment> \<open>about to enter \<open>loop()\<close>\<close>
  | WLoop           \<comment> \<open>in \<open>loop()\<close>\<close>
  | WLeave          \<comment> \<open>\<open>loop()\<close> has returned\<close>
  | WEnd            \<comment> \<open>\<open>loop_\<close> is null, the loop is destroyed\<close>

record EventLoopThread =
  loop_set :: bool
  exiting :: bool
  elt_thread :: Thread
  the_loop :: "EventLoop option"
  owner :: owner_pc
  worker :: worker_pc

definition EventLoopThread_new :: "int \<Rightarrow> string \<Rightarrow> EventLoopThread" where
  "EventLoopThread_new num name =
     \<lparr>loop_set = False, exiting = False, elt_thread = Thread_new num name, the_loop = None,
      owner = OIdle, worker = WNone\<rparr>"

text \<open>What \<open>loop()\<close> writes when it is entered.\<close>

definition enter_loop :: "EventLoop \<Rightarrow> EventLoop" where
  "enter_loop l = l\<lparr>looping := True, quit := False\<rparr>"

text \<open>
  The owner's and the worker's steps. \<open>callback_\<close> may do anything to the fresh loop but run it
  (\<open>looping_\<close> is false when \<open>threadFunc\<close> goes on). With \<open>others\<close>, other threads or the loop's own
  callbacks may also call \<open>quit()\<close> while the loop exists.
\<close>

inductive elt_step :: "bool \<Rightarrow> EventLoopThread \<Rightarrow> EventLoopThread \<Rightarrow> bool" for others where
  o_start: "owner s = OIdle \<Longrightarrow> Thread_start (elt_thread s) = Inr t \<Longrightarrow>
    elt_step others s (s\<lparr>elt_thread := t, owner := OWait, worker := WConstruct\<rparr>)"
| o_seen: "owner s = OWait \<Longrightarrow> loop_set s \<Longrightarrow> elt_step others s (s\<lparr>owner := OReturn\<rparr>)"
| o_return: "owner s = OReturn \<Longrightarrow> elt_step others s (s\<lparr>owner := OOwner (loop_set s)\<rparr>)"
| o_destroy: "owner s = OIdle \<or> (\<exists>b. owner s = OOwner b) \<Longrightarrow>
    elt_step others s (s\<lparr>exiting := True, owner := OTest\<rparr>)"
| o_test: "owner s = OTest \<Longrightarrow> loop_set s \<Longrightarrow> elt_step others s (s\<lparr>owner := OQuit\<rparr>)"
| o_test_null: "owner s = OTest \<Longrightarrow> \<not> loop_set s \<Longrightarrow>
    elt_step others s (s\<lparr>elt_thread := Thread_delete (elt_thread s), owner := ODone\<rparr>)"
| o_quit: "owner s = OQuit \<Longrightarrow> the_loop s = Some l \<Longrightarrow>
    elt_step others s (s\<lparr>the_loop := Some (EventLoop_quit l), owner := OJoin\<rparr>)"
| o_quit_dangling: "owner s = OQuit \<Longrightarrow> the_loop s = None \<Longrightarrow> elt_step others s (s\<lparr>owner := OFault\<rparr>)"
| o_join: "owner s = OJoin \<Longrightarrow> worker s = WEnd \<Longrightarrow> Thread_join (elt_thread s) = Inr t \<Longrightarrow>
    elt_step others s (s\<lparr>elt_thread := Thread_delete t, owner := ODone\<rparr>)"
| w_construct: "worker s = WConstruct \<Longrightarrow> \<not> looping l \<Longrightarrow>
    elt_step others s (s\<lparr>the_loop := Some l, worker := WPublish\<rparr>)"
| w_publish: "worker s = WPublish \<Longrightarrow> elt_step others s (s\<lparr>loop_set := True, worker := WEnter\<rparr>)"
| w_enter: "worker s = WEnter \<Longrightarrow> the_loop s = Some l \<Longrightarrow>
    elt_step others s (s\<lparr>the_loop := Some (enter_loop l), worker := WLoop\<rparr>)"
| w_stop: "worker s = WLoop \<Longrightarrow> the_loop s = Some l \<Longrightarrow> quit l \<Longrightarrow>
    elt_step others s (s\<lparr>the_loop := Some (l\<lparr>looping := False\<rparr>), worker := WLeave\<rparr>)"
| w_end: "worker s = WLeave \<Longrightarrow>
    elt_step others s (s\<lparr>loop_set := False, the_loop := None, worker := WEnd\<rparr>)"
| x_quit: "others \<Longrightarrow> the_loop s = Some l \<Longrightarrow>
    elt_step others s (s\<lparr>the_loop := Some (EventLoop_quit l)\<rparr>)"

inductive_cases elt_stepE: "elt_step others s s'"

section \<open>Facts about the thread\<close>

lemma EventLoop_quit_simps [simp]:
  fixes l :: EventLoop
  shows "quit (EventLoop_quit l)" "looping (EventLoop_quit l) = looping l"
  by (simp_all add: EventLoop_quit_def wakeup_def Let_def)

definition elt_inv :: "EventLoopThread \<Rightarrow> bool" where
  "elt_inv s \<longleftrightarrow>
     (the_loop s = None \<longleftrightarrow> worker s \<in> {WNone, WConstruct, WEnd}) \<and>
     (loop_set s \<longleftrightarrow> worker s \<in> {WEnter, WLoop, WLeave}) \<and>
     (worker s \<noteq> WNone \<longrightarrow> started (elt_thread s)) \<and>
     (worker s = WNone \<longrightarrow> \<not> started (elt_thread s) \<and> owner s \<in> {OIdle, OTest, ODone}) \<and>
     (owner s = OIdle \<longrightarrow> worker s = WNone) \<and>
     (owner s \<noteq> ODone \<longrightarrow> \<not> joined (elt_thread s))"

definition elt_start :: "EventLoopThread \<Rightarrow> bool" where
  "elt_start s \<longleftrightarrow> (\<exists>num name. s = EventLoopThread_new num name)"

lemma elt_inv_start: "elt_start s \<Longrightarrow> elt_inv s"
  by (auto simp: elt_start_def elt_inv_def EventLoopThread_new_def Thread_new_def)

lemma elt_inv_step: "elt_step others s t \<Longrightarrow> elt_inv s \<Longrightarrow> elt_inv t"
  by (erule elt_stepE)
    (auto simp: elt_inv_def Thread_start_def Thread_join_def Thread_delete_def assertR_eq_Inr split: if_splits)

text \<open>
  Before the owner asks it to, the loop of a thread that nobody else stops neither stops nor has a
  quit request when it runs.
\<close>

definition before_quit :: "owner_pc \<Rightarrow> bool" where
  "before_quit pc \<longleftrightarrow> pc \<in> {OIdle, OWait, OReturn, OTest, OQuit} \<or> (\<exists>b. pc = OOwner b)"

definition quiet_inv :: "EventLoopThread \<Rightarrow> bool" where
  "quiet_inv s \<longleftrightarrow> elt_inv s \<and> owner s \<noteq> OFault \<and>
     (before_quit (owner s) \<longrightarrow> worker s \<notin> {WLeave, WEnd} \<and>
        (worker s = WLoop \<longrightarrow> (\<forall>l. the_loop s = Some l \<longrightarrow> \<not> quit l))) \<and>
     (owner s \<in> {OReturn, OQuit} \<longrightarrow> loop_set s) \<and>
     (\<forall>b. owner s = OOwner b \<longrightarrow> b \<and> loop_set s)"

lemma quiet_inv_step:
  assumes "elt_step False s t" and "quiet_inv s"
  shows "quiet_inv t"
proof -
  have "elt_inv t" using elt_inv_step [OF assms(1)] assms(2) by (simp add: quiet_inv_def)
  then show ?thesis using assms(2)
    by (rule_tac elt_stepE [OF assms(1)])
      (auto simp: quiet_inv_def before_quit_def elt_inv_def enter_loop_def)
qed

interpretation et: invariant_system elt_start "elt_step others" elt_inv
  by unfold_locales (auto intro: elt_inv_start elt_inv_step)

interpretation eq: invariant_system elt_start "elt_step False" quiet_inv
proof unfold_locales
  fix s assume "elt_start s"
  then show "quiet_inv s" using elt_inv_start [of s]
    by (auto simp: elt_start_def quiet_inv_def EventLoopThread_new_def)
qed (rule quiet_inv_step)

section \<open>Properties of the thread\<close>

text \<open>C35. When only the owner stops the loop, \<open>startLoop\<close> returns a loop that exists and is not null,
  and the destructor never calls \<open>quit\<close> on a loop that is gone, under every interleaving.\<close>

theorem startLoop_returns_live_loop:
  assumes "reachable elt_start (elt_step False) s"
  shows "owner s \<noteq> OFault \<and>
    (\<forall>b. owner s = OOwner b \<longrightarrow> b \<and> (\<exists>l. the_loop s = Some l)) \<and>
    (owner s = OQuit \<longrightarrow> (\<exists>l. the_loop s = Some l))"
proof -
  have q: "quiet_inv s" using eq.reachable_inv [OF assms] .
  then have live: "loop_set s \<Longrightarrow> \<exists>l. the_loop s = Some l" by (auto simp: quiet_inv_def elt_inv_def)
  have "b \<and> loop_set s" if "owner s = OOwner b" for b using q that by (simp add: quiet_inv_def)
  moreover have "owner s \<noteq> OFault" "owner s = OQuit \<Longrightarrow> loop_set s" using q by (simp_all add: quiet_inv_def)
  ultimately show ?thesis using live by blast
qed

text \<open>A run of the owner and the worker: the events of the runs below.\<close>

lemma elt_run:
  fixes l :: EventLoop
  assumes "\<not> looping l"
  defines "s0 \<equiv> EventLoopThread_new 1 ''io''"
  defines "t \<equiv> (elt_thread s0)\<lparr>started := True\<rparr>"
  shows "reachable elt_start (elt_step others) (s0\<lparr>elt_thread := t, the_loop := Some l, loop_set := True,
    worker := WEnter, owner := OReturn\<rparr>)"
proof -
  let ?s1 = "s0\<lparr>elt_thread := t, owner := OWait, worker := WConstruct\<rparr>"
  let ?s2 = "?s1\<lparr>the_loop := Some l, worker := WPublish\<rparr>"
  let ?s3 = "?s2\<lparr>loop_set := True, worker := WEnter\<rparr>"
  let ?s4 = "?s3\<lparr>owner := OReturn\<rparr>"
  have "reachable elt_start (elt_step others) s0"
    by (rule reach_start) (auto simp: elt_start_def s0_def)
  moreover have "elt_step others s0 ?s1"
    by (rule o_start) (simp_all add: s0_def t_def EventLoopThread_new_def Thread_new_def Thread_start_def)
  moreover have "elt_step others ?s1 ?s2" by (rule w_construct) (simp_all add: assms(1))
  moreover have "elt_step others ?s2 ?s3" by (rule w_publish) simp
  moreover have "elt_step others ?s3 ?s4" by (rule o_seen) simp_all
  ultimately have "reachable elt_start (elt_step others) ?s4" by (meson reach_step)
  then show ?thesis by simp
qed

text \<open>A loop that is asked to stop before it runs never stops: there is a run in which the
  destructor calls \<open>quit\<close> between the publication of the loop and its entry into \<open>loop()\<close>, which
  resets the request; the destructor then waits in \<open>join\<close>, the loop runs without a request to stop,
  and neither thread ever takes another step towards the end.\<close>

theorem early_quit_is_lost:
  fixes l :: EventLoop
  assumes "\<not> looping l"
  shows "\<exists>s l'. reachable elt_start (elt_step False) s \<and> owner s = OJoin \<and> worker s = WLoop \<and>
    the_loop s = Some l' \<and> \<not> quit l' \<and> (\<forall>s'. \<not> elt_step False s s')"
proof -
  let ?s0 = "EventLoopThread_new 1 ''io''"
  let ?a = "?s0\<lparr>elt_thread := (elt_thread ?s0)\<lparr>started := True\<rparr>, the_loop := Some l,
    loop_set := True, worker := WEnter, owner := OReturn\<rparr>"
  let ?b = "?a\<lparr>owner := OOwner (loop_set ?a)\<rparr>"
  let ?c = "?b\<lparr>exiting := True, owner := OTest\<rparr>"
  let ?d = "?c\<lparr>owner := OQuit\<rparr>"
  let ?e = "?d\<lparr>the_loop := Some (EventLoop_quit l), owner := OJoin\<rparr>"
  let ?f = "?e\<lparr>the_loop := Some (enter_loop (EventLoop_quit l)), worker := WLoop\<rparr>"
  have "elt_step False ?a ?b" by (rule o_return) simp
  moreover have "elt_step False ?b ?c" by (rule o_destroy) (simp, blast)
  moreover have "elt_step False ?c ?d" by (rule o_test) simp_all
  moreover have "elt_step False ?d ?e" by (rule o_quit) simp_all
  moreover have "elt_step False ?e ?f" by (rule w_enter) simp_all
  ultimately have r: "reachable elt_start (elt_step False) ?f"
    using elt_run [OF assms, of False] by (meson reach_step)
  have "\<not> elt_step False ?f s'" for s'
    by (auto elim!: elt_stepE simp: enter_loop_def)
  with r show ?thesis by (intro exI [of _ ?f] exI [of _ "enter_loop (EventLoop_quit l)"]) (simp add: enter_loop_def)
qed

text \<open>A loop that is running stops and is joined: from every reachable state in which the
  destructor is about to call \<open>quit\<close> on a running loop, the two threads reach the end.\<close>

theorem destructor_joins_running_loop:
  assumes "reachable elt_start (elt_step False) s" and "owner s = OQuit" and "worker s = WLoop"
  shows "\<exists>s'. (elt_step False)\<^sup>*\<^sup>* s s' \<and> owner s' = ODone \<and> worker s' = WEnd \<and> joined (elt_thread s')"
proof -
  have i: "elt_inv s" using et.reachable_inv [OF assms(1)] .
  then obtain l where l: "the_loop s = Some l" using assms(3) by (auto simp: elt_inv_def)
  have t: "started (elt_thread s)" "\<not> joined (elt_thread s)" using i assms(2,3) by (auto simp: elt_inv_def)
  let ?a = "s\<lparr>the_loop := Some (EventLoop_quit l), owner := OJoin\<rparr>"
  let ?b = "?a\<lparr>the_loop := Some ((EventLoop_quit l)\<lparr>looping := False\<rparr>), worker := WLeave\<rparr>"
  let ?c = "?b\<lparr>loop_set := False, the_loop := None, worker := WEnd\<rparr>"
  let ?t = "(elt_thread s)\<lparr>joined := True\<rparr>"
  let ?d = "?c\<lparr>elt_thread := Thread_delete ?t, owner := ODone\<rparr>"
  have "elt_step False s ?a" by (rule o_quit) (use assms l in simp_all)
  moreover have "elt_step False ?a ?b" by (rule w_stop) (use assms in simp_all)
  moreover have "elt_step False ?b ?c" by (rule w_end) simp
  moreover have "elt_step False ?c ?d" by (rule o_join) (use t in \<open>simp_all add: Thread_join_def\<close>)
  ultimately have "(elt_step False)\<^sup>*\<^sup>* s ?d"
    by (meson converse_rtranclp_into_rtranclp rtranclp.rtrancl_refl)
  moreover have "joined (elt_thread ?d)" by (simp add: Thread_delete_def)
  ultimately show ?thesis by (intro exI [of _ ?d]) simp
qed

text \<open>If the loop is also stopped by someone else, the unsynchronised reads of \<open>loop_\<close> are races:
  \<open>startLoop\<close> can return a null pointer, and the destructor can call \<open>quit\<close> on a destroyed loop.\<close>

theorem loop_pointer_races:
  fixes l :: EventLoop
  assumes "\<not> looping l"
  shows "(\<exists>s. reachable elt_start (elt_step True) s \<and> owner s = OOwner False) \<and>
    (\<exists>s. reachable elt_start (elt_step True) s \<and> owner s = OFault)"
proof -
  let ?s0 = "EventLoopThread_new 1 ''io''"
  let ?a = "?s0\<lparr>elt_thread := (elt_thread ?s0)\<lparr>started := True\<rparr>, the_loop := Some l,
    loop_set := True, worker := WEnter, owner := OReturn\<rparr>"
  note ra = elt_run [OF assms, of True]
  have ends: "reachable elt_start (elt_step True)
      (s\<lparr>loop_set := False, the_loop := None, worker := WEnd\<rparr>)"
    if "reachable elt_start (elt_step True) s" "worker s = WEnter" "the_loop s = Some l" for s
  proof -
    let ?e = "enter_loop l"
    let ?b = "s\<lparr>the_loop := Some ?e, worker := WLoop\<rparr>"
    let ?c = "?b\<lparr>the_loop := Some (EventLoop_quit ?e)\<rparr>"
    let ?d = "?c\<lparr>the_loop := Some ((EventLoop_quit ?e)\<lparr>looping := False\<rparr>), worker := WLeave\<rparr>"
    let ?f = "?d\<lparr>loop_set := False, the_loop := None, worker := WEnd\<rparr>"
    have "elt_step True s ?b" by (rule w_enter) (use that in simp_all)
    moreover have "elt_step True ?b ?c" by (rule x_quit) simp_all
    moreover have "elt_step True ?c ?d" by (rule w_stop) simp_all
    moreover have "elt_step True ?d ?f" by (rule w_end) simp
    ultimately have "reachable elt_start (elt_step True) ?f" using that(1) by (meson reach_step)
    then show ?thesis by simp
  qed
  let ?z = "?a\<lparr>loop_set := False, the_loop := None, worker := WEnd\<rparr>"
  have "reachable elt_start (elt_step True) ?z" by (rule ends [OF ra]) simp_all
  moreover have "elt_step True ?z (?z\<lparr>owner := OOwner (loop_set ?z)\<rparr>)" by (rule o_return) simp
  ultimately have n: "reachable elt_start (elt_step True) (?z\<lparr>owner := OOwner (loop_set ?z)\<rparr>)" by (rule reach_step)
  let ?b = "?a\<lparr>owner := OOwner (loop_set ?a)\<rparr>"
  let ?c = "?b\<lparr>exiting := True, owner := OTest\<rparr>"
  let ?d = "?c\<lparr>owner := OQuit\<rparr>"
  have "elt_step True ?a ?b" by (rule o_return) simp
  moreover have "elt_step True ?b ?c" by (rule o_destroy) (simp, blast)
  moreover have "elt_step True ?c ?d" by (rule o_test) simp_all
  ultimately have "reachable elt_start (elt_step True) ?d" using ra by (meson reach_step)
  then have "reachable elt_start (elt_step True) (?d\<lparr>loop_set := False, the_loop := None, worker := WEnd\<rparr>)"
    by (rule ends) simp_all
  moreover have "elt_step True (?d\<lparr>loop_set := False, the_loop := None, worker := WEnd\<rparr>)
      ((?d\<lparr>loop_set := False, the_loop := None, worker := WEnd\<rparr>)\<lparr>owner := OFault\<rparr>)"
    by (rule o_quit_dangling) simp_all
  ultimately have f: "reachable elt_start (elt_step True)
      ((?d\<lparr>loop_set := False, the_loop := None, worker := WEnd\<rparr>)\<lparr>owner := OFault\<rparr>)" by (rule reach_step)
  show ?thesis
    by (intro conjI exI [of _ "?z\<lparr>owner := OOwner (loop_set ?z)\<rparr>"]
        exI [of _ "(?d\<lparr>loop_set := False, the_loop := None, worker := WEnd\<rparr>)\<lparr>owner := OFault\<rparr>"] n f) simp_all
qed

theorem startLoop_returns_live_loop_witness:
  "\<exists>s. reachable elt_start (elt_step False) s \<and> owner s = OOwner True \<and> (\<exists>l. the_loop s = Some l)"
proof -
  obtain st where st: "EventLoop_new False 1 7 linux_epoll_fails 3 10 4 11 5 False (Timestamp 0) = Inr st"
    using demo_loop_exists by blast
  then have "\<not> looping st" by (auto simp: loop_eval linux_epoll_fails_def)
  from reach_step [OF elt_run [OF this] o_return] obtain s where
    s: "reachable elt_start (elt_step False) s" "owner s = OOwner True" by fastforce
  from startLoop_returns_live_loop [OF s(1)] s show ?thesis by blast
qed

lemma demo_idle_loop:
  obtains l :: EventLoop where "\<not> looping l"
proof -
  obtain st where st: "EventLoop_new False 1 7 linux_epoll_fails 3 10 4 11 5 False (Timestamp 0) = Inr st"
    using demo_loop_exists by blast
  then have "\<not> looping st" by (auto simp: loop_eval linux_epoll_fails_def)
  then show ?thesis by (rule that)
qed

theorem early_quit_is_lost_witness:
  "\<exists>s. reachable elt_start (elt_step False) s \<and> owner s = OJoin \<and> (\<forall>s'. \<not> elt_step False s s')"
proof -
  obtain l :: EventLoop where "\<not> looping l" by (rule demo_idle_loop)
  from early_quit_is_lost [OF this] show ?thesis by blast
qed

theorem loop_pointer_races_witness:
  "\<exists>s. reachable elt_start (elt_step True) s \<and> owner s = OFault"
proof -
  obtain l :: EventLoop where "\<not> looping l" by (rule demo_idle_loop)
  from loop_pointer_races [OF this] show ?thesis by blast
qed

theorem destructor_joins_running_loop_witness:
  "\<exists>s s'. owner s = OQuit \<and> (elt_step False)\<^sup>*\<^sup>* s s' \<and> owner s' = ODone \<and> worker s' = WEnd \<and> joined (elt_thread s')"
proof -
  obtain l :: EventLoop where l: "\<not> looping l" by (rule demo_idle_loop)
  let ?s0 = "EventLoopThread_new 1 ''io''"
  let ?a = "?s0\<lparr>elt_thread := (elt_thread ?s0)\<lparr>started := True\<rparr>, the_loop := Some l,
    loop_set := True, worker := WEnter, owner := OReturn\<rparr>"
  let ?b = "?a\<lparr>the_loop := Some (enter_loop l), worker := WLoop\<rparr>"
  let ?c = "?b\<lparr>owner := OOwner (loop_set ?b)\<rparr>"
  let ?d = "?c\<lparr>exiting := True, owner := OTest\<rparr>"
  let ?e = "?d\<lparr>owner := OQuit\<rparr>"
  have "elt_step False ?a ?b" by (rule w_enter) simp_all
  moreover have "elt_step False ?b ?c" by (rule o_return) simp
  moreover have "elt_step False ?c ?d" by (rule o_destroy) (simp, blast)
  moreover have "elt_step False ?d ?e" by (rule o_test) simp_all
  ultimately have r: "reachable elt_start (elt_step False) ?e"
    using elt_run [OF l, of False] by (meson reach_step)
  have "\<exists>s'. (elt_step False)\<^sup>*\<^sup>* ?e s' \<and> owner s' = ODone \<and> worker s' = WEnd \<and> joined (elt_thread s')"
    by (rule destructor_joins_running_loop [OF r]) simp_all
  moreover have "owner ?e = OQuit" by simp
  ultimately show ?thesis by blast
qed

section \<open>The pool\<close>

record EventLoopThreadPool =
  baseLoop :: nat
  pool_name :: string
  pool_started :: bool
  numThreads :: int
  next_loop :: nat
  pool_threads :: "string list"
  loops :: "nat list"

definition Pool_new :: "nat \<Rightarrow> string \<Rightarrow> EventLoopThreadPool" where
  "Pool_new base name =
     \<lparr>baseLoop = base, pool_name = name, pool_started = False, numThreads = 0, next_loop = 0,
      pool_threads = [], loops = []\<rparr>"

definition Pool_setThreadNum :: "int \<Rightarrow> EventLoopThreadPool \<Rightarrow> EventLoopThreadPool" where
  "Pool_setThreadNum n p = p\<lparr>numThreads := n\<rparr>"

text \<open>
  \<open>start\<close>: \<open>started_loop i\<close> is what \<open>startLoop\<close> of the \<open>i\<close>-th thread returns. The second component
  is the list of loops the callback is called with by the pool itself.
\<close>

definition Pool_start :: "(nat \<Rightarrow> nat) \<Rightarrow> bool \<Rightarrow> EventLoopThreadPool \<Rightarrow> EventLoopThreadPool \<times> nat list" where
  "Pool_start started_loop has_cb p =
     (let is = [0..<nat (numThreads p)];
          p1 = p\<lparr>pool_started := True,
                 pool_threads := pool_threads p @ map (\<lambda>i. pool_name p @ to_string (int i)) is,
                 loops := loops p @ map started_loop is\<rparr>
      in (p1, if numThreads p = 0 \<and> has_cb then [baseLoop p] else []))"

definition getNextLoop :: "EventLoopThreadPool \<Rightarrow> (nat \<times> EventLoopThreadPool) res" where
  "getNextLoop p =
     (if loops p \<noteq> []
      then requireR (next_loop p < length (loops p)) (BadAccess ''loops_[next_]'')
             (let loop = loops p ! next_loop p; n = next_loop p + 1
              in Inr (loop, p\<lparr>next_loop := (if length (loops p) \<le> n then 0 else n)\<rparr>))
      else Inr (baseLoop p, p))"

definition getAllLoops :: "EventLoopThreadPool \<Rightarrow> nat list" where
  "getAllLoops p = (if loops p = [] then [baseLoop p] else loops p)"

text \<open>Successive calls.\<close>

fun next_loops :: "nat \<Rightarrow> EventLoopThreadPool \<Rightarrow> (nat list \<times> EventLoopThreadPool) res" where
  "next_loops 0 p = Inr ([], p)"
| "next_loops (Suc k) p =
     bindR (getNextLoop p) (\<lambda>(l, p1). bindR (next_loops k p1) (\<lambda>(ls, p2). Inr (l # ls, p2)))"

definition pool_inv :: "EventLoopThreadPool \<Rightarrow> bool" where
  "pool_inv p \<longleftrightarrow> next_loop p = 0 \<or> next_loop p < length (loops p)"

lemma pool_inv_new: "pool_inv (Pool_new base name)" "pool_inv (Pool_setThreadNum n p) = pool_inv p"
  by (simp_all add: pool_inv_def Pool_new_def Pool_setThreadNum_def)

lemma pool_inv_start: "pool_inv p \<Longrightarrow> pool_inv (fst (Pool_start f cb p))"
  by (auto simp: pool_inv_def Pool_start_def Let_def)

lemma getNextLoop_ok:
  assumes "pool_inv p"
  shows "getNextLoop p = Inr (getAllLoops p ! (next_loop p mod length (getAllLoops p)),
    p\<lparr>next_loop := (if loops p = [] then next_loop p else (next_loop p + 1) mod length (loops p))\<rparr>)"
proof (cases "loops p")
  case Nil
  then show ?thesis by (simp add: getNextLoop_def getAllLoops_def)
next
  case (Cons l ls)
  then have "next_loop p < length (loops p)" using assms by (auto simp: pool_inv_def)
  then show ?thesis using Cons
    by (auto simp: getNextLoop_def getAllLoops_def Let_def mod_if le_less_Suc_eq not_less)
qed

lemma next_loops_eq:
  assumes "pool_inv p"
  shows "\<exists>p'. next_loops k p =
    Inr (map (\<lambda>i. getAllLoops p ! ((next_loop p + i) mod length (getAllLoops p))) [0..<k], p') \<and> pool_inv p'"
  using assms
proof (induction k arbitrary: p)
  case 0
  then show ?case by simp
next
  case (Suc k)
  let ?p = "p\<lparr>next_loop := (if loops p = [] then next_loop p else (next_loop p + 1) mod length (loops p))\<rparr>"
  have g: "getAllLoops ?p = getAllLoops p" by (simp add: getAllLoops_def)
  have "pool_inv ?p" using Suc.prems by (auto simp: pool_inv_def)
  from Suc.IH [OF this] obtain p' where p': "next_loops k ?p = Inr (map (\<lambda>i. getAllLoops p !
      ((next_loop ?p + i) mod length (getAllLoops p))) [0..<k], p')" "pool_inv p'"
    unfolding g by blast
  have m: "(next_loop ?p + i) mod length (getAllLoops p) = (next_loop p + Suc i) mod length (getAllLoops p)" for i
    by (simp add: getAllLoops_def mod_simps)
  have "next_loops (Suc k) p = Inr (getAllLoops p ! (next_loop p mod length (getAllLoops p)) #
      map (\<lambda>i. getAllLoops p ! ((next_loop p + Suc i) mod length (getAllLoops p))) [0..<k], p')"
    using getNextLoop_ok [OF Suc.prems] p'(1) unfolding m by simp
  also have "getAllLoops p ! (next_loop p mod length (getAllLoops p)) #
      map (\<lambda>i. getAllLoops p ! ((next_loop p + Suc i) mod length (getAllLoops p))) [0..<k] =
      map (\<lambda>i. getAllLoops p ! ((next_loop p + i) mod length (getAllLoops p))) [0..<Suc k]"
    by (simp add: upt_conv_Cons map_Suc_upt [symmetric] del: upt_Suc)
  finally show ?case using p'(2) by blast
qed

text \<open>\<open>getNextLoop\<close> hands out the loops in turn: on a pool that was constructed, given a number of
  threads and started, the calls never index out of range and the \<open>i\<close>-th one returns the loop of
  thread \<open>i\<close> modulo the number of threads, or the base loop when there are none.\<close>

theorem pool_round_robin:
  "\<exists>p'. next_loops k (fst (Pool_start f cb (Pool_setThreadNum n (Pool_new base name)))) =
    Inr (map (\<lambda>i. if n \<le> 0 then base else f (i mod nat n)) [0..<k], p')"
proof -
  let ?p = "fst (Pool_start f cb (Pool_setThreadNum n (Pool_new base name)))"
  have inv: "pool_inv ?p" by (intro pool_inv_start) (simp add: pool_inv_new)
  have l: "loops ?p = map f [0..<nat n]" "next_loop ?p = 0" "baseLoop ?p = base"
    by (simp_all add: Pool_start_def Pool_setThreadNum_def Pool_new_def Let_def)
  have "getAllLoops ?p ! (i mod length (getAllLoops ?p)) = (if n \<le> 0 then base else f (i mod nat n))" for i
    using l by (auto simp: getAllLoops_def)
  with next_loops_eq [OF inv, of k] l(2) show ?thesis by auto
qed

end
