(* ===== verification/TcpServer.thy ===== *)
theory TcpServer
  imports Acceptor EventLoopThread Connection_Close
begin

text \<open>
  \<open>src/net/TcpServer.h\<close>, \<open>TcpServer.cc\<close>: the server over several loops. One loop of the process is in
  focus, and its record (with its connections and, for the base loop, the acceptor's members) is the
  state the operations of the other theories act on; the records of the other loops are kept in
  \<open>other_loops\<close> under their addresses. \<open>focus l\<close> exchanges the loop in focus, and \<open>on_loop l f\<close> is a
  call \<open>l->f()\<close> made by the thread that is running. A \<open>TcpConnectionPtr\<close> is the connection's address;
  \<open>conn_loop\<close> is what its \<open>getLoop()\<close> returns.
\<close>

section \<open>State\<close>

record server_world = acceptor_world +
  other_loops :: "nat \<rightharpoonup> acceptor_world"
  srv_loop :: nat
  srv_ipPort :: string
  srv_name :: string
  threadPool :: EventLoopThreadPool
  srv_started :: int
  nextConnId :: int
  connections :: "string \<rightharpoonup> nat"
  conn_loop :: "nat \<rightharpoonup> nat"

definition focus :: "nat \<Rightarrow> server_world \<Rightarrow> server_world res" where
  "focus l st =
     (if l = loop_id st then Inr st
      else case other_loops st l of
          None \<Rightarrow> Inl (BadAccess ''EventLoop'')
        | Some w \<Rightarrow>
            Inr (acceptor_world.extend (w\<lparr>this_thread := this_thread st\<rparr>)
                  (server_world.fields
                     ((other_loops st)(l := None, loop_id st \<mapsto> acceptor_world.truncate st))
                     (srv_loop st) (srv_ipPort st) (srv_name st) (threadPool st) (srv_started st)
                     (nextConnId st) (connections st) (conn_loop st))))"

definition on_loop :: "nat \<Rightarrow> (server_world \<Rightarrow> server_world res) \<Rightarrow> server_world \<Rightarrow> server_world res" where
  "on_loop l f st = bindR (focus l st) (\<lambda>s. bindR (f s) (focus (loop_id st)))"

definition base_assertInLoopThread :: "server_world \<Rightarrow> 'a res \<Rightarrow> 'a res" where
  "base_assertInLoopThread st k = bindR (focus (srv_loop st) st) (\<lambda>s. assertInLoopThread s k)"

section \<open>Operations\<close>

datatype Option = kNoReusePort | kReusePort

definition TcpServer_new ::
    "int \<times> int \<times> int \<times> int \<times> int \<Rightarrow> chan_ptr \<Rightarrow> sockaddr_in \<Rightarrow> string \<Rightarrow> Option \<Rightarrow>
     server_world \<Rightarrow> server_world res" where
  "TcpServer_new answers p listenAddr nameArg option st =
     bindR (Acceptor_new answers p listenAddr (option = kReusePort) st) (\<lambda>st1.
       Inr (st1\<lparr>srv_loop := loop_id st1, srv_ipPort := toIpPort listenAddr, srv_name := nameArg,
                threadPool := Pool_new (loop_id st1) nameArg, srv_started := 0, nextConnId := 1,
                connections := Map.empty\<rparr>))"

definition TcpServer_setThreadNum :: "int \<Rightarrow> server_world \<Rightarrow> server_world res" where
  "TcpServer_setThreadNum n st =
     assertR (srv_started st = 0) ''!started_''
       (assertR (0 \<le> n) ''numThreads >= 0''
         (Inr (st\<lparr>threadPool := Pool_setThreadNum n (threadPool st)\<rparr>)))"

text \<open>
  \<open>start\<close>: \<open>ws i\<close> is the loop that the \<open>i\<close>-th thread of the pool constructs, after its call of the
  thread's callback, \<open>init\<close> is \<open>threadInitCallback_\<close>, \<open>ret\<close> the answer of \<open>listen\<close>.
\<close>

definition TcpServer_start ::
    "(nat \<Rightarrow> acceptor_world) \<Rightarrow> (server_world \<Rightarrow> server_world res) option \<Rightarrow> int \<Rightarrow>
     server_world \<Rightarrow> server_world res" where
  "TcpServer_start ws init ret st =
     bindR
       (if srv_started st = 0
        then (case Pool_start (\<lambda>i. loop_id (ws i)) (init \<noteq> None) (threadPool st) of (pool, called) \<Rightarrow>
          let new_loops = map (\<lambda>i. (loop_id (ws i), ws i)) [0..<nat (numThreads (threadPool st))];
              st1 = st\<lparr>srv_started := srv_started st + 1, threadPool := pool,
                       other_loops := other_loops st ++ map_of new_loops\<rparr>
          in bindR (foldR (\<lambda>l. on_loop l (case init of None \<Rightarrow> Inr | Some f \<Rightarrow> f)) called st1) (\<lambda>st2.
               bindR (focus (srv_loop st2) st2) (\<lambda>s.
                 assertR (\<not> listening s) ''!acceptor_->listening()''
                   (on_loop (srv_loop st2) (runInLoop (\<lambda>_. Acceptor_listen ret) F_listen) st2))))
        else Inr st)
       (\<lambda>st3. assertR (srv_started st3 \<noteq> 0) ''started_ != 0'' (Inr st3))"

text \<open>The connection a \<open>TcpConnectionPtr\<close> points to.\<close>

definition conn_at :: "server_world \<Rightarrow> nat \<Rightarrow> TcpConnection res" where
  "conn_at st c =
     (case conn_loop st c of
        None \<Rightarrow> Inl (BadAccess ''TcpConnection'')
      | Some l \<Rightarrow> bindR (focus l st) (\<lambda>s. conn_deref s c))"

definition conn_queue :: "nat \<Rightarrow> Functor \<Rightarrow> server_world \<Rightarrow> server_world res" where
  "conn_queue c f st =
     (case conn_loop st c of
        None \<Rightarrow> Inl (BadAccess ''TcpConnection'')
      | Some l \<Rightarrow> on_loop l (\<lambda>s. Inr (queueInLoop f s)) st)"

definition TcpServer_removeConnectionInLoop :: "nat \<Rightarrow> server_world \<Rightarrow> server_world res" where
  "TcpServer_removeConnectionInLoop c st =
     base_assertInLoopThread st
       (bindR (conn_at st c) (\<lambda>x.
          assertR (connections st (conn_name x) \<noteq> None) ''connections_.erase(conn->name()) == 1''
            (conn_queue c (F_connectDestroyed c) (st\<lparr>connections := (connections st)(conn_name x := None)\<rparr>))))"

definition TcpServer_removeConnection :: "nat \<Rightarrow> server_world \<Rightarrow> server_world res" where
  "TcpServer_removeConnection c st =
     on_loop (srv_loop st)
       (runInLoop (\<lambda>_. TcpServer_removeConnectionInLoop c) (F_removeConnectionInLoop c)) st"

text \<open>The callbacks \<open>newConnection\<close> gives to every connection, \<open>user\<close> being those of the server.\<close>

definition server_callbacks :: "server_world conn_callbacks \<Rightarrow> server_world conn_callbacks" where
  "server_callbacks user = user\<lparr>closeCallback := TcpServer_removeConnection\<rparr>"

definition server_connName :: "server_world \<Rightarrow> string" where
  "server_connName st =
     srv_name st @ snprintf_buf 64 (''-'' @ srv_ipPort st @ ''#'' @ to_string (nextConnId st))"

text \<open>\<open>c\<close> and \<open>p\<close> are the addresses of the new connection and of its channel.\<close>

definition TcpServer_newConnection ::
    "server_world conn_callbacks \<Rightarrow> nat \<Rightarrow> chan_ptr \<Rightarrow> int \<Rightarrow> sockaddr_in \<Rightarrow>
     server_world \<Rightarrow> server_world res" where
  "TcpServer_newConnection user c p fd peerAddr st =
     base_assertInLoopThread st
       (bindR (getNextLoop (threadPool st)) (\<lambda>(ioLoop, pool).
          requireR (nextConnId st < 2 ^ 31 - 1) (Thrown ''signed integer overflow'')
            (let connName = server_connName st;
                 st1 = st\<lparr>threadPool := pool, nextConnId := nextConnId st + 1\<rparr>
             in bindR (on_loop ioLoop (TcpConnection_new (Some ioLoop) connName fd c p) st1) (\<lambda>st2.
                  let st3 = st2\<lparr>connections := (connections st2)(connName \<mapsto> c),
                                conn_loop := (conn_loop st2)(c \<mapsto> ioLoop)\<rparr>
                  in on_loop ioLoop (runInLoop (exec_conn_functor (server_callbacks user))
                       (F_connectEstablished c)) st3))))"

fun exec_server_functor ::
    "server_world conn_callbacks \<Rightarrow> int \<Rightarrow> Functor \<Rightarrow> server_world \<Rightarrow> server_world res" where
  "exec_server_functor user ret (F_removeConnectionInLoop c) st = TcpServer_removeConnectionInLoop c st"
| "exec_server_functor user ret F_listen st = Acceptor_listen ret st"
| "exec_server_functor user ret f st = exec_conn_functor (server_callbacks user) f st"

text \<open>
  The body of the destructor, then that of \<open>acceptor_\<close>. \<open>order\<close> is the order in which the
  \<open>unordered_map\<close> is traversed. The destructor of the pool is that of its threads.
\<close>

definition destroy_entry :: "server_world conn_callbacks \<Rightarrow> string \<Rightarrow> server_world \<Rightarrow> server_world res" where
  "destroy_entry user n st =
     (case connections st n of
        None \<Rightarrow> Inl (BadAccess ''item'')
      | Some c \<Rightarrow>
          (case conn_loop st c of
             None \<Rightarrow> Inl (BadAccess ''TcpConnection'')
           | Some l \<Rightarrow> on_loop l (runInLoop (exec_conn_functor (server_callbacks user)) (F_connectDestroyed c))
                        (st\<lparr>connections := (connections st)(n := None)\<rparr>)))"

definition TcpServer_delete ::
    "server_world conn_callbacks \<Rightarrow> string list \<Rightarrow> server_world \<Rightarrow> server_world res" where
  "TcpServer_delete user order st =
     base_assertInLoopThread st
       (bindR (foldR (destroy_entry user) order st) (\<lambda>st1. on_loop (srv_loop st1) Acceptor_delete st1))"

section \<open>Focus\<close>

text \<open>No loop has two records.\<close>

definition loops_ok :: "server_world \<Rightarrow> bool" where
  "loops_ok st \<longleftrightarrow> other_loops st (loop_id st) = None \<and>
     (\<forall>l w. other_loops st l = Some w \<longrightarrow> loop_id w = l)"

lemma focus_self [simp]: "focus (loop_id st) st = Inr st"
  by (simp add: focus_def)

lemma on_loop_self: "on_loop (loop_id st) f st = bindR (f st) (focus (loop_id st))"
  by (simp add: on_loop_def)

end
