(* ===== verification/Server_Frame.thy ===== *)
theory Server_Frame
  imports TcpServer
begin

text \<open>
  What the operations of a connection leave alone: they change only the record of the loop in focus,
  keep every connection and its name, never leave the disconnected state and never ask the server for a
  removal, except through the close callback.
\<close>

section \<open>What the operations on one loop leave alone\<close>

text \<open>The poller's operations change nothing outside the poller.\<close>

definition poller_frame :: "'z Poller_scheme \<Rightarrow> 'z Poller_scheme \<Rightarrow> bool" where
  "poller_frame st st' \<longleftrightarrow> loop_id st' = loop_id st \<and> threadId st' = threadId st \<and>
     this_thread st' = this_thread st \<and> Poller.more st' = Poller.more st"

lemma poller_frame_updates [simp]:
  "poller_frame st (s\<lparr>chan_store := a\<rparr>) = poller_frame st s" "poller_frame st (s\<lparr>channels := b\<rparr>) = poller_frame st s"
  "poller_frame st (s\<lparr>epoll_set := d\<rparr>) = poller_frame st s" "poller_frame st (chan_put s p ch) = poller_frame st s"
  "poller_frame (st\<lparr>chan_store := a\<rparr>) s = poller_frame st s" "poller_frame (st\<lparr>channels := b\<rparr>) s = poller_frame st s"
  "poller_frame (st\<lparr>epoll_set := d\<rparr>) s = poller_frame st s" "poller_frame (chan_put st p ch) s = poller_frame st s"
  "poller_frame st st"
  by (simp_all add: poller_frame_def chan_put_def)

lemma EPollPoller_update_frame: "EPollPoller_update st operation p = Inr st' \<Longrightarrow> poller_frame st st'"
  by (auto simp: EPollPoller_update_def res_iffs Let_def split: if_splits ctl_op.splits)

lemma updateChannel_frame: "EPollPoller_updateChannel st p = Inr st' \<Longrightarrow> poller_frame st st'"
  by (auto simp: EPollPoller_updateChannel_def res_iffs Let_def assertInLoopThread_def split: if_splits
      dest!: EPollPoller_update_frame)

lemma removeChannel_frame: "EPollPoller_removeChannel st p = Inr st' \<Longrightarrow> poller_frame st st'"
  by (auto simp: EPollPoller_removeChannel_def res_iffs Let_def assertInLoopThread_def split: if_splits
      dest!: EPollPoller_update_frame)

lemma change_events_frame: "change_events f st p = Inr st' \<Longrightarrow> poller_frame st st'"
  by (auto simp: change_events_def Channel_update_def EventLoop_updateChannel_def res_iffs assertInLoopThread_def
      split: if_splits dest!: updateChannel_frame)

lemma Channel_remove_frame: "Channel_remove st p = Inr st' \<Longrightarrow> poller_frame st st'"
  by (auto simp: Channel_remove_def EventLoop_removeChannel_def res_iffs assertInLoopThread_def
      split: if_splits dest!: removeChannel_frame)

text \<open>
  The operations of a connection change only their loop; no connection appears, disappears or is
  renamed, none leaves the disconnected state, and the removals the loop has been asked for are those
  it had.
\<close>

fun is_removal :: "Functor \<Rightarrow> bool" where
  "is_removal (F_removeConnectionInLoop c) \<longleftrightarrow> True"
| "is_removal _ \<longleftrightarrow> False"

definition conn_kept :: "TcpConnection \<Rightarrow> TcpConnection \<Rightarrow> bool" where
  "conn_kept x x' \<longleftrightarrow> conn_name x' = conn_name x \<and> (conn_state x = kDisconnected \<longrightarrow> conn_state x' = kDisconnected)"

definition conns_kept :: "(nat \<rightharpoonup> TcpConnection) \<Rightarrow> (nat \<rightharpoonup> TcpConnection) \<Rightarrow> bool" where
  "conns_kept m m' \<longleftrightarrow> dom m' = dom m \<and> (\<forall>c x x'. m c = Some x \<longrightarrow> m' c = Some x' \<longrightarrow> conn_kept x x')"

definition loop_frame :: "'z conn_world_scheme \<Rightarrow> 'z conn_world_scheme \<Rightarrow> bool" where
  "loop_frame st st' \<longleftrightarrow> loop_id st' = loop_id st \<and> threadId st' = threadId st \<and>
     this_thread st' = this_thread st \<and> conn_world.more st' = conn_world.more st \<and>
     filter is_removal (pendingFunctors st') = filter is_removal (pendingFunctors st) \<and>
     conns_kept (conns st) (conns st')"

lemma conns_kept_refl [simp]: "conns_kept m m"
  by (simp add: conns_kept_def conn_kept_def)

lemma conns_kept_trans: "conns_kept m1 m2 \<Longrightarrow> conns_kept m2 m3 \<Longrightarrow> conns_kept m1 m3"
proof -
  assume k: "conns_kept m1 m2" "conns_kept m2 m3"
  have "conn_kept x x'" if "m1 c = Some x" "m3 c = Some x'" for c x x'
  proof -
    have "c \<in> dom m2" using k(1) that(1) by (auto simp: conns_kept_def)
    then obtain y where "m2 c = Some y" by auto
    with k that have "conn_kept x y" "conn_kept y x'" unfolding conns_kept_def by blast+
    then show ?thesis by (simp add: conn_kept_def)
  qed
  with k show ?thesis by (simp add: conns_kept_def)
qed

lemma conns_kept_put: "m c = Some x \<Longrightarrow> conn_kept x x' \<Longrightarrow> conns_kept m (m(c \<mapsto> x'))"
  by (auto simp: conns_kept_def conn_kept_def)

lemma loop_frame_refl [simp]: "loop_frame st st"
  by (simp add: loop_frame_def)

lemma loop_frame_trans: "loop_frame s1 s2 \<Longrightarrow> loop_frame s2 s3 \<Longrightarrow> loop_frame s1 s3"
  by (auto simp: loop_frame_def intro: conns_kept_trans)

lemma poller_loop_frame:
  fixes st :: "'z conn_world_scheme"
  shows "poller_frame st st' \<Longrightarrow> loop_frame st st'"
  by (cases st; cases st') (simp add: poller_frame_def loop_frame_def)

lemma conn_put_frame: "conns st c = Some x \<Longrightarrow> conn_kept x x' \<Longrightarrow> loop_frame st (conn_put st c x')"
  by (simp add: loop_frame_def conn_put_def conns_kept_put)

lemma queueInLoop_frame_conn:
  fixes st :: "'z conn_world_scheme"
  shows "\<not> is_removal f \<Longrightarrow> loop_frame st (queueInLoop f st)"
  by (simp add: loop_frame_def queueInLoop_def wakeup_def Let_def)

section \<open>Operations of a connection\<close>

lemma runInLoop_frame:
  fixes st :: "'z conn_world_scheme"
  assumes "runInLoop exec f st = Inr st'" and "\<not> is_removal f"
    and "\<And>s. exec f st = Inr s \<Longrightarrow> loop_frame st s"
  shows "loop_frame st st'"
  using assms by (auto simp: runInLoop_def queueInLoop_frame_conn split: if_splits)

lemma setState_frame:
  assumes "setState st c s = Inr st'" and "conns st c = Some x" and "conn_state x = kDisconnected \<longrightarrow> s = kDisconnected"
  shows "loop_frame st st'"
  using assms by (auto simp: setState_def conn_kept_def intro!: conn_put_frame)

lemma append_rest_frame:
  fixes st :: "'z conn_world_scheme"
  assumes "append_rest st c message n remain = Inr st'"
  shows "loop_frame st st'"
proof (cases "remain > 0")
  case True
  then obtain x b ch where x: "conns st c = Some x"
    and d: "(if \<not> isWriting ch then Channel_enableWriting (conn_put st c (x\<lparr>outputBuffer := b\<rparr>)) (conn_channel x)
       else Inr (conn_put st c (x\<lparr>outputBuffer := b\<rparr>))) = Inr st'"
    using assms by (auto simp: append_rest_def res_iffs conn_deref_eq Let_def)
  have "loop_frame st (conn_put st c (x\<lparr>outputBuffer := b\<rparr>))" using x by (rule conn_put_frame) (simp add: conn_kept_def)
  with d show ?thesis
    by (auto simp: Channel_enableWriting_def split: if_splits
        dest!: change_events_frame poller_loop_frame intro: loop_frame_trans)
qed (use assms in \<open>simp add: append_rest_def\<close>)

lemma sendInLoop_frame:
  fixes st :: "'z conn_world_scheme"
  assumes "sendInLoop wcb c message st = Inr st'"
  shows "loop_frame st st'"
proof -
  from assms obtain x where x: "conns st c = Some x"
    by (auto simp: sendInLoop_def res_iffs assertInLoopThread_def conn_deref_eq split: if_splits)
  show ?thesis
  proof (cases "conn_state x = kDisconnected")
    case True
    with assms x show ?thesis by (auto simp: sendInLoop_def res_iffs assertInLoopThread_def split: if_splits)
  next
    case False
    have put: "loop_frame st (conn_put st c (x\<lparr>accepted := a\<rparr>))"
      "loop_frame st (conn_put st c (x\<lparr>accepted := a, sock_written := w\<rparr>))" for a w
      using x by (rule conn_put_frame, simp add: conn_kept_def)+
    have "loop_frame st (queueInLoop (F_writeComplete c) (conn_put st c (x\<lparr>accepted := a, sock_written := w\<rparr>)))" for a w
      by (rule loop_frame_trans [OF put(2) queueInLoop_frame_conn]) simp
    with put have "\<exists>s n r. append_rest s c message n r = Inr st' \<and> loop_frame st s"
      using assms x False
      by (auto simp: sendInLoop_def res_iffs assertInLoopThread_def Let_def split: if_splits write_result.splits) blast+
    then obtain s n r where s: "append_rest s c message n r = Inr st'" "loop_frame st s" by blast
    show ?thesis using loop_frame_trans [OF s(2) append_rest_frame [OF s(1)]] .
  qed
qed

lemma shutdownInLoop_frame:
  fixes st :: "'z conn_world_scheme"
  assumes "shutdownInLoop c st = Inr st'"
  shows "loop_frame st st'"
  using assms
  by (auto simp: shutdownInLoop_def res_iffs assertInLoopThread_def conn_deref_eq conn_kept_def
      split: if_splits intro!: conn_put_frame)

lemma exec_timer_functor_frame:
  fixes st :: "'z conn_world_scheme"
  shows "exec_timer_functor f st = Inr st' \<Longrightarrow> loop_frame st st'"
  by (cases f) (auto simp: res_iffs loop_frame_def)

lemma exec_call_functor_frame:
  fixes st :: "'z conn_world_scheme"
  shows "exec_call_functor wcb f st = Inr st' \<Longrightarrow> loop_frame st st'"
  by (cases f) (auto simp del: exec_timer_functor.simps
      dest: sendInLoop_frame shutdownInLoop_frame exec_timer_functor_frame)

lemma conn_call_frame:
  fixes st :: "'z conn_world_scheme"
  assumes "conn_call_exec wcb c call st = Inr st'"
  shows "loop_frame st st'"
proof (cases call)
  case (CSend m)
  then show ?thesis using assms
    by (auto simp: TcpConnection_send_def res_iffs split: if_splits
        intro: runInLoop_frame exec_call_functor_frame)
next
  case CShutdown
  then show ?thesis using assms
    by (auto simp: TcpConnection_shutdown_def res_iffs conn_deref_eq split: if_splits
        dest!: runInLoop_frame exec_call_functor_frame intro: loop_frame_trans [OF setState_frame])
next
  case CForceClose
  then show ?thesis using assms
    by (auto simp: TcpConnection_forceClose_def res_iffs conn_deref_eq split: if_splits
        intro: loop_frame_trans [OF setState_frame queueInLoop_frame_conn])
next
  case (CRetrieve n)
  then show ?thesis using assms
    by (auto simp: res_iffs conn_deref_eq conn_kept_def intro!: conn_put_frame)
qed

section \<open>User code\<close>

text \<open>
  What the server relies on of the user's callbacks: they act on their connection's loop as the calls
  of a connection do. The callbacks of a script have this property.
\<close>

definition benign :: "'z conn_world_scheme conn_callbacks \<Rightarrow> bool" where
  "benign user \<longleftrightarrow>
     (\<forall>c st st'. connectionCallback user c st = Inr st' \<longrightarrow> loop_frame st st') \<and>
     (\<forall>c t st st'. messageCallback user c t st = Inr st' \<longrightarrow> loop_frame st st') \<and>
     (\<forall>f c st st'. writeCompleteCallback user = Some f \<longrightarrow> f c st = Inr st' \<longrightarrow> loop_frame st st')"

lemma foldR_frame:
  fixes st :: "'z conn_world_scheme"
  assumes "foldR f calls st = Inr st'" and "\<And>call s s'. f call s = Inr s' \<Longrightarrow> loop_frame s s'"
  shows "loop_frame st st'"
  using assms(1)
proof (induction calls arbitrary: st)
  case (Cons call calls)
  then obtain s where "f call st = Inr s" "foldR f calls s = Inr st'" by (auto simp: res_iffs)
  with Cons.IH assms(2) show ?case using loop_frame_trans by blast
qed simp

lemma script_benign: "benign (user_callbacks sc)"
  by (auto simp: benign_def user_callbacks_def res_iffs intro: foldR_frame conn_call_frame)

section \<open>Events and functors of a connection\<close>

text \<open>\<open>handleClose\<close> disconnects the connection and then calls the close callback.\<close>

lemma handleClose_parts:
  fixes st :: "'z conn_world_scheme"
  assumes "TcpConnection_handleClose cbs c st = Inr st'" and "benign cbs"
  obtains s x x' where "loop_frame st s" "conns st c = Some x" "conn_state x \<noteq> kDisconnected"
    "conns s c = Some x'" "conn_state x' = kDisconnected" "closeCallback cbs c s = Inr st'" "isInLoopThread s"
proof -
  from assms(1) obtain x s1 s2 s where x: "conns st c = Some x" "conn_state x = kConnected \<or> conn_state x = kDisconnecting"
    and s1: "setState st c kDisconnected = Inr s1" and s2: "Channel_disableAll s1 (conn_channel x) = Inr s2"
    and s: "connectionCallback cbs c s2 = Inr s" and cl: "closeCallback cbs c s = Inr st'" and t: "isInLoopThread st"
    by (auto simp: TcpConnection_handleClose_def res_iffs assertInLoopThread_def conn_deref_eq split: if_splits)
  have f1: "loop_frame st s1" using s1 x(1) by (rule setState_frame) simp
  have f2: "loop_frame s1 s2"
    using s2 by (auto simp: Channel_disableAll_def dest!: change_events_frame poller_loop_frame)
  have f3: "loop_frame s2 s" using s assms(2) by (simp add: benign_def)
  have k: "conns s1 c = Some (x\<lparr>conn_state := kDisconnected\<rparr>)" using s1 x(1) by (auto simp: setState_def)
  have f: "loop_frame s1 s" using f2 f3 by (rule loop_frame_trans)
  then obtain x' where x': "conns s c = Some x'" using k unfolding loop_frame_def conns_kept_def by blast
  with f k have "conn_kept (x\<lparr>conn_state := kDisconnected\<rparr>) x'" unfolding loop_frame_def conns_kept_def by blast
  then have d: "conn_state x' = kDisconnected" by (simp add: conn_kept_def)
  have g: "loop_frame st s" using f1 f by (rule loop_frame_trans)
  then have "isInLoopThread s" using t by (simp add: loop_frame_def isInLoopThread_def)
  then show ?thesis using that [OF g x(1) _ x' d cl] x(2) by auto
qed

definition closes :: "'z conn_world_scheme conn_callbacks \<Rightarrow> nat \<Rightarrow> 'z conn_world_scheme \<Rightarrow> 'z conn_world_scheme \<Rightarrow> bool" where
  "closes cbs c st st' \<longleftrightarrow> (\<exists>s x x'. loop_frame st s \<and> conns st c = Some x \<and> conn_state x \<noteq> kDisconnected \<and>
     conns s c = Some x' \<and> conn_state x' = kDisconnected \<and> closeCallback cbs c s = Inr st')"

lemma handleClose_closes:
  fixes st :: "'z conn_world_scheme"
  shows "TcpConnection_handleClose cbs c st = Inr st' \<Longrightarrow> benign cbs \<Longrightarrow> closes cbs c st st'"
  by (erule (1) handleClose_parts) (auto simp: closes_def)

lemma closes_after:
  assumes "loop_frame st st1" and "closes cbs c st1 st'"
  shows "closes cbs c st st'"
proof -
  from assms(2) obtain s x x' where s: "loop_frame st1 s" "conns st1 c = Some x" "conn_state x \<noteq> kDisconnected"
    "conns s c = Some x'" "conn_state x' = kDisconnected" "closeCallback cbs c s = Inr st'"
    by (auto simp: closes_def)
  obtain y where y: "conns st c = Some y" using assms(1) s(2) unfolding loop_frame_def conns_kept_def by blast
  then have "conn_kept y x" using assms(1) s(2) unfolding loop_frame_def conns_kept_def by blast
  then have "conn_state y \<noteq> kDisconnected" using s(3) by (auto simp: conn_kept_def)
  with y s loop_frame_trans [OF assms(1) s(1)] show ?thesis by (auto simp: closes_def)
qed

lemma handleRead_parts:
  fixes st :: "'z conn_world_scheme"
  assumes "TcpConnection_handleRead cbs c st = Inr st'" and "benign cbs"
  shows "loop_frame st st' \<or> closes cbs c st st'"
proof -
  from assms(1) obtain x b where x: "conns st c = Some x"
    and r: "messageCallback cbs c (pollReturnTime st) (conn_put st c (x\<lparr>inputBuffer := b\<rparr>)) = Inr st' \<or>
      TcpConnection_handleClose cbs c (conn_put st c (x\<lparr>inputBuffer := b\<rparr>)) = Inr st' \<or>
      st' = conn_put st c (x\<lparr>inputBuffer := b\<rparr>)"
    by (fastforce simp: TcpConnection_handleRead_def res_iffs assertInLoopThread_def conn_deref_eq Let_def split: if_splits)
  have f: "loop_frame st (conn_put st c (x\<lparr>inputBuffer := b\<rparr>))" using x by (rule conn_put_frame) (simp add: conn_kept_def)
  have m: "loop_frame (conn_put st c (x\<lparr>inputBuffer := b\<rparr>)) st'"
    if "messageCallback cbs c (pollReturnTime st) (conn_put st c (x\<lparr>inputBuffer := b\<rparr>)) = Inr st'"
    using assms(2) that by (auto simp: benign_def)
  show ?thesis using r f m closes_after [OF f handleClose_closes [OF _ assms(2)]] loop_frame_trans [OF f] by blast
qed

text \<open>The end of \<open>handleWrite\<close>, once the output buffer is empty.\<close>

lemma write_drained_frame:
  fixes st :: "'z conn_world_scheme"
  assumes "loop_frame st s1" and "Channel_disableWriting s1 p = Inr s2"
    and "(let s3 = (if w then queueInLoop (F_writeComplete c) s2 else s2) in
      if d then shutdownInLoop c s3 else Inr s3) = Inr st'"
  shows "loop_frame st st'"
proof -
  let ?s3 = "if w then queueInLoop (F_writeComplete c) s2 else s2"
  have "loop_frame s1 s2" using assms(2)
    by (auto simp: Channel_disableWriting_def dest!: change_events_frame poller_loop_frame)
  moreover have "loop_frame s2 ?s3" by (simp add: queueInLoop_frame_conn)
  moreover have "loop_frame ?s3 st'"
    using assms(3) by (cases d) (auto simp: Let_def simp del: if_split dest: shutdownInLoop_frame)
  ultimately show ?thesis using assms(1) by (meson loop_frame_trans)
qed

lemma handleWrite_cases:
  assumes "TcpConnection_handleWrite cbs c st = Inr st'"
  obtains (nothing) "st' = st"
  | (part) x b w where "conns st c = Some x" "st' = conn_put st c (x\<lparr>outputBuffer := b, sock_written := w\<rparr>)"
  | (drained) x b w s2 where "conns st c = Some x"
      "Channel_disableWriting (conn_put st c (x\<lparr>outputBuffer := b, sock_written := w\<rparr>)) (conn_channel x) = Inr s2"
      "(let s3 = (if wcb_set cbs then queueInLoop (F_writeComplete c) s2 else s2) in
        if conn_state x = kDisconnecting then shutdownInLoop c s3 else Inr s3) = Inr st'"
proof -
  from assms obtain x ch where x: "conns st c = Some x" "isInLoopThread st" "chan_deref st (conn_channel x) = Inr ch"
    by (auto simp: TcpConnection_handleWrite_def res_iffs assertInLoopThread_def conn_deref_eq split: if_splits)
  consider "st' = st"
    | b w where "st' = conn_put st c (x\<lparr>outputBuffer := b, sock_written := w\<rparr>)"
    | b w s2 where "Channel_disableWriting (conn_put st c (x\<lparr>outputBuffer := b, sock_written := w\<rparr>)) (conn_channel x) = Inr s2"
      "(let s3 = (if wcb_set cbs then queueInLoop (F_writeComplete c) s2 else s2) in
        if conn_state x = kDisconnecting then shutdownInLoop c s3 else Inr s3) = Inr st'"
    using assms x unfolding TcpConnection_handleWrite_def assertInLoopThread_def
    by (cases "write_answer x (readableBytes (outputBuffer x))")
      (auto simp: res_iffs Let_def split: if_split_asm)
  then show ?thesis
  proof cases
    case 1
    then show ?thesis by (rule nothing)
  next
    case (2 b w)
    then show ?thesis by (rule part [OF x(1)])
  next
    case (3 b w s2)
    then show ?thesis by (rule drained [OF x(1)])
  qed
qed

lemma handleWrite_frame:
  fixes st :: "'z conn_world_scheme"
  assumes "TcpConnection_handleWrite cbs c st = Inr st'"
  shows "loop_frame st st'"
  using assms
proof (cases rule: handleWrite_cases)
  case (part x b w)
  then show ?thesis by (auto intro!: conn_put_frame simp: conn_kept_def)
next
  case (drained x b w s2)
  have "loop_frame st (conn_put st c (x\<lparr>outputBuffer := b, sock_written := w\<rparr>))"
    using drained(1) by (rule conn_put_frame) (simp add: conn_kept_def)
  from write_drained_frame [OF this drained(2,3)] show ?thesis .
qed simp

lemma event_parts:
  fixes st :: "'z conn_world_scheme"
  assumes "conn_channel_callback cbs c ev st = Inr st'" and "benign cbs"
  shows "loop_frame st st' \<or> closes cbs c st st'"
  using assms
  by (cases ev) (auto simp: TcpConnection_handleError_def res_iffs
      dest: handleRead_parts handleWrite_frame handleClose_closes)

lemma connectEstablished_frame:
  fixes st :: "'z conn_world_scheme"
  assumes "connectEstablished cbs c st = Inr st'" and "benign cbs"
  shows "loop_frame st st'"
proof -
  from assms(1) obtain x s1 ch s2 where x: "conns st c = Some x" "conn_state x = kConnecting"
    and s1: "setState st c kConnected = Inr s1"
    and s2: "Channel_enableReading (chan_put s1 (conn_channel x) (Channel_tie ch)) (conn_channel x) = Inr s2"
    and cb: "connectionCallback cbs c s2 = Inr st'"
    by (auto simp: connectEstablished_def res_iffs assertInLoopThread_def conn_deref_eq split: if_splits)
  have "loop_frame st s1" using s1 x(1) by (rule setState_frame) (simp add: x(2))
  moreover have "poller_frame s1 s2" using s2 by (auto simp: Channel_enableReading_def dest!: change_events_frame)
  moreover have "loop_frame s2 st'" using cb assms(2) by (simp add: benign_def)
  ultimately show ?thesis by (meson loop_frame_trans poller_loop_frame)
qed

lemma connectDestroyed_frame:
  fixes st :: "'z conn_world_scheme"
  assumes "connectDestroyed cbs c st = Inr st'" and "benign cbs"
  shows "loop_frame st st'"
proof -
  from assms(1) obtain x where x: "conns st c = Some x" and t: "isInLoopThread st"
    by (auto simp: connectDestroyed_def bindR_eq_Inr assertInLoopThread_def conn_deref_eq split: if_split_asm)
  with assms(1) obtain s2 where s2: "(if conn_state x = kConnected
              then bindR (setState st c kDisconnected) (\<lambda>st1.
                     bindR (Channel_disableAll st1 (conn_channel x)) (connectionCallback cbs c))
              else Inr st) = Inr s2" and r: "Channel_remove s2 (conn_channel x) = Inr st'"
    unfolding connectDestroyed_def assertInLoopThread_def
    by (cases "conn_state x = kConnected") (auto simp: bindR_eq_Inr)
  have "loop_frame st s2"
  proof (cases "conn_state x = kConnected")
    case True
    then obtain s1 s where s1: "setState st c kDisconnected = Inr s1" and s: "Channel_disableAll s1 (conn_channel x) = Inr s"
      and cb: "connectionCallback cbs c s = Inr s2" using s2 by (auto simp: res_iffs)
    have "loop_frame st s1" using s1 x by (rule setState_frame) simp
    moreover have "poller_frame s1 s" using s by (auto simp: Channel_disableAll_def dest!: change_events_frame)
    moreover have "loop_frame s s2" using cb assms(2) by (simp add: benign_def)
    ultimately show ?thesis by (meson loop_frame_trans poller_loop_frame)
  qed (use s2 in simp)
  moreover have "loop_frame s2 st'" using Channel_remove_frame [OF r] by (rule poller_loop_frame)
  ultimately show ?thesis by (rule loop_frame_trans)
qed

lemma functor_parts:
  fixes st :: "'z conn_world_scheme"
  assumes "exec_conn_functor cbs f st = Inr st'" and "benign cbs"
  shows "loop_frame st st' \<or> (\<exists>c. closes cbs c st st')"
proof (cases f)
  case (F_forceCloseInLoop c)
  then show ?thesis using assms
    by (auto simp: forceCloseInLoop_def res_iffs split: if_splits dest: handleClose_closes)
next
  case (F_writeComplete c)
  then obtain g where "writeCompleteCallback cbs = Some g" "g c st = Inr st'"
    using assms(1) by (auto split: option.splits)
  then show ?thesis using assms(2) unfolding benign_def by blast
qed (use assms in \<open>auto simp del: exec_timer_functor.simps dest: sendInLoop_frame shutdownInLoop_frame
    connectEstablished_frame connectDestroyed_frame exec_timer_functor_frame\<close>)

end
