(* ===== verification/Server_Safety.thy ===== *)
theory Server_Safety
  imports Server_Frame
begin

text \<open>
  Safety of the server's table of connections under every interleaving of the threads: the loops'
  queues, the connections' states and \<open>connections_\<close> stay consistent, so that the assertion in
  \<open>TcpServer::removeConnectionInLoop\<close> never fails and every live connection can be found by its name.
\<close>

section \<open>The loops of the server\<close>

text \<open>The connections and the queue of a loop, in focus or not.\<close>

definition conns_of :: "server_world \<Rightarrow> nat \<Rightarrow> nat \<rightharpoonup> TcpConnection" where
  "conns_of st l = (if l = loop_id st then conns st
     else case other_loops st l of None \<Rightarrow> Map.empty | Some w \<Rightarrow> conns w)"

definition queue_of :: "server_world \<Rightarrow> nat \<Rightarrow> Functor list" where
  "queue_of st l = (if l = loop_id st then pendingFunctors st
     else case other_loops st l of None \<Rightarrow> [] | Some w \<Rightarrow> pendingFunctors w)"

definition known_loop :: "server_world \<Rightarrow> nat \<Rightarrow> bool" where
  "known_loop st l \<longleftrightarrow> l = loop_id st \<or> other_loops st l \<noteq> None"

text \<open>Two states with the same server and, but for their queues, the same loops.\<close>

definition same_server :: "server_world \<Rightarrow> server_world \<Rightarrow> bool" where
  "same_server st st' \<longleftrightarrow> conns_of st' = conns_of st \<and> known_loop st' = known_loop st \<and>
     srv_loop st' = srv_loop st \<and> srv_ipPort st' = srv_ipPort st \<and> srv_name st' = srv_name st \<and>
     nextConnId st' = nextConnId st \<and> connections st' = connections st \<and> conn_loop st' = conn_loop st \<and>
     threadPool st' = threadPool st \<and> loops_ok st' = loops_ok st"

definition same_view :: "server_world \<Rightarrow> server_world \<Rightarrow> bool" where
  "same_view st st' \<longleftrightarrow> same_server st st' \<and> queue_of st' = queue_of st"

lemma same_server_trans: "same_server s1 s2 \<Longrightarrow> same_server s2 s3 \<Longrightarrow> same_server s1 s3"
  by (simp add: same_server_def)

lemma same_view_trans: "same_view s1 s2 \<Longrightarrow> same_view s2 s3 \<Longrightarrow> same_view s1 s3"
  by (auto simp: same_view_def intro: same_server_trans)

lemma same_view_refl [simp]: "same_view st st" "same_server st st"
  by (simp_all add: same_view_def same_server_def)

lemma focus_view:
  assumes "focus l st = Inr st'" and "loops_ok st"
  shows "same_view st st'" and "loop_id st' = l" and "this_thread st' = this_thread st"
proof -
  show "loop_id st' = l" "this_thread st' = this_thread st"
    using assms by (auto simp: focus_def loops_ok_def acceptor_world.defs server_world.defs split: if_splits option.splits)
  show "same_view st st'"
  proof (cases "l = loop_id st")
    case True
    then show ?thesis using assms(1) by simp
  next
    case False
    then obtain w where w: "other_loops st l = Some w" "loop_id w = l"
      and st': "st' = acceptor_world.extend (w\<lparr>this_thread := this_thread st\<rparr>)
                  (server_world.fields
                     ((other_loops st)(l := None, loop_id st \<mapsto> acceptor_world.truncate st))
                     (srv_loop st) (srv_ipPort st) (srv_name st) (threadPool st) (srv_started st)
                     (nextConnId st) (connections st) (conn_loop st))"
      using assms by (auto simp: focus_def loops_ok_def split: option.splits)
    have f: "loop_id st' = l" "conns st' = conns w" "pendingFunctors st' = pendingFunctors w"
      "other_loops st' = (other_loops st)(l := None, loop_id st \<mapsto> acceptor_world.truncate st)"
      "srv_loop st' = srv_loop st" "srv_ipPort st' = srv_ipPort st" "srv_name st' = srv_name st"
      "nextConnId st' = nextConnId st" "connections st' = connections st" "conn_loop st' = conn_loop st"
      "threadPool st' = threadPool st"
      using w(2) by (simp_all add: st' acceptor_world.defs server_world.defs)
    have t: "loop_id (acceptor_world.truncate st) = loop_id st" "conns (acceptor_world.truncate st) = conns st"
      "pendingFunctors (acceptor_world.truncate st) = pendingFunctors st"
      by (simp_all add: acceptor_world.defs)
    have "conns_of st' = conns_of st" "queue_of st' = queue_of st"
      using False w f t by (auto simp: conns_of_def queue_of_def fun_eq_iff)
    moreover have "loops_ok st' = loops_ok st" using False assms(2) f(1,4) t(1) by (auto simp: loops_ok_def)
    moreover have "known_loop st' = known_loop st" using False w(1) f(1,4) by (auto simp: known_loop_def fun_eq_iff)
    ultimately show ?thesis using f by (simp add: same_view_def same_server_def)
  qed
qed

section \<open>The table of connections\<close>

text \<open>
  \<open>C\<close> and \<open>Q\<close> are the connections and the queue of each loop, \<open>b\<close> is the base loop, \<open>nm\<close> the name
  given with an id, \<open>k\<close> the next id, \<open>T\<close> is \<open>connections_\<close> and \<open>L\<close> the loop of each connection.
\<close>

definition table_ok ::
    "(nat \<Rightarrow> nat \<rightharpoonup> TcpConnection) \<Rightarrow> (nat \<Rightarrow> Functor list) \<Rightarrow> nat \<Rightarrow> (int \<Rightarrow> string) \<Rightarrow> int \<Rightarrow>
     (string \<rightharpoonup> nat) \<Rightarrow> (nat \<rightharpoonup> nat) \<Rightarrow> bool" where
  "table_ok C Q b nm k T L \<longleftrightarrow>
     (\<forall>l c x. C l c = Some x \<longrightarrow> L c = Some l \<and> (\<exists>i. 1 \<le> i \<and> i < k \<and> conn_name x = nm i) \<and>
        (conn_state x \<noteq> kDisconnected \<longrightarrow> T (conn_name x) = Some c)) \<and>
     (\<forall>n c. T n = Some c \<longrightarrow> (\<exists>l x. C l c = Some x \<and> conn_name x = n)) \<and>
     distinct (filter is_removal (Q b)) \<and>
     (\<forall>c. F_removeConnectionInLoop c \<in> set (Q b) \<longrightarrow>
        (\<exists>l x. C l c = Some x \<and> conn_state x = kDisconnected \<and> T (conn_name x) = Some c)) \<and>
     (\<forall>l c. F_removeConnectionInLoop c \<in> set (Q l) \<longrightarrow> l = b)"

lemma is_removal_iff: "is_removal f \<longleftrightarrow> (\<exists>c. f = F_removeConnectionInLoop c)"
  by (cases f) auto

lemma removal_in_filter:
  "F_removeConnectionInLoop c \<in> set q \<longleftrightarrow> F_removeConnectionInLoop c \<in> set (filter is_removal q)"
  by simp

lemma table_okD:
  assumes "table_ok C Q b nm k T L"
  shows "C l c = Some x \<Longrightarrow> L c = Some l"
    and "C l c = Some x \<Longrightarrow> \<exists>i. 1 \<le> i \<and> i < k \<and> conn_name x = nm i"
    and "C l c = Some x \<Longrightarrow> conn_state x \<noteq> kDisconnected \<Longrightarrow> T (conn_name x) = Some c"
    and "T n = Some c \<Longrightarrow> \<exists>l x. C l c = Some x \<and> conn_name x = n"
    and "distinct (filter is_removal (Q b))"
    and "F_removeConnectionInLoop c \<in> set (Q b) \<Longrightarrow>
      \<exists>l x. C l c = Some x \<and> conn_state x = kDisconnected \<and> T (conn_name x) = Some c"
    and "F_removeConnectionInLoop c \<in> set (Q l) \<Longrightarrow> l = b"
  using assms unfolding table_ok_def by blast+

lemma table_unique:
  assumes "table_ok C Q b nm k T L" and "C l c = Some x" and "C l' c = Some x'"
  shows "l' = l" and "x' = x"
  using table_okD(1) [OF assms(1,2)] table_okD(1) [OF assms(1,3)] assms(2,3) by auto

text \<open>An operation that only changes one loop.\<close>

lemma table_kept:
  assumes t: "table_ok C Q b nm k T L" and k: "conns_kept (C l) m" and q: "filter is_removal q = filter is_removal (Q l)"
  shows "table_ok (C(l := m)) (Q(l := q)) b nm k T L"
proof -
  have old: "\<exists>x. C l' c = Some x \<and> conn_kept x x'" if "(C(l := m)) l' c = Some x'" for l' c x'
  proof (cases "l' = l")
    case True
    then have "m c = Some x'" using that by simp
    then obtain x where "C l c = Some x" using k unfolding conns_kept_def by blast
    then show ?thesis using True k \<open>m c = Some x'\<close> unfolding conns_kept_def by blast
  qed (use that in \<open>simp add: conn_kept_def\<close>)
  have new: "\<exists>x'. (C(l := m)) l' c = Some x' \<and> conn_kept x x'" if "C l' c = Some x" for l' c x
  proof (cases "l' = l")
    case True
    then have "C l c = Some x" using that by simp
    moreover obtain x' where "m c = Some x'" using calculation k unfolding conns_kept_def by blast
    ultimately show ?thesis using True k unfolding conns_kept_def by auto
  qed (use that in \<open>simp add: conn_kept_def\<close>)
  have fil: "filter is_removal ((Q(l := q)) l') = filter is_removal (Q l')" for l' using q by simp
  have rem: "F_removeConnectionInLoop c \<in> set ((Q(l := q)) l') \<longleftrightarrow> F_removeConnectionInLoop c \<in> set (Q l')" for c l'
    by (simp only: removal_in_filter [of c "(Q(l := q)) l'"] removal_in_filter [of c "Q l'"] fil)
  show ?thesis unfolding table_ok_def
  proof (intro conjI allI impI)
    fix l' c x' assume "(C(l := m)) l' c = Some x'"
    then obtain x where x: "C l' c = Some x" "conn_kept x x'" using old by blast
    show "L c = Some l'" using table_okD(1) [OF t x(1)] .
    show "\<exists>i. 1 \<le> i \<and> i < k \<and> conn_name x' = nm i" using table_okD(2) [OF t x(1)] x(2) by (simp add: conn_kept_def)
    show "T (conn_name x') = Some c" if "conn_state x' \<noteq> kDisconnected"
      using table_okD(3) [OF t x(1)] x(2) that by (auto simp: conn_kept_def)
  next
    fix n c assume "T n = Some c"
    then obtain l' x where x: "C l' c = Some x" "conn_name x = n" using table_okD(4) [OF t] by blast
    from new [OF x(1)] x(2) show "\<exists>l' x'. (C(l := m)) l' c = Some x' \<and> conn_name x' = n"
      unfolding conn_kept_def by metis
  next
    show "distinct (filter is_removal ((Q(l := q)) b))" unfolding fil by (rule table_okD(5) [OF t])
  next
    fix c assume "F_removeConnectionInLoop c \<in> set ((Q(l := q)) b)"
    then obtain l' x where x: "C l' c = Some x" "conn_state x = kDisconnected" "T (conn_name x) = Some c"
      unfolding rem using table_okD(6) [OF t] by blast
    from new [OF x(1)] x(2,3) show "\<exists>l' x'. (C(l := m)) l' c = Some x' \<and> conn_state x' = kDisconnected \<and>
        T (conn_name x') = Some c" unfolding conn_kept_def by metis
  next
    fix l' c assume "F_removeConnectionInLoop c \<in> set ((Q(l := q)) l')"
    then show "l' = b" unfolding rem by (rule table_okD(7) [OF t])
  qed
qed

text \<open>A removal is queued, made, or taken from the queue.\<close>

lemma table_enqueue:
  assumes t: "table_ok C Q b nm k T L" and x: "C l c = Some x" "conn_state x = kDisconnected"
    "T (conn_name x) = Some c" and new: "F_removeConnectionInLoop c \<notin> set (Q b)"
  shows "table_ok C (Q(b := Q b @ [F_removeConnectionInLoop c])) b nm k T L"
  using t new x unfolding table_ok_def by (auto split: if_splits)

lemma table_erase:
  assumes t: "table_ok C Q b nm k T L" and x: "C l c = Some x" "conn_state x = kDisconnected"
    "T (conn_name x) = Some c" and no: "F_removeConnectionInLoop c \<notin> set (Q b)"
  shows "table_ok C Q b nm k (T(conn_name x := None)) L"
  using assms unfolding table_ok_def by (auto split: if_splits) (metis option.inject)+

lemma table_pop:
  assumes "table_ok C Q b nm k T L" and "Q l = f # fs"
  shows "table_ok C (Q(l := fs)) b nm k T L"
proof -
  have sub: "set ((Q(l := fs)) l') \<subseteq> set (Q l')" for l' using assms(2) by auto
  have "distinct (filter is_removal ((Q(l := fs)) b))"
    using table_okD(5) [OF assms(1)] assms(2) by (auto split: if_splits)
  with assms(1) sub show ?thesis unfolding table_ok_def by blast
qed

text \<open>A connection with a fresh address and the next name.\<close>

lemma table_new:
  assumes t: "table_ok C Q b nm k T L" and c: "L c = None" and k: "1 \<le> k" and inj: "inj nm"
    and x: "conn_name x = nm k" "conn_state x = kConnecting"
  shows "table_ok (C(l := (C l)(c \<mapsto> x))) Q b nm (k + 1) (T(nm k \<mapsto> c)) (L(c \<mapsto> l))"
proof -
  have fresh: "conn_name y \<noteq> nm k" "d \<noteq> c" if y: "C l' d = Some y" for l' d y
  proof -
    obtain i where "i < k" "conn_name y = nm i" using table_okD(2) [OF t y] by blast
    then show "conn_name y \<noteq> nm k" using inj_eq [OF inj, of i k] by simp
    show "d \<noteq> c" using table_okD(1) [OF t y] c by auto
  qed
  have old: "C l' d \<noteq> None \<Longrightarrow> (C(l := (C l)(c \<mapsto> x))) l' d = C l' d" for l' d using fresh(2) by fastforce
  show ?thesis unfolding table_ok_def
  proof (intro conjI allI impI)
    fix l' d y assume a: "(C(l := (C l)(c \<mapsto> x))) l' d = Some y"
    have r: "(L(c \<mapsto> l)) d = Some l' \<and> (\<exists>i. 1 \<le> i \<and> i < k + 1 \<and> conn_name y = nm i) \<and>
        (conn_state y \<noteq> kDisconnected \<longrightarrow> (T(nm k \<mapsto> c)) (conn_name y) = Some d)"
    proof (cases "l' = l \<and> d = c")
      case True
      then have "y = x" using a by simp
      then show ?thesis using True x(1) k by (auto intro: exI [of _ k])
    next
      case False
      then have od: "C l' d = Some y" using a by (cases "l' = l") simp_all
      obtain i where "1 \<le> i" "i < k" "conn_name y = nm i" using table_okD(2) [OF t od] by blast
      then have "\<exists>i. 1 \<le> i \<and> i < k + 1 \<and> conn_name y = nm i" by (intro exI [of _ i]) simp
      then show ?thesis using table_okD(1) [OF t od] table_okD(3) [OF t od] fresh [OF od] by simp
    qed
    then show "(L(c \<mapsto> l)) d = Some l'" "\<exists>i. 1 \<le> i \<and> i < k + 1 \<and> conn_name y = nm i" by blast+
    show "(T(nm k \<mapsto> c)) (conn_name y) = Some d" if "conn_state y \<noteq> kDisconnected" using r that by blast
  next
    fix n d assume "(T(nm k \<mapsto> c)) n = Some d"
    then show "\<exists>l' y. (C(l := (C l)(c \<mapsto> x))) l' d = Some y \<and> conn_name y = n"
      using table_okD(4) [OF t] old x(1) by (cases "n = nm k") (force split: if_splits)+
  next
    show "distinct (filter is_removal (Q b))" by (rule table_okD(5) [OF t])
  next
    fix d assume "F_removeConnectionInLoop d \<in> set (Q b)"
    then obtain l' y where y: "C l' d = Some y" "conn_state y = kDisconnected" "T (conn_name y) = Some d"
      using table_okD(6) [OF t] by blast
    with old [of l' d] fresh(1) [OF y(1)]
    show "\<exists>l' y. (C(l := (C l)(c \<mapsto> x))) l' d = Some y \<and> conn_state y = kDisconnected \<and>
        (T(nm k \<mapsto> c)) (conn_name y) = Some d"
      by (intro exI [of _ l'] exI [of _ y]) auto
  next
    fix l' d assume "F_removeConnectionInLoop d \<in> set (Q l')"
    then show "l' = b" by (rule table_okD(7) [OF t])
  qed
qed

section \<open>The invariant of the server\<close>

definition full_name :: "server_world \<Rightarrow> int \<Rightarrow> string" where
  "full_name st i = srv_name st @ ''-'' @ srv_ipPort st @ ''#'' @ to_string i"

lemma inj_full_name: "inj (full_name st)"
  by (auto simp: inj_def full_name_def to_string_inject)

text \<open>The buffer of \<open>newConnection\<close> is never too short.\<close>

lemma server_connName_full:
  assumes "srv_ipPort st = toIpPort a" and "1 \<le> nextConnId st" and "nextConnId st < 2 ^ 31"
  shows "server_connName st = full_name st (nextConnId st)"
proof -
  define n where "n = nat (nextConnId st)"
  have n: "nextConnId st = int n" using assms(2) by (simp add: n_def)
  then have "n < 10 ^ 10" using assms(3) by simp
  then have "length (dec_nat n) \<le> 10" by (intro length_dec_nat) simp_all
  then show ?thesis using length_toIpPort [of a] unfolding server_connName_def full_name_def n assms(1)
    by (simp add: snprintf_buf_def)
qed

definition srv_inv :: "server_world \<Rightarrow> bool" where
  "srv_inv st \<longleftrightarrow> loops_ok st \<and> (\<exists>a. srv_ipPort st = toIpPort a) \<and> 1 \<le> nextConnId st \<and> nextConnId st < 2 ^ 31 \<and>
     table_ok (conns_of st) (queue_of st) (srv_loop st) (full_name st) (nextConnId st) (connections st) (conn_loop st)"

lemma full_name_cong: "srv_name st' = srv_name st \<Longrightarrow> srv_ipPort st' = srv_ipPort st \<Longrightarrow> full_name st' = full_name st"
  by (simp add: full_name_def fun_eq_iff)

lemma same_server_inv:
  assumes "same_server st st'" and "srv_inv st"
    and "table_ok (conns_of st) (queue_of st') (srv_loop st) (full_name st) (nextConnId st) (connections st) (conn_loop st)"
  shows "srv_inv st'"
  using assms full_name_cong [of st' st] by (simp add: srv_inv_def same_server_def)

lemma same_view_inv: "same_view st st' \<Longrightarrow> srv_inv st \<Longrightarrow> srv_inv st'"
  using same_server_inv [of st st'] by (simp add: same_view_def srv_inv_def)

lemma loop_frame_server:
  fixes st :: server_world
  assumes "loop_frame st st'"
  shows "other_loops st' = other_loops st" "srv_loop st' = srv_loop st" "srv_ipPort st' = srv_ipPort st"
    "srv_name st' = srv_name st" "nextConnId st' = nextConnId st" "connections st' = connections st"
    "conn_loop st' = conn_loop st" "threadPool st' = threadPool st" "loop_id st' = loop_id st"
  using assms by (cases st; cases st'; simp add: loop_frame_def)+

lemma views_in_focus:
  assumes "loop_id st' = loop_id st" and "other_loops st' = other_loops st"
  shows "conns_of st' = (conns_of st)(loop_id st := conns st')"
    "queue_of st' = (queue_of st)(loop_id st := pendingFunctors st')" "loops_ok st' = loops_ok st"
    "known_loop st' = known_loop st"
  using assms by (auto simp: conns_of_def queue_of_def loops_ok_def known_loop_def fun_eq_iff)

lemma loop_frame_inv:
  assumes f: "loop_frame st st'" and inv: "srv_inv st"
  shows "srv_inv st'"
proof -
  note s = loop_frame_server [OF f]
  note v = views_in_focus [OF s(9,1)]
  have "table_ok (conns_of st') (queue_of st') (srv_loop st) (full_name st) (nextConnId st) (connections st) (conn_loop st)"
    unfolding v by (rule table_kept) (use f inv in \<open>simp_all add: srv_inv_def loop_frame_def conns_of_def queue_of_def\<close>)
  then show ?thesis using inv s v(3) full_name_cong [of st' st] by (simp add: srv_inv_def)
qed

lemma focus_known: "known_loop st l \<Longrightarrow> \<exists>s. focus l st = Inr s"
  by (cases "other_loops st l") (auto simp: focus_def known_loop_def)

text \<open>Queueing on another loop.\<close>

lemma on_loop_queue:
  assumes "loops_ok st" and "known_loop st l"
  obtains st' where "on_loop l (\<lambda>s. Inr (queueInLoop f s)) st = Inr st'" "same_server st st'"
    "queue_of st' = (queue_of st)(l := queue_of st l @ [f])" "loop_id st' = loop_id st" "this_thread st' = this_thread st"
proof -
  obtain s where s: "focus l st = Inr s" using focus_known [OF assms(2)] by blast
  note v = focus_view [OF s assms(1)]
  let ?s = "queueInLoop f s"
  have q: "loop_id ?s = loop_id s" "other_loops ?s = other_loops s" "pendingFunctors ?s = pendingFunctors s @ [f]"
    "conns ?s = conns s" "this_thread ?s = this_thread s"
    by (simp_all add: queueInLoop_def wakeup_def Let_def)
  note w = views_in_focus [OF q(1,2)]
  have own: "(conns_of s)(loop_id s := conns s) = conns_of s" "queue_of s (loop_id s) = pendingFunctors s"
    by (auto simp: conns_of_def queue_of_def)
  have same: "same_server s ?s"
    unfolding same_server_def w q own by (simp add: queueInLoop_def wakeup_def Let_def)
  have lk: "loops_ok ?s" "known_loop ?s (loop_id st)"
    using v(1) assms same by (auto simp: same_view_def same_server_def known_loop_def)
  then obtain st' where st': "focus (loop_id st) ?s = Inr st'" using focus_known by blast
  note u = focus_view [OF st' lk(1)]
  have "same_server st st'" using v(1) same u(1) by (auto simp: same_view_def intro: same_server_trans)
  moreover have "queue_of st' = (queue_of st)(l := queue_of st l @ [f])"
    using v(1,2) u(1) own(2) unfolding w q same_view_def by simp
  ultimately show ?thesis using that [of st'] s st' u(2,3) v(3) q(5) by (simp add: on_loop_def)
qed

section \<open>Removing a connection\<close>

lemma srv_invD:
  assumes "srv_inv st"
  shows "loops_ok st" and "table_ok (conns_of st) (queue_of st) (srv_loop st) (full_name st) (nextConnId st)
    (connections st) (conn_loop st)"
  using assms by (simp_all add: srv_inv_def)

text \<open>A disconnected connection that is in the table and whose removal nobody has asked for.\<close>

definition removable :: "server_world \<Rightarrow> nat \<Rightarrow> nat \<Rightarrow> TcpConnection \<Rightarrow> bool" where
  "removable st l c x \<longleftrightarrow> conns_of st l c = Some x \<and> conn_state x = kDisconnected \<and>
     connections st (conn_name x) = Some c \<and> F_removeConnectionInLoop c \<notin> set (queue_of st (srv_loop st))"

lemma removable_view: "same_view st st' \<Longrightarrow> removable st' l c x = removable st l c x"
  by (simp add: same_view_def same_server_def removable_def)

lemma conn_at_eq:
  assumes inv: "srv_inv st" and x: "conns_of st l c = Some x"
  shows "conn_loop st c = Some l" and "known_loop st l" and "conn_at st c = Inr x"
proof -
  show l: "conn_loop st c = Some l" using table_okD(1) [OF srv_invD(2) [OF inv] x] .
  show k: "known_loop st l" using x by (auto simp: conns_of_def known_loop_def split: if_splits option.splits)
  obtain s where s: "focus l st = Inr s" using focus_known [OF k] by blast
  have "conns_of s l c = Some x" "loop_id s = l"
    using focus_view [OF s srv_invD(1) [OF inv]] x by (simp_all add: same_view_def same_server_def)
  then have "conns s c = Some x" by (simp add: conns_of_def)
  then show "conn_at st c = Inr x" using l s by (simp add: conn_at_def)
qed

lemma removeInLoop_spec:
  assumes inv: "srv_inv st" and b: "focus (srv_loop st) st = Inr s0" "isInLoopThread s0" and r: "removable st l c x"
  obtains st' where "TcpServer_removeConnectionInLoop c st = Inr st'" "srv_inv st'"
    "connections st' = (connections st)(conn_name x := None)" "conns_of st' = conns_of st"
    "queue_of st' = (queue_of st)(l := queue_of st l @ [F_connectDestroyed c])" "loop_id st' = loop_id st"
proof -
  have x: "conns_of st l c = Some x" "conn_state x = kDisconnected" "connections st (conn_name x) = Some c"
    "F_removeConnectionInLoop c \<notin> set (queue_of st (srv_loop st))" using r by (auto simp: removable_def)
  note at = conn_at_eq [OF inv x(1)]
  let ?s = "st\<lparr>connections := (connections st)(conn_name x := None)\<rparr>"
  have v: "conns_of ?s = conns_of st" "queue_of ?s = queue_of st" "loops_ok ?s = loops_ok st" "known_loop ?s = known_loop st"
    "full_name ?s = full_name st"
    by (auto simp: conns_of_def queue_of_def loops_ok_def known_loop_def full_name_def fun_eq_iff)
  have "table_ok (conns_of st) (queue_of st) (srv_loop st) (full_name st) (nextConnId st)
      ((connections st)(conn_name x := None)) (conn_loop st)"
    by (rule table_erase [OF srv_invD(2) [OF inv] x])
  then have inv1: "srv_inv ?s" using inv v by (simp add: srv_inv_def)
  obtain st' where st': "on_loop l (\<lambda>s. Inr (queueInLoop (F_connectDestroyed c) s)) ?s = Inr st'" "same_server ?s st'"
    "queue_of st' = (queue_of ?s)(l := queue_of ?s l @ [F_connectDestroyed c])" "loop_id st' = loop_id ?s"
    by (rule on_loop_queue [of ?s l "F_connectDestroyed c"]) (use srv_invD(1) [OF inv] at(2) v(3,4) in simp_all)
  have "TcpServer_removeConnectionInLoop c st = Inr st'"
    using b at x(3) st'(1)
    by (simp add: TcpServer_removeConnectionInLoop_def base_assertInLoopThread_def assertInLoopThread_def conn_queue_def)
  moreover have "srv_inv st'"
  proof (rule same_server_inv [OF st'(2) inv1])
    have "table_ok ((conns_of ?s)(l := conns_of ?s l)) ((queue_of ?s)(l := queue_of ?s l @ [F_connectDestroyed c]))
       (srv_loop ?s) (full_name ?s) (nextConnId ?s) (connections ?s) (conn_loop ?s)"
      by (rule table_kept [OF srv_invD(2) [OF inv1]]) simp_all
    then show "table_ok (conns_of ?s) (queue_of st') (srv_loop ?s) (full_name ?s) (nextConnId ?s) (connections ?s) (conn_loop ?s)"
      unfolding st'(3) by simp
  qed
  moreover have "connections st' = (connections st)(conn_name x := None)" "conns_of st' = conns_of st"
    using st'(2) v(1) by (simp_all add: same_server_def)
  ultimately show ?thesis using that st'(3,4) v(2) by simp
qed

lemma removeConnection_inv:
  assumes inv: "srv_inv st" and r: "removable st l c x" and ok: "TcpServer_removeConnection c st = Inr st'"
  shows "srv_inv st'"
proof -
  obtain s s' where s: "focus (srv_loop st) st = Inr s"
    and s': "runInLoop (\<lambda>_. TcpServer_removeConnectionInLoop c) (F_removeConnectionInLoop c) s = Inr s'"
    and st': "focus (loop_id st) s' = Inr st'"
    using ok by (auto simp: TcpServer_removeConnection_def on_loop_def res_iffs)
  note v = focus_view [OF s srv_invD(1) [OF inv]]
  have inv1: "srv_inv s" using same_view_inv [OF v(1) inv] .
  have r1: "removable s l c x" using r removable_view [OF v(1)] by simp
  have b: "srv_loop s = loop_id s" using v(1,2) by (simp add: same_view_def same_server_def)
  have inv2: "srv_inv s'"
  proof (cases "isInLoopThread s")
    case True
    then have e: "TcpServer_removeConnectionInLoop c s = Inr s'" using s' by (simp add: runInLoop_def)
    have "focus (srv_loop s) s = Inr s" using b by simp
    from removeInLoop_spec [OF inv1 this True r1] e show ?thesis by (metis Inr_inject)
  next
    case False
    then have e: "s' = queueInLoop (F_removeConnectionInLoop c) s" using s' by (simp add: runInLoop_def)
    have q: "loop_id s' = loop_id s" "other_loops s' = other_loops s" "conns s' = conns s"
      "pendingFunctors s' = pendingFunctors s @ [F_removeConnectionInLoop c]"
      unfolding e by (simp_all add: queueInLoop_def wakeup_def Let_def)
    note w = views_in_focus [OF q(1,2)]
    have own: "(conns_of s)(loop_id s := conns s) = conns_of s" "pendingFunctors s = queue_of s (loop_id s)"
      by (auto simp: conns_of_def queue_of_def)
    have "same_server s s'"
      unfolding same_server_def w q own by (simp add: e queueInLoop_def wakeup_def Let_def)
    moreover have "table_ok (conns_of s) (queue_of s') (srv_loop s) (full_name s) (nextConnId s) (connections s) (conn_loop s)"
      unfolding w(2) q(4) own(2) b [symmetric]
      by (rule table_enqueue [OF srv_invD(2) [OF inv1], of l c x]) (use r1 in \<open>simp_all add: removable_def\<close>)
    ultimately show ?thesis using inv1 by (rule_tac same_server_inv)
  qed
  show ?thesis using same_view_inv [OF focus_view(1) [OF st' srv_invD(1) [OF inv2]] inv2] .
qed

section \<open>Steps of the server\<close>

lemma server_benign [simp]: "benign (server_callbacks user) = benign user"
  by (simp add: benign_def server_callbacks_def)

text \<open>A connection that a call has disconnected can be removed.\<close>

lemma close_removable:
  assumes inv: "srv_inv st" and f: "loop_frame st s" and x: "conns st c = Some x" "conn_state x \<noteq> kDisconnected"
    and x': "conns s c = Some x'" "conn_state x' = kDisconnected"
  shows "srv_inv s" and "removable s (loop_id s) c x'" and "conn_name x' = conn_name x"
proof -
  note t = srv_invD(2) [OF inv] and fs = loop_frame_server [OF f]
  show "srv_inv s" by (rule loop_frame_inv [OF f inv])
  have cx: "conns_of st (loop_id st) c = Some x" "conns_of s (loop_id s) c = Some x'"
    using x(1) x'(1) by (simp_all add: conns_of_def)
  have "conn_kept x x'" using f x(1) x'(1) unfolding loop_frame_def conns_kept_def by blast
  then show n: "conn_name x' = conn_name x" by (simp add: conn_kept_def)
  have "connections s (conn_name x') = Some c" using table_okD(3) [OF t cx(1) x(2)] fs(6) n by simp
  moreover have "F_removeConnectionInLoop c \<notin> set (queue_of st (srv_loop st))"
  proof
    assume "F_removeConnectionInLoop c \<in> set (queue_of st (srv_loop st))"
    then obtain l y where y: "conns_of st l c = Some y" "conn_state y = kDisconnected" using table_okD(6) [OF t] by blast
    then show False using table_unique(2) [OF t cx(1) y(1)] x(2) by simp
  qed
  moreover have "filter is_removal (queue_of s (srv_loop s)) = filter is_removal (queue_of st (srv_loop st))"
    using f unfolding fs(2) views_in_focus(2) [OF fs(9,1)]
    by (simp add: loop_frame_def queue_of_def)
  ultimately have "F_removeConnectionInLoop c \<notin> set (queue_of s (srv_loop s))"
    "connections s (conn_name x') = Some c" by (metis removal_in_filter)+
  with cx(2) x'(2) show "removable s (loop_id s) c x'" by (simp add: removable_def)
qed

lemma closes_inv:
  assumes inv: "srv_inv st" and cl: "closes (server_callbacks user) c st st'"
  shows "srv_inv st'"
proof -
  obtain s x x' where s: "loop_frame st s" "conns st c = Some x" "conn_state x \<noteq> kDisconnected" "conns s c = Some x'"
    "conn_state x' = kDisconnected" and rm: "TcpServer_removeConnection c s = Inr st'"
    using cl by (auto simp: closes_def server_callbacks_def)
  note r = close_removable [OF inv s]
  from removeConnection_inv [OF r(1,2) rm] show ?thesis .
qed

lemma pop_inv:
  assumes inv: "srv_inv st" and q: "pendingFunctors st = f # fs"
  shows "srv_inv (st\<lparr>pendingFunctors := fs\<rparr>)"
proof -
  let ?s = "st\<lparr>pendingFunctors := fs\<rparr>"
  have q': "queue_of st (loop_id st) = f # fs" using q by (simp add: queue_of_def)
  have v: "conns_of ?s = conns_of st" "queue_of ?s = (queue_of st)(loop_id st := fs)" "loops_ok ?s = loops_ok st"
    "full_name ?s = full_name st"
    by (auto simp: conns_of_def queue_of_def loops_ok_def full_name_def fun_eq_iff)
  show ?thesis using table_pop [OF srv_invD(2) [OF inv] q'] inv v by (simp add: srv_inv_def)
qed

lemma poller_frame_view:
  fixes st :: server_world
  assumes "poller_frame st st'"
  shows "same_view st st'"
proof -
  have "loop_frame st st'" using assms by (rule poller_loop_frame)
  moreover have "conns st' = conns st" "pendingFunctors st' = pendingFunctors st"
    using assms by (cases st; cases st'; simp add: poller_frame_def)+
  ultimately show ?thesis
    using loop_frame_server [of st st'] views_in_focus [of st' st]
    by (auto simp: same_view_def same_server_def conns_of_def queue_of_def)
qed

lemma Acceptor_listen_view:
  fixes st :: server_world
  assumes "Acceptor_listen ret st = Inr st'"
  shows "same_view st st'"
proof -
  obtain k where "Channel_enableReading (st\<lparr>listening := True, acceptSocket := k\<rparr>) (acceptChannel st) = Inr st'"
    using assms by (auto simp: Acceptor_listen_def res_iffs assertInLoopThread_def split: if_splits)
  then have "same_view (st\<lparr>listening := True, acceptSocket := k\<rparr>) st'"
    by (auto simp: Channel_enableReading_def intro: poller_frame_view dest: change_events_frame)
  moreover have "same_view st (st\<lparr>listening := True, acceptSocket := k\<rparr>)"
    by (auto simp: same_view_def same_server_def conns_of_def queue_of_def known_loop_def loops_ok_def fun_eq_iff)
  ultimately show ?thesis by (rule_tac same_view_trans)
qed

lemma on_loop_frame_inv:
  assumes "on_loop l f st = Inr st'" and "srv_inv st" and "\<And>s s'. f s = Inr s' \<Longrightarrow> loop_frame s s'"
  shows "srv_inv st'"
proof -
  obtain s s' where s: "focus l st = Inr s" "f s = Inr s'" "focus (loop_id st) s' = Inr st'"
    using assms(1) by (auto simp: on_loop_def res_iffs)
  have "srv_inv s" using focus_view(1) [OF s(1)] srv_invD(1) [OF assms(2)] assms(2) same_view_inv by blast
  then have "srv_inv s'" using loop_frame_inv [OF assms(3) [OF s(2)]] by blast
  then show ?thesis using focus_view(1) [OF s(3)] srv_invD(1) same_view_inv by blast
qed

section \<open>A new connection\<close>

lemma TcpConnection_new_effect:
  fixes st :: server_world
  assumes "TcpConnection_new loop name fd c p st = Inr st'"
  obtains x where "conns st' = (conns st)(c \<mapsto> x)" "conn_name x = name" "conn_state x = kConnecting"
    "pendingFunctors st' = pendingFunctors st" "loop_id st' = loop_id st" "other_loops st' = other_loops st"
    "srv_loop st' = srv_loop st" "srv_ipPort st' = srv_ipPort st" "srv_name st' = srv_name st"
    "nextConnId st' = nextConnId st" "connections st' = connections st" "conn_loop st' = conn_loop st"
    "threadPool st' = threadPool st" "this_thread st' = this_thread st"
  using assms by (auto simp: TcpConnection_new_def CheckLoopNotNull_def new_Channel_def res_iffs conn_put_def
      chan_put_def split: option.splits)

text \<open>The server when the connection has been made and is in the table, before it is established.\<close>

definition conn_made :: "server_world \<Rightarrow> nat \<Rightarrow> nat \<Rightarrow> EventLoopThreadPool \<Rightarrow> TcpConnection \<Rightarrow> server_world \<Rightarrow> bool" where
  "conn_made st c l pool x s \<longleftrightarrow>
     conn_name x = server_connName st \<and> conn_state x = kConnecting \<and>
     conns_of s = (conns_of st)(l := (conns_of st l)(c \<mapsto> x)) \<and> queue_of s = queue_of st \<and> loops_ok s \<and>
     known_loop s = known_loop st \<and> loop_id s = loop_id st \<and> this_thread s = this_thread st \<and>
     srv_loop s = srv_loop st \<and> srv_ipPort s = srv_ipPort st \<and> srv_name s = srv_name st \<and>
     nextConnId s = nextConnId st + 1 \<and> connections s = (connections st)(server_connName st \<mapsto> c) \<and>
     conn_loop s = (conn_loop st)(c \<mapsto> l) \<and> threadPool s = pool"

lemma conn_made_intro:
  assumes lk: "loops_ok st"
    and new: "on_loop l (TcpConnection_new (Some l) (server_connName st) fd c p)
       (st\<lparr>threadPool := pool, nextConnId := nextConnId st + 1\<rparr>) = Inr st2"
  shows "\<exists>x. conn_made st c l pool x
    (st2\<lparr>connections := (connections st2)(server_connName st \<mapsto> c), conn_loop := (conn_loop st2)(c \<mapsto> l)\<rparr>)"
proof -
  let ?s1 = "st\<lparr>threadPool := pool, nextConnId := nextConnId st + 1\<rparr>"
  let ?s3 = "st2\<lparr>connections := (connections st2)(server_connName st \<mapsto> c), conn_loop := (conn_loop st2)(c \<mapsto> l)\<rparr>"
  have v1: "conns_of ?s1 = conns_of st" "queue_of ?s1 = queue_of st" "loops_ok ?s1" "known_loop ?s1 = known_loop st"
    using lk by (auto simp: conns_of_def queue_of_def loops_ok_def known_loop_def fun_eq_iff)
  obtain s s2 where s: "focus l ?s1 = Inr s" "TcpConnection_new (Some l) (server_connName st) fd c p s = Inr s2"
    "focus (loop_id ?s1) s2 = Inr st2" using new by (auto simp: on_loop_def res_iffs)
  note f = focus_view [OF s(1) v1(3)]
  obtain x where x: "conns s2 = (conns s)(c \<mapsto> x)" "conn_name x = server_connName st" "conn_state x = kConnecting"
    and q: "pendingFunctors s2 = pendingFunctors s" "loop_id s2 = loop_id s" "other_loops s2 = other_loops s"
    "this_thread s2 = this_thread s"
    and sv: "srv_loop s2 = srv_loop s" "srv_ipPort s2 = srv_ipPort s" "srv_name s2 = srv_name s"
    "nextConnId s2 = nextConnId s" "connections s2 = connections s" "conn_loop s2 = conn_loop s" "threadPool s2 = threadPool s"
    using TcpConnection_new_effect [OF s(2)] by metis
  note w = views_in_focus [OF q(2,3)]
  have own: "conns s = conns_of s l" "pendingFunctors s = queue_of s l" using f(2) by (simp_all add: conns_of_def queue_of_def)
  have v2: "conns_of s2 = (conns_of st)(l := (conns_of st l)(c \<mapsto> x))" "queue_of s2 = queue_of st"
    "known_loop s2 = known_loop st"
    unfolding w q x own f(2) using f(1) v1 by (simp_all add: same_view_def same_server_def)
  have lk2: "loops_ok s2" using w(3) f(1) v1(3) by (simp add: same_view_def same_server_def)
  note g = focus_view [OF s(3) lk2]
  have u: "conns_of ?s3 = conns_of st2" "queue_of ?s3 = queue_of st2" "loops_ok ?s3 = loops_ok st2" "known_loop ?s3 = known_loop st2"
    by (simp_all add: conns_of_def queue_of_def loops_ok_def known_loop_def fun_eq_iff)
  have st2: "conns_of st2 = conns_of s2" "queue_of st2 = queue_of s2" "loops_ok st2 = loops_ok s2" "known_loop st2 = known_loop s2"
    "srv_loop st2 = srv_loop s2" "srv_ipPort st2 = srv_ipPort s2" "srv_name st2 = srv_name s2" "threadPool st2 = threadPool s2"
    "nextConnId st2 = nextConnId s2" "connections st2 = connections s2" "conn_loop st2 = conn_loop s2"
    using g(1) by (simp_all add: same_view_def same_server_def)
  have sf: "srv_loop s = srv_loop st" "srv_ipPort s = srv_ipPort st" "srv_name s = srv_name st" "threadPool s = pool"
    "nextConnId s = nextConnId st + 1" "connections s = connections st" "conn_loop s = conn_loop st"
    using f(1) by (simp_all add: same_view_def same_server_def)
  define s3 where "s3 = ?s3"
  have "conns_of s3 = (conns_of st)(l := (conns_of st l)(c \<mapsto> x))" "queue_of s3 = queue_of st" "loops_ok s3"
    "known_loop s3 = known_loop st"
    using lk2 by (simp_all only: s3_def u st2(1-4) v2)
  moreover have "loop_id s3 = loop_id st" "this_thread s3 = this_thread st"
    using g(2,3) f(3) q(4) by (simp_all add: s3_def)
  moreover have "srv_loop s3 = srv_loop st" "srv_ipPort s3 = srv_ipPort st" "srv_name s3 = srv_name st"
    "nextConnId s3 = nextConnId st + 1" "connections s3 = (connections st)(server_connName st \<mapsto> c)"
    "conn_loop s3 = (conn_loop st)(c \<mapsto> l)" "threadPool s3 = pool"
    by (simp_all add: s3_def st2 sv sf)
  ultimately have "conn_made st c l pool x s3" using x by (simp add: conn_made_def)
  then show ?thesis unfolding s3_def by blast
qed

lemma newConnection_parts:
  assumes "TcpServer_newConnection user c p fd peer st = Inr st'" and "loops_ok st"
  obtains l pool x s where "nextConnId st < 2 ^ 31 - 1" "getNextLoop (threadPool st) = Inr (l, pool)"
    "conn_made st c l pool x s"
    "on_loop l (runInLoop (exec_conn_functor (server_callbacks user)) (F_connectEstablished c)) s = Inr st'"
proof -
  obtain l pool st2 where k: "nextConnId st < 2 ^ 31 - 1" "getNextLoop (threadPool st) = Inr (l, pool)"
    and new: "on_loop l (TcpConnection_new (Some l) (server_connName st) fd c p)
       (st\<lparr>threadPool := pool, nextConnId := nextConnId st + 1\<rparr>) = Inr st2"
    and est: "on_loop l (runInLoop (exec_conn_functor (server_callbacks user)) (F_connectEstablished c))
       (st2\<lparr>connections := (connections st2)(server_connName st \<mapsto> c), conn_loop := (conn_loop st2)(c \<mapsto> l)\<rparr>) = Inr st'"
    using assms by (auto simp: TcpServer_newConnection_def base_assertInLoopThread_def assertInLoopThread_def
        res_iffs Let_def split: if_splits)
  then show ?thesis using conn_made_intro [OF assms(2) new] that by blast
qed

lemma conn_made_inv:
  assumes inv: "srv_inv st" and c: "conn_loop st c = None" and k: "nextConnId st < 2 ^ 31 - 1" and m: "conn_made st c l pool x s"
  shows "srv_inv s"
proof -
  note m' = m [unfolded conn_made_def]
  obtain a where a: "srv_ipPort st = toIpPort a" and k1: "1 \<le> nextConnId st" "nextConnId st < 2 ^ 31"
    using inv by (auto simp: srv_inv_def)
  have name: "server_connName st = full_name st (nextConnId st)" by (rule server_connName_full [OF a k1])
  have "table_ok ((conns_of st)(l := (conns_of st l)(c \<mapsto> x))) (queue_of st) (srv_loop st) (full_name st)
      (nextConnId st + 1) ((connections st)(full_name st (nextConnId st) \<mapsto> c)) ((conn_loop st)(c \<mapsto> l))"
    by (rule table_new [OF srv_invD(2) [OF inv] c k1(1) inj_full_name]) (use m' name in simp_all)
  moreover have "full_name s = full_name st" using m' by (intro full_name_cong) simp_all
  ultimately show ?thesis using m' a k k1 by (auto simp: srv_inv_def name)
qed

lemma established_frame:
  assumes "benign user"
    and "runInLoop (exec_conn_functor (server_callbacks user)) (F_connectEstablished c) s = Inr s'"
  shows "loop_frame s s'"
  using assms(2) by (rule runInLoop_frame) (use assms(1) in \<open>auto intro: connectEstablished_frame\<close>)

lemma newConnection_inv:
  assumes inv: "srv_inv st" and c: "conn_loop st c = None" and user: "benign user"
    and ok: "TcpServer_newConnection user c p fd peer st = Inr st'"
  shows "srv_inv st'"
proof -
  obtain l pool x s where k: "nextConnId st < 2 ^ 31 - 1" "conn_made st c l pool x s"
    and est: "on_loop l (runInLoop (exec_conn_functor (server_callbacks user)) (F_connectEstablished c)) s = Inr st'"
    using newConnection_parts [OF ok srv_invD(1) [OF inv]] by metis
  show ?thesis
    by (rule on_loop_frame_inv [OF est conn_made_inv [OF inv c k]]) (rule established_frame [OF user])
qed

section \<open>Steps\<close>

text \<open>
  The threads take turns: another loop comes into focus in its thread; a connection of the loop in
  focus gets an event; the loop runs its first pending functor; a thread calls an operation of a
  connection; the acceptor hands over a descriptor. Addresses of connections are not reused.
\<close>

inductive srv_step :: "server_world conn_callbacks \<Rightarrow> server_world \<Rightarrow> server_world \<Rightarrow> bool"
  for user :: "server_world conn_callbacks" where
  ss_focus: "focus l st = Inr st' \<Longrightarrow> srv_step user st (st'\<lparr>this_thread := threadId st'\<rparr>)"
| ss_call: "conn_call_exec (wcb_set user) c call (st\<lparr>this_thread := t\<rparr>) = Inr st' \<Longrightarrow> srv_step user st st'"
| ss_event: "conn_channel_callback (server_callbacks user) c ev st = Inr st' \<Longrightarrow> srv_step user st st'"
| ss_functor: "pendingFunctors st = f # fs \<Longrightarrow>
    exec_server_functor user ret f (st\<lparr>pendingFunctors := fs\<rparr>) = Inr st' \<Longrightarrow> srv_step user st st'"
| ss_accept: "conn_loop st c = None \<Longrightarrow> TcpServer_newConnection user c p fd peer st = Inr st' \<Longrightarrow>
    srv_step user st st'"

text \<open>A server that has been constructed and started on a loop without connections.\<close>

definition fresh_loop :: "'z conn_world_scheme \<Rightarrow> bool" where
  "fresh_loop w \<longleftrightarrow> conns w = Map.empty \<and> filter is_removal (pendingFunctors w) = []"

definition server_started ::
    "server_world \<Rightarrow> sockaddr_in \<Rightarrow> string \<Rightarrow> int \<Rightarrow> (nat \<Rightarrow> acceptor_world) \<Rightarrow> server_world \<Rightarrow> bool" where
  "server_started st0 addr name n ws st \<longleftrightarrow>
     fresh_loop st0 \<and> other_loops st0 = Map.empty \<and> conn_loop st0 = Map.empty \<and>
     (\<forall>i. fresh_loop (ws i) \<and> loop_id (ws i) \<noteq> loop_id st0) \<and>
     (\<exists>answers p option ret s1 s2. TcpServer_new answers p addr name option st0 = Inr s1 \<and>
        TcpServer_setThreadNum n s1 = Inr s2 \<and> TcpServer_start ws None ret s2 = Inr st)"

definition srv_start :: "server_world \<Rightarrow> bool" where
  "srv_start st \<longleftrightarrow> (\<exists>st0 addr name n ws. server_started st0 addr name n ws st)"

lemma removal_step_inv:
  assumes inv: "srv_inv st" and q: "pendingFunctors st = F_removeConnectionInLoop c # fs"
  shows "\<exists>x l. removable (st\<lparr>pendingFunctors := fs\<rparr>) l c x \<and> srv_loop st = loop_id st"
proof -
  note t = srv_invD(2) [OF inv]
  have own: "queue_of st (loop_id st) = F_removeConnectionInLoop c # fs" using q by (simp add: queue_of_def)
  then have b: "srv_loop st = loop_id st" using table_okD(7) [OF t, of c "loop_id st"] by simp
  then have qb: "queue_of st (srv_loop st) = F_removeConnectionInLoop c # fs" using own by simp
  obtain l x where x: "conns_of st l c = Some x" "conn_state x = kDisconnected" "connections st (conn_name x) = Some c"
    using table_okD(6) [OF t, of c] qb by auto
  have "F_removeConnectionInLoop c \<notin> set fs" using table_okD(5) [OF t] qb by auto
  moreover have "conns_of (st\<lparr>pendingFunctors := fs\<rparr>) = conns_of st"
    by (simp add: conns_of_def fun_eq_iff)
  ultimately have "removable (st\<lparr>pendingFunctors := fs\<rparr>) l c x"
    using x b by (simp add: removable_def queue_of_def)
  then show ?thesis using b by blast
qed

lemma functor_inv:
  assumes inv: "srv_inv st" and q: "pendingFunctors st = f # fs" and user: "benign user"
    and ok: "exec_server_functor user ret f (st\<lparr>pendingFunctors := fs\<rparr>) = Inr st'"
  shows "srv_inv st'"
proof -
  let ?s = "st\<lparr>pendingFunctors := fs\<rparr>"
  have inv1: "srv_inv ?s" by (rule pop_inv [OF inv q])
  have conn: "srv_inv st'" if "exec_conn_functor (server_callbacks user) f ?s = Inr st'"
    using functor_parts [OF that] user loop_frame_inv [OF _ inv1] closes_inv [OF inv1] by auto
  consider (rm) c where "f = F_removeConnectionInLoop c" | (listen) "f = F_listen"
    | (other) "exec_conn_functor (server_callbacks user) f ?s = Inr st'"
    using ok by (cases f) auto
  then show ?thesis
  proof cases
    case (rm c)
    obtain x l where r: "removable ?s l c x" and b: "srv_loop st = loop_id st"
      using removal_step_inv [OF inv] q rm by blast
    have e: "TcpServer_removeConnectionInLoop c ?s = Inr st'" using ok rm by simp
    then have "isInLoopThread ?s"
      using b by (auto simp: TcpServer_removeConnectionInLoop_def base_assertInLoopThread_def assertInLoopThread_def
          focus_def split: if_splits)
    moreover have "focus (srv_loop ?s) ?s = Inr ?s" using b by (simp add: focus_def)
    ultimately obtain st'' where "TcpServer_removeConnectionInLoop c ?s = Inr st''" "srv_inv st''"
      using removeInLoop_spec [OF inv1 _ _ r] by metis
    then show ?thesis using e by simp
  next
    case listen
    then show ?thesis using ok same_view_inv [OF Acceptor_listen_view inv1] by simp
  next
    case other
    then show ?thesis by (rule conn)
  qed
qed

lemma srv_inv_thread [simp]: "srv_inv (st\<lparr>this_thread := t\<rparr>) = srv_inv st"
proof -
  have "conns_of (st\<lparr>this_thread := t\<rparr>) = conns_of st" "queue_of (st\<lparr>this_thread := t\<rparr>) = queue_of st"
    "loops_ok (st\<lparr>this_thread := t\<rparr>) = loops_ok st" "full_name (st\<lparr>this_thread := t\<rparr>) = full_name st"
    by (simp_all add: conns_of_def queue_of_def loops_ok_def full_name_def fun_eq_iff)
  then show ?thesis by (simp add: srv_inv_def)
qed

lemma srv_inv_step:
  assumes "srv_step user st st'" and "srv_inv st" and "benign user"
  shows "srv_inv st'"
  using assms
proof (induction rule: srv_step.induct)
  case (ss_focus l st st')
  have "srv_inv st'"
    using same_view_inv [OF focus_view(1) [OF ss_focus(1) srv_invD(1) [OF ss_focus(2)]] ss_focus(2)] .
  then show ?case by simp
next
  case (ss_call c call st t st')
  then show ?case using loop_frame_inv [OF conn_call_frame [OF ss_call(1)]] by simp
next
  case (ss_event c ev st st')
  have "benign (server_callbacks user)" using ss_event(3) by simp
  from event_parts [OF ss_event(1) this] show ?case
    using loop_frame_inv [OF _ ss_event(2)] closes_inv [OF ss_event(2)] by blast
next
  case (ss_functor st f fs ret st')
  then show ?case using functor_inv by blast
next
  case (ss_accept st c p fd peer st')
  then show ?case using newConnection_inv by blast
qed

section \<open>Reachable servers\<close>

lemma table_empty:
  assumes "\<And>l. C l = Map.empty" and "\<And>l. filter is_removal (Q l) = []"
  shows "table_ok C Q b nm k Map.empty L"
proof -
  have "F_removeConnectionInLoop c \<notin> set (Q l)" for c l
    using removal_in_filter [of c "Q l"] assms(2) by (metis empty_iff empty_set)
  then show ?thesis using assms by (simp add: table_ok_def)
qed

lemma Acceptor_new_effect:
  fixes st :: server_world
  assumes "Acceptor_new answers p addr b st = Inr st'"
  shows "conns st' = conns st" "pendingFunctors st' = pendingFunctors st" "loop_id st' = loop_id st"
    "other_loops st' = other_loops st" "conn_loop st' = conn_loop st"
proof -
  obtain fd idle r1 r2 rb where a: "answers = (fd, idle, r1, r2, rb)" by (metis prod.exhaust)
  obtain ch s ch' where "st' = (chan_put (fd_opened idle (chan_put (fd_opened fd st) p ch)) p ch')
      \<lparr>acceptSocket := s, acceptChannel := p, listening := False, idleFd := idle\<rparr>"
    using assms unfolding a Acceptor_new_def new_Channel_def createNonblocking_def
    by (simp add: bindR_eq_Inr requireR_eq_Inr assertR_eq_Inr split: if_split_asm) blast
  then show "conns st' = conns st" "pendingFunctors st' = pendingFunctors st" "loop_id st' = loop_id st"
    "other_loops st' = other_loops st" "conn_loop st' = conn_loop st"
    by (simp_all add: fd_opened_def chan_put_def)
qed

text \<open>The server that \<open>start\<close> has set up, before it listens.\<close>

definition pool_ready :: "(nat \<Rightarrow> acceptor_world) \<Rightarrow> int \<Rightarrow> server_world \<Rightarrow> bool" where
  "pool_ready ws n s \<longleftrightarrow>
     threadPool s = fst (Pool_start (\<lambda>i. loop_id (ws i)) False (Pool_setThreadNum n (Pool_new (loop_id s) (srv_name s)))) \<and>
     other_loops s = map_of (map (\<lambda>i. (loop_id (ws i), ws i)) [0..<nat n])"

lemma server_started_parts:
  assumes "server_started st0 addr name n ws st"
  obtains ret s q where "pool_ready ws n s" "srv_loop s = loop_id s" "nextConnId s = 1" "srv_inv s"
    "runInLoop (\<lambda>_. Acceptor_listen ret) F_listen s = Inr q" "focus (loop_id s) q = Inr st"
    "loop_id s = loop_id st0" "srv_ipPort s = toIpPort addr" "srv_name s = name"
proof -
  obtain answers p option ret s1 s2 where
    f0: "fresh_loop st0" "other_loops st0 = Map.empty" "conn_loop st0 = Map.empty"
    and ws: "\<And>i. fresh_loop (ws i)" "\<And>i. loop_id (ws i) \<noteq> loop_id st0"
    and new: "TcpServer_new answers p addr name option st0 = Inr s1" and num: "TcpServer_setThreadNum n s1 = Inr s2"
    and start: "TcpServer_start ws None ret s2 = Inr st"
    using assms unfolding server_started_def by blast
  obtain a1 where a1: "Acceptor_new answers p addr (option = kReusePort) st0 = Inr a1"
    and s1: "s1 = a1\<lparr>srv_loop := loop_id a1, srv_ipPort := toIpPort addr, srv_name := name,
                threadPool := Pool_new (loop_id a1) name, srv_started := 0, nextConnId := 1, connections := Map.empty\<rparr>"
    using new by (auto simp: TcpServer_new_def res_iffs)
  note e = Acceptor_new_effect [OF a1]
  have s2: "s2 = s1\<lparr>threadPool := Pool_setThreadNum n (threadPool s1)\<rparr>"
    using num by (auto simp: TcpServer_setThreadNum_def res_iffs)
  define ls where "ls = map (\<lambda>i. (loop_id (ws i), ws i)) [0..<nat (numThreads (threadPool s2))]"
  define s3 where "s3 = s2\<lparr>srv_started := 1, threadPool := fst (Pool_start (\<lambda>i. loop_id (ws i)) False (threadPool s2)),
      other_loops := other_loops s2 ++ map_of ls\<rparr>"
  have f3: "loop_id s3 = loop_id st0" "conns s3 = Map.empty" "filter is_removal (pendingFunctors s3) = []"
    "other_loops s3 = map_of ls" "connections s3 = Map.empty" "srv_loop s3 = loop_id st0" "nextConnId s3 = 1"
    "srv_ipPort s3 = toIpPort addr" "srv_name s3 = name"
    using e f0 by (simp_all add: s3_def s2 s1 fresh_loop_def)
  have ready: "pool_ready ws n s3"
    using e by (simp add: pool_ready_def f3(4)) (simp add: s3_def ls_def s2 s1 Pool_setThreadNum_def)
  have other: "fresh_loop w \<and> loop_id w = l \<and> l \<noteq> loop_id st0" if "map_of ls l = Some w" for l w
    using map_of_SomeD [OF that] ws by (auto simp: ls_def)
  have none: "map_of ls (loop_id st0) = None" using other by (cases "map_of ls (loop_id st0)") auto
  have "loops_ok s3" using none other by (auto simp: loops_ok_def f3)
  moreover have "conns_of s3 l = Map.empty" "filter is_removal (queue_of s3 l) = []" for l
    using other f3 by (auto simp: conns_of_def queue_of_def fresh_loop_def split: option.splits)
  ultimately have inv3: "srv_inv s3" using f3 table_empty [of "conns_of s3" "queue_of s3"] by (auto simp: srv_inv_def)
  have b: "srv_loop s3 = loop_id s3" using f3 by simp
  have st0: "srv_started s2 = 0" by (simp add: s2 s1)
  have ps: "Pool_start (\<lambda>i. loop_id (ws i)) False (threadPool s2) =
      (fst (Pool_start (\<lambda>i. loop_id (ws i)) False (threadPool s2)), [])"
    by (simp add: Pool_start_def Let_def)
  from start have "on_loop (srv_loop s3) (runInLoop (\<lambda>_. Acceptor_listen ret) F_listen) s3 = Inr st"
    unfolding TcpServer_start_def using st0 ps
    by (auto simp: res_iffs Let_def s3_def ls_def split: prod.splits)
  then obtain q where "runInLoop (\<lambda>_. Acceptor_listen ret) F_listen s3 = Inr q" "focus (loop_id s3) q = Inr st"
    using b by (auto simp: on_loop_self res_iffs)
  with ready b f3(7) inv3 show ?thesis by (rule that) (simp_all add: f3)
qed

lemma srv_start_parts:
  assumes "srv_start st"
  obtains ws n ret s q where "pool_ready ws n s" "srv_loop s = loop_id s" "nextConnId s = 1" "srv_inv s"
    "runInLoop (\<lambda>_. Acceptor_listen ret) F_listen s = Inr q" "focus (loop_id s) q = Inr st"
  using assms that unfolding srv_start_def by (blast elim: server_started_parts)

lemma srv_inv_start:
  assumes "srv_start st"
  shows "srv_inv st"
proof -
  obtain ret s q where inv: "srv_inv s" and q: "runInLoop (\<lambda>_. Acceptor_listen ret) F_listen s = Inr q"
    "focus (loop_id s) q = Inr st" using srv_start_parts [OF assms] by metis
  have "srv_inv q"
    using q(1) same_view_inv [OF Acceptor_listen_view inv] loop_frame_inv [OF queueInLoop_frame_conn inv, of F_listen]
    by (auto simp: runInLoop_def split: if_splits)
  then show ?thesis using same_view_inv [OF focus_view(1) [OF q(2)]] srv_invD(1) by blast
qed

text \<open>The invariant as a system, and the loop of a reachable server.\<close>

interpretation srv: invariant_system srv_start "srv_step user" "\<lambda>st. benign user \<longrightarrow> srv_inv st" for user
  by unfold_locales (auto intro: srv_inv_start srv_inv_step)

section \<open>Properties\<close>

text \<open>C5. The assertion in \<open>removeConnectionInLoop\<close> never fails: in every reachable state, when the
  base loop comes to a queued removal, the connection is disconnected and in the table under its name;
  the call erases exactly that entry and queues \<open>connectDestroyed\<close> on the connection's own loop.\<close>

theorem removal_assertion_holds:
  assumes "reachable srv_start (srv_step user) st" and "benign user"
    and "pendingFunctors st = F_removeConnectionInLoop c # fs" and "isInLoopThread st"
  shows "\<exists>l x st'. conns_of st l c = Some x \<and> conn_state x = kDisconnected \<and>
    connections st (conn_name x) = Some c \<and>
    exec_server_functor user ret (F_removeConnectionInLoop c) (st\<lparr>pendingFunctors := fs\<rparr>) = Inr st' \<and>
    connections st' = (connections st)(conn_name x := None) \<and> F_connectDestroyed c \<in> set (queue_of st' l)"
proof -
  let ?s = "st\<lparr>pendingFunctors := fs\<rparr>"
  have inv: "srv_inv st" using srv.reachable_inv [OF assms(1)] assms(2) by blast
  obtain x l where r: "removable ?s l c x" and b: "srv_loop st = loop_id st"
    using removal_step_inv [OF inv assms(3)] by blast
  have c: "conns_of ?s = conns_of st" by (simp add: conns_of_def fun_eq_iff)
  have "focus (srv_loop ?s) ?s = Inr ?s" "isInLoopThread ?s"
    using b assms(4) by (simp_all add: focus_def isInLoopThread_def)
  from removeInLoop_spec [OF pop_inv [OF inv assms(3)] this r]
  obtain st' where "TcpServer_removeConnectionInLoop c ?s = Inr st'"
    "connections st' = (connections ?s)(conn_name x := None)"
    "queue_of st' = (queue_of ?s)(l := queue_of ?s l @ [F_connectDestroyed c])" by blast
  then show ?thesis using r c
    by (intro exI [of _ l] exI [of _ x] exI [of _ st']) (auto simp: removable_def)
qed

text \<open>C18. The table of connections is accurate in every reachable state: every connection that is not
  disconnected is found under its name, every entry is a connection of that name, connections that
  live have different names, and no connection lives on two loops.\<close>

theorem connection_table_accurate:
  assumes "reachable srv_start (srv_step user) st" and "benign user"
  shows "(\<forall>l c x. conns_of st l c = Some x \<and> conn_state x \<noteq> kDisconnected \<longrightarrow> connections st (conn_name x) = Some c) \<and>
    (\<forall>n c. connections st n = Some c \<longrightarrow> (\<exists>l x. conns_of st l c = Some x \<and> conn_name x = n)) \<and>
    (\<forall>l l' c c' x x'. conns_of st l c = Some x \<and> conns_of st l' c' = Some x' \<and> conn_state x \<noteq> kDisconnected \<and>
       conn_state x' \<noteq> kDisconnected \<and> conn_name x = conn_name x' \<longrightarrow> c = c' \<and> l = l')"
proof -
  have "srv_inv st" using srv.reachable_inv [OF assms(1)] assms(2) by blast
  note t = srv_invD(2) [OF this]
  have "c = c' \<and> l = l'" if "conns_of st l c = Some x" "conns_of st l' c' = Some x'" "conn_state x \<noteq> kDisconnected"
    "conn_state x' \<noteq> kDisconnected" "conn_name x = conn_name x'" for l l' c c' x x'
  proof -
    have "c = c'" using table_okD(3) [OF t that(1,3)] table_okD(3) [OF t that(2,4)] that(5) by simp
    then show ?thesis using table_unique(1) [OF t that(1)] that(2) by simp
  qed
  then show ?thesis using table_okD(3,4) [OF t] by blast
qed

section \<open>A run\<close>

text \<open>A server with one I/O thread; a client connects and closes.\<close>

definition demo_acceptor :: "nat \<Rightarrow> nat \<Rightarrow> acceptor_world" where
  "demo_acceptor l t = conn_world.extend (demo_world\<lparr>loop_id := l, threadId := t\<rparr>)
     (acceptor_world.fields (Socket_new 0) 0 False 0 {})"

definition demo_base :: server_world where
  "demo_base = acceptor_world.extend (demo_acceptor 1 7)
     (server_world.fields Map.empty 0 [] [] (Pool_new 0 []) 0 0 Map.empty Map.empty)"

definition demo_started :: "server_world res" where
  "demo_started =
     bindR (TcpServer_new (3, 4, 0, 0, 0) 30 (InetAddress_port 8888) ''s'' kNoReusePort demo_base) (\<lambda>s1.
       bindR (TcpServer_setThreadNum 1 s1) (TcpServer_start (\<lambda>i. demo_acceptor 2 8) None 0))"

definition demo_switch :: "nat \<Rightarrow> server_world \<Rightarrow> server_world res" where
  "demo_switch l st = bindR (focus l st) (\<lambda>s. Inr (s\<lparr>this_thread := threadId s\<rparr>))"

definition demo_functor :: "server_world \<Rightarrow> server_world res" where
  "demo_functor st = (case pendingFunctors st of [] \<Rightarrow> Inr st
     | f # fs \<Rightarrow> exec_server_functor (user_callbacks idle_script) 0 f (st\<lparr>pendingFunctors := fs\<rparr>))"

definition demo_closed :: "server_world \<Rightarrow> server_world res" where
  "demo_closed s0 =
     bindR (TcpServer_newConnection (user_callbacks idle_script) 1 20 6 sockaddr_zero s0) (\<lambda>s1.
     bindR (demo_switch 2 s1) (\<lambda>s2. bindR (demo_functor s2) (\<lambda>s3.
     bindR (conn_channel_callback (server_callbacks (user_callbacks idle_script)) 1 CloseEv s3) (demo_switch 1))))"

lemmas server_eval = demo_started_def demo_closed_def demo_switch_def demo_functor_def demo_base_def demo_acceptor_def
  acceptor_world.defs server_world.defs conn_world.defs focus_def on_loop_def base_assertInLoopThread_def
  TcpServer_new_def Acceptor_new_def createNonblocking_def fd_opened_def Socket_bindAddress_def Socket_setReusePort_def
  Socket_setReuseAddr_def Socket_new_def TcpServer_setThreadNum_def TcpServer_start_def Pool_start_def Pool_new_def
  Pool_setThreadNum_def Acceptor_listen_def Socket_listen_def TcpServer_newConnection_def getNextLoop_def
  queueInLoop_def wakeup_def TcpServer_removeConnection_def server_callbacks_def TcpConnection_handleClose_def

lemma demo_started_ok: "\<not> isl demo_started"
  by (simp add: server_eval demo_eval)

lemma demo_closed_ok: "\<not> isl (bindR demo_started demo_closed)"
  by (simp add: server_eval demo_eval)

lemma demo_started_facts: "demo_started = Inr s0 \<Longrightarrow> conn_loop s0 = Map.empty"
  by (auto simp: server_eval demo_eval)

lemma demo_closed_facts:
  "demo_started = Inr s0 \<Longrightarrow> demo_closed s0 = Inr st \<Longrightarrow>
     pendingFunctors st = [F_removeConnectionInLoop 1] \<and> isInLoopThread st"
  by (auto simp: server_eval demo_eval)

lemma demo_start: "demo_started = Inr st \<Longrightarrow> srv_start st"
proof -
  assume "demo_started = Inr st"
  then obtain s1 s2 where
    "TcpServer_new (3, 4, 0, 0, 0) 30 (InetAddress_port 8888) ''s'' kNoReusePort demo_base = Inr s1"
    "TcpServer_setThreadNum 1 s1 = Inr s2" "TcpServer_start (\<lambda>i. demo_acceptor 2 8) None 0 s2 = Inr st"
    by (auto simp: demo_started_def res_iffs)
  moreover have "fresh_loop demo_base" "other_loops demo_base = Map.empty" "conn_loop demo_base = Map.empty"
    "fresh_loop (demo_acceptor 2 8)" "loop_id (demo_acceptor 2 8) \<noteq> loop_id demo_base"
    by (simp_all add: fresh_loop_def demo_base_def demo_acceptor_def demo_world_def acceptor_world.defs
        server_world.defs conn_world.defs)
  ultimately have "server_started demo_base (InetAddress_port 8888) ''s'' 1 (\<lambda>i. demo_acceptor 2 8) st"
    unfolding server_started_def by blast
  then show ?thesis unfolding srv_start_def by blast
qed

lemma demo_switch_step: "demo_switch l s = Inr s' \<Longrightarrow> srv_step user s s'"
  by (auto simp: demo_switch_def bindR_eq_Inr intro: ss_focus)

lemma demo_closing:
  obtains s3 s4 st where "reachable srv_start (srv_step (user_callbacks idle_script)) s3"
    "conn_channel_callback (server_callbacks (user_callbacks idle_script)) 1 CloseEv s3 = Inr s4"
    "demo_switch 1 s4 = Inr st" "pendingFunctors st = [F_removeConnectionInLoop 1]" "isInLoopThread st"
proof -
  let ?u = "user_callbacks idle_script :: server_world conn_callbacks"
  obtain st where "bindR demo_started demo_closed = Inr st" using demo_closed_ok not_isl_Inr by blast
  then obtain s0 s1 s2 s3 s4 where s0: "demo_started = Inr s0" and cl: "demo_closed s0 = Inr st"
    and s1: "TcpServer_newConnection ?u 1 20 6 sockaddr_zero s0 = Inr s1" and s2: "demo_switch 2 s1 = Inr s2"
    and s3: "demo_functor s2 = Inr s3" and s4: "conn_channel_callback (server_callbacks ?u) 1 CloseEv s3 = Inr s4"
    and st: "demo_switch 1 s4 = Inr st"
    by (auto simp: demo_closed_def bindR_eq_Inr)
  have "reachable srv_start (srv_step ?u) s0" using demo_start [OF s0] by (rule reach_start)
  moreover have "srv_step ?u s0 s1" by (rule ss_accept [OF _ s1]) (simp add: demo_started_facts [OF s0])
  ultimately have "reachable srv_start (srv_step ?u) s1" by (rule reach_step)
  then have r2: "reachable srv_start (srv_step ?u) s2" using demo_switch_step [OF s2] by (rule reach_step)
  have "reachable srv_start (srv_step ?u) s3"
  proof (cases "pendingFunctors s2")
    case Nil
    then show ?thesis using r2 s3 by (simp add: demo_functor_def)
  next
    case (Cons f fs)
    then have "srv_step ?u s2 s3" using s3 by (intro ss_functor [OF Cons]) (simp add: demo_functor_def)
    with r2 show ?thesis by (rule reach_step)
  qed
  then show ?thesis using that s4 st demo_closed_facts [OF s0 cl] by blast
qed

lemma demo_reachable:
  obtains st where "reachable srv_start (srv_step (user_callbacks idle_script)) st"
    "pendingFunctors st = [F_removeConnectionInLoop 1]" "isInLoopThread st"
proof -
  obtain s3 s4 st where s: "reachable srv_start (srv_step (user_callbacks idle_script)) s3"
    "conn_channel_callback (server_callbacks (user_callbacks idle_script)) 1 CloseEv s3 = Inr s4"
    "demo_switch 1 s4 = Inr st" "pendingFunctors st = [F_removeConnectionInLoop 1]" "isInLoopThread st"
    by (rule demo_closing)
  from s(1) ss_event [OF s(2)] have "reachable srv_start (srv_step (user_callbacks idle_script)) s4" by (rule reach_step)
  then have "reachable srv_start (srv_step (user_callbacks idle_script)) st" using demo_switch_step [OF s(3)] by (rule reach_step)
  then show ?thesis using that s(4,5) by blast
qed

theorem removal_assertion_holds_witness:
  "\<exists>st l x st'. conns_of st l 1 = Some x \<and> connections st (conn_name x) = Some 1 \<and>
    exec_server_functor (user_callbacks idle_script) 0 (F_removeConnectionInLoop 1) (st\<lparr>pendingFunctors := []\<rparr>) = Inr st' \<and>
    connections st' (conn_name x) = None \<and> F_connectDestroyed 1 \<in> set (queue_of st' l)"
proof -
  obtain st where st: "reachable srv_start (srv_step (user_callbacks idle_script)) st"
    "pendingFunctors st = [F_removeConnectionInLoop 1]" "isInLoopThread st" by (rule demo_reachable)
  from removal_assertion_holds [OF st(1) script_benign st(2,3), of 0] show ?thesis by (metis fun_upd_same)
qed

theorem connection_table_accurate_witness:
  "\<exists>st. reachable srv_start (srv_step (user_callbacks idle_script)) st \<and> pendingFunctors st = [F_removeConnectionInLoop 1] \<and>
    (\<forall>n c. connections st n = Some c \<longrightarrow> (\<exists>l x. conns_of st l c = Some x \<and> conn_name x = n))"
proof -
  obtain st where st: "reachable srv_start (srv_step (user_callbacks idle_script)) st"
    "pendingFunctors st = [F_removeConnectionInLoop 1]" "isInLoopThread st" by (rule demo_reachable)
  from connection_table_accurate [OF st(1) script_benign] st show ?thesis by blast
qed

end
