(* ===== verification/Server_Balance.thy ===== *)
theory Server_Balance
  imports Server_Safety
begin

text \<open>
  How the server spreads its connections over the loops of its pool: a new connection is made for the
  next loop in turn and handed to that loop's queue, and in every reachable state the connection of
  identifier \<open>i\<close> lives on the loop that \<open>i\<close> determines.
\<close>

section \<open>What every step but a new connection leaves alone\<close>

definition server_kept :: "server_world \<Rightarrow> server_world \<Rightarrow> bool" where
  "server_kept st st' \<longleftrightarrow> (loops_ok st \<longrightarrow> loops_ok st' \<and> known_loop st' = known_loop st \<and>
     srv_loop st' = srv_loop st \<and> srv_ipPort st' = srv_ipPort st \<and> srv_name st' = srv_name st \<and>
     threadPool st' = threadPool st \<and> nextConnId st' = nextConnId st \<and>
     (\<forall>l. conns_kept (conns_of st l) (conns_of st' l)))"

lemma server_kept_refl [simp]: "server_kept st st"
  by (simp add: server_kept_def)

lemma server_kept_trans: "server_kept s1 s2 \<Longrightarrow> server_kept s2 s3 \<Longrightarrow> server_kept s1 s3"
  by (auto simp: server_kept_def intro: conns_kept_trans)

lemma same_server_kept: "same_server st st' \<Longrightarrow> server_kept st st'"
  by (simp add: server_kept_def same_server_def)

lemma focus_kept: "focus l st = Inr st' \<Longrightarrow> server_kept st st'"
  using focus_view(1) [of l st st'] by (auto simp: server_kept_def same_view_def same_server_def)

lemma loop_frame_kept:
  assumes "loop_frame st st'"
  shows "server_kept st st'"
proof -
  note s = loop_frame_server [OF assms]
  have "conns_kept (conns_of st l) (conns_of st' l)" for l
    using assms unfolding views_in_focus(1) [OF s(9,1)] by (simp add: loop_frame_def conns_of_def)
  then show ?thesis using s views_in_focus(3,4) [OF s(9,1)] by (simp add: server_kept_def)
qed

lemma on_loop_kept:
  assumes "on_loop l f st = Inr st'" and "\<And>s s'. f s = Inr s' \<Longrightarrow> server_kept s s'"
  shows "server_kept st st'"
proof -
  obtain s s' where "focus l st = Inr s" "f s = Inr s'" "focus (loop_id st) s' = Inr st'"
    using assms(1) by (auto simp: on_loop_def res_iffs)
  then show ?thesis using assms(2) focus_kept by (meson server_kept_trans)
qed

lemma thread_kept [simp]: "server_kept st (st\<lparr>this_thread := t\<rparr>)"
  by (auto simp: server_kept_def conns_of_def loops_ok_def known_loop_def fun_eq_iff)

lemma entry_kept [simp]: "server_kept st (st\<lparr>connections := m\<rparr>)" "server_kept st (st\<lparr>pendingFunctors := fs\<rparr>)"
  by (auto simp: server_kept_def conns_of_def loops_ok_def known_loop_def fun_eq_iff)

lemma queue_kept: "server_kept st (queueInLoop f st)"
  by (auto simp: server_kept_def conns_of_def loops_ok_def known_loop_def fun_eq_iff queueInLoop_def wakeup_def Let_def)

lemma removeInLoop_kept:
  assumes "TcpServer_removeConnectionInLoop c st = Inr st'"
  shows "server_kept st st'"
proof -
  obtain m l where "on_loop l (\<lambda>s. Inr (queueInLoop (F_connectDestroyed c) s)) (st\<lparr>connections := m\<rparr>) = Inr st'"
    using assms by (auto simp: TcpServer_removeConnectionInLoop_def base_assertInLoopThread_def assertInLoopThread_def
        conn_queue_def res_iffs split: if_splits option.splits)
  then have "server_kept (st\<lparr>connections := m\<rparr>) st'" by (rule on_loop_kept) (use queue_kept in auto)
  then show ?thesis using entry_kept(1) server_kept_trans by blast
qed

lemma removeConnection_kept:
  assumes "TcpServer_removeConnection c st = Inr st'"
  shows "server_kept st st'"
  using assms unfolding TcpServer_removeConnection_def
  by (rule on_loop_kept) (auto simp: runInLoop_def queue_kept removeInLoop_kept split: if_splits)

lemma closes_kept:
  assumes "closes (server_callbacks user) c st st'"
  shows "server_kept st st'"
proof -
  obtain s where "loop_frame st s" "TcpServer_removeConnection c s = Inr st'"
    using assms by (auto simp: closes_def server_callbacks_def)
  then show ?thesis using loop_frame_kept removeConnection_kept server_kept_trans by blast
qed

lemma functor_kept:
  assumes "exec_server_functor user ret f st = Inr st'" and "benign user"
  shows "server_kept st st'"
proof -
  consider (rm) c where "f = F_removeConnectionInLoop c" | (listen) "f = F_listen"
    | (other) "exec_conn_functor (server_callbacks user) f st = Inr st'"
    using assms(1) by (cases f) auto
  then show ?thesis
  proof cases
    case other
    then show ?thesis using functor_parts [OF other] assms(2) loop_frame_kept closes_kept by auto
  qed (use assms(1) removeInLoop_kept Acceptor_listen_view in \<open>auto simp: same_view_def intro: same_server_kept\<close>)
qed

lemma step_kept:
  assumes "srv_step user st st'" and "benign user"
  shows "server_kept st st' \<or>
    (\<exists>c p fd peer. conn_loop st c = None \<and> TcpServer_newConnection user c p fd peer st = Inr st')"
  using assms
proof cases
  case (ss_focus l s)
  then show ?thesis using focus_kept thread_kept server_kept_trans by blast
next
  case (ss_call c call t)
  then show ?thesis using loop_frame_kept [OF conn_call_frame] thread_kept server_kept_trans by blast
next
  case (ss_event c ev)
  have "benign (server_callbacks user)" using assms(2) by simp
  from event_parts [OF ss_event this] show ?thesis using loop_frame_kept closes_kept by blast
next
  case (ss_functor f fs ret)
  then show ?thesis using functor_kept [OF _ assms(2)] entry_kept(2) server_kept_trans by blast
qed blast

section \<open>The loop of a connection\<close>

definition loop_for :: "EventLoopThreadPool \<Rightarrow> int \<Rightarrow> nat" where
  "loop_for pool i = getAllLoops pool ! (nat (i - 1) mod length (getAllLoops pool))"

definition balanced :: "server_world \<Rightarrow> bool" where
  "balanced st \<longleftrightarrow> pool_inv (threadPool st) \<and> baseLoop (threadPool st) = srv_loop st \<and> known_loop st (srv_loop st) \<and>
     (\<forall>l\<in>set (getAllLoops (threadPool st)). known_loop st l) \<and>
     next_loop (threadPool st) mod length (getAllLoops (threadPool st)) =
       nat (nextConnId st - 1) mod length (getAllLoops (threadPool st)) \<and>
     (\<forall>l c x. conns_of st l c = Some x \<longrightarrow>
        (\<exists>i. 1 \<le> i \<and> i < nextConnId st \<and> conn_name x = full_name st i \<and> l = loop_for (threadPool st) i))"

lemma balanced_kept:
  assumes "server_kept st st'" and "loops_ok st" and "balanced st"
  shows "balanced st'"
proof -
  have k: "known_loop st' = known_loop st" "srv_loop st' = srv_loop st" "threadPool st' = threadPool st"
    "nextConnId st' = nextConnId st" "full_name st' = full_name st" "\<And>l. conns_kept (conns_of st l) (conns_of st' l)"
    using assms(1,2) full_name_cong [of st' st] by (simp_all add: server_kept_def)
  have old: "\<exists>x. conns_of st l c = Some x \<and> conn_name x = conn_name x'" if x': "conns_of st' l c = Some x'" for l c x'
  proof -
    have "c \<in> dom (conns_of st' l)" using x' by (rule domI)
    then have "c \<in> dom (conns_of st l)" using k(6) [of l] by (simp only: conns_kept_def)
    then obtain x where "conns_of st l c = Some x" by blast
    moreover have "conn_kept x x'" using k(6) [of l] calculation x' unfolding conns_kept_def by blast
    ultimately show ?thesis by (simp add: conn_kept_def)
  qed
  have "\<exists>i. 1 \<le> i \<and> i < nextConnId st \<and> conn_name x' = full_name st i \<and> l = loop_for (threadPool st) i"
    if x': "conns_of st' l c = Some x'" for l c x'
  proof -
    obtain x where x: "conns_of st l c = Some x" "conn_name x = conn_name x'" using old [OF x'] by blast
    show ?thesis using assms(3) x(1) unfolding balanced_def x(2) [symmetric] by blast
  qed
  then show ?thesis using assms(3) unfolding balanced_def k(1-5) by blast
qed

lemma getAllLoops_next [simp]: "getAllLoops (p\<lparr>next_loop := n\<rparr>) = getAllLoops p" "getAllLoops p \<noteq> []"
  by (simp_all add: getAllLoops_def)

text \<open>The loop that \<open>getNextLoop\<close> returns is the one the identifier determines.\<close>

lemma next_loop_for:
  assumes "balanced st" and "1 \<le> nextConnId st"
  shows "\<exists>n. getNextLoop (threadPool st) = Inr (loop_for (threadPool st) (nextConnId st), (threadPool st)\<lparr>next_loop := n\<rparr>) \<and>
    pool_inv ((threadPool st)\<lparr>next_loop := n\<rparr>) \<and>
    n mod length (getAllLoops (threadPool st)) = nat (nextConnId st) mod length (getAllLoops (threadPool st))"
proof -
  let ?p = "threadPool st" and ?k = "nextConnId st"
  let ?n = "if loops ?p = [] then next_loop ?p else (next_loop ?p + 1) mod length (loops ?p)"
  have b: "pool_inv ?p" "next_loop ?p mod length (getAllLoops ?p) = nat (?k - 1) mod length (getAllLoops ?p)"
    using assms(1) by (simp_all add: balanced_def)
  have "Suc (nat (?k - 1)) = nat ?k" using assms(2) by simp
  then have "?n mod length (getAllLoops ?p) = nat ?k mod length (getAllLoops ?p)"
    using b(2) mod_Suc_eq [of "next_loop ?p" "length (getAllLoops ?p)"] mod_Suc_eq [of "nat (?k - 1)" "length (getAllLoops ?p)"]
    by (auto simp: getAllLoops_def)
  moreover have "pool_inv (?p\<lparr>next_loop := ?n\<rparr>)" using b(1) by (auto simp: pool_inv_def)
  moreover have "getNextLoop ?p = Inr (loop_for ?p ?k, ?p\<lparr>next_loop := ?n\<rparr>)"
    using getNextLoop_ok [OF b(1)] b(2) by (simp add: loop_for_def)
  ultimately show ?thesis by blast
qed

lemma conn_made_balanced:
  assumes b: "balanced st" and inv: "srv_inv st" and g: "getNextLoop (threadPool st) = Inr (l, pool)"
    and m: "conn_made st c l pool x s"
  shows "balanced s"
proof -
  note m' = m [unfolded conn_made_def]
  obtain a where k: "srv_ipPort st = toIpPort a" "1 \<le> nextConnId st" "nextConnId st < 2 ^ 31"
    using inv by (auto simp: srv_inv_def)
  obtain n where n: "l = loop_for (threadPool st) (nextConnId st)" "pool = (threadPool st)\<lparr>next_loop := n\<rparr>"
    "pool_inv pool" "n mod length (getAllLoops (threadPool st)) = nat (nextConnId st) mod length (getAllLoops (threadPool st))"
    using next_loop_for [OF b k(2)] g by auto
  have nm: "full_name s = full_name st" using m' by (intro full_name_cong) simp_all
  have lf: "loop_for pool i = loop_for (threadPool st) i" for i by (simp add: n(2) loop_for_def)
  have "\<exists>i. 1 \<le> i \<and> i < nextConnId st + 1 \<and> conn_name y = full_name st i \<and> l' = loop_for (threadPool st) i"
    if y: "conns_of s l' d = Some y" for l' d y
  proof (cases "l' = l \<and> d = c")
    case True
    then have "y = x" using y m' by simp
    then have "conn_name y = full_name st (nextConnId st)" using m' server_connName_full [OF k] by simp
    then show ?thesis using True n(1) k(2) by (intro exI [of _ "nextConnId st"]) simp
  next
    case False
    then have "conns_of st l' d = Some y" using y m' by (auto split: if_splits)
    then show ?thesis using b unfolding balanced_def by (metis less_trans zless_add1_eq)
  qed
  then show ?thesis using b m' nm n(2-4) lf by (simp add: balanced_def)
qed

lemma pool_ready_loops:
  assumes "pool_ready ws n s"
  shows "loops (threadPool s) = map (\<lambda>i. loop_id (ws i)) [0..<nat n]" "next_loop (threadPool s) = 0"
    "baseLoop (threadPool s) = loop_id s"
  using assms by (simp_all add: pool_ready_def Pool_start_def Pool_setThreadNum_def Pool_new_def Let_def)

lemma pool_ready_balanced:
  assumes r: "pool_ready ws n s" and b: "srv_loop s = loop_id s" "nextConnId s = 1" and inv: "srv_inv s"
  shows "balanced s"
proof -
  let ?p = "threadPool s"
  have p: "?p = fst (Pool_start (\<lambda>i. loop_id (ws i)) False (Pool_setThreadNum n (Pool_new (loop_id s) (srv_name s))))"
    "other_loops s = map_of (map (\<lambda>i. (loop_id (ws i), ws i)) [0..<nat n])"
    using r by (simp_all add: pool_ready_def)
  note f = pool_ready_loops [OF r]
  have "pool_inv ?p" unfolding p by (intro pool_inv_start) (simp add: pool_inv_new)
  moreover have "known_loop s l" if "l \<in> set (getAllLoops ?p)" for l
  proof (cases "loops ?p = []")
    case True
    then show ?thesis using that f by (simp add: getAllLoops_def known_loop_def)
  next
    case False
    then have "l \<in> fst ` set (map (\<lambda>i. (loop_id (ws i), ws i)) [0..<nat n])"
      using that f by (auto simp: getAllLoops_def image_iff)
    then show ?thesis using p(2) by (auto simp: known_loop_def map_of_eq_None_iff)
  qed
  moreover have "conns_of s l c = None" for l c
    using table_okD(2) [OF srv_invD(2) [OF inv]] b(2) by (cases "conns_of s l c") fastforce+
  ultimately show ?thesis using f b by (simp add: balanced_def known_loop_def [of s "loop_id s"])
qed

lemma listen_kept:
  assumes "runInLoop (\<lambda>_. Acceptor_listen ret) F_listen s = Inr q" and "focus l q = Inr st"
  shows "server_kept s st"
proof -
  have "server_kept s q"
  proof (cases "isInLoopThread s")
    case True
    then have "Acceptor_listen ret s = Inr q" using assms(1) by (simp add: runInLoop_def)
    then show ?thesis using Acceptor_listen_view same_server_kept by (metis same_view_def)
  next
    case False
    then show ?thesis using assms(1) queue_kept [of s F_listen] by (simp add: runInLoop_def)
  qed
  then show ?thesis using focus_kept [OF assms(2)] by (rule server_kept_trans)
qed

lemma balanced_start:
  assumes "srv_start st"
  shows "balanced st"
proof -
  obtain ws n ret s q where s: "pool_ready ws n s" "srv_loop s = loop_id s" "nextConnId s = 1" "srv_inv s"
    "runInLoop (\<lambda>_. Acceptor_listen ret) F_listen s = Inr q" "focus (loop_id s) q = Inr st"
    using srv_start_parts [OF assms] .
  show ?thesis
    using listen_kept [OF s(5,6)] srv_invD(1) [OF s(4)] pool_ready_balanced [OF s(1-4)] by (rule balanced_kept)
qed

lemma newConnection_kept:
  assumes "TcpServer_newConnection user c p fd peer st = Inr st'" and "loops_ok st" and "benign user"
  shows "\<exists>l pool x s. getNextLoop (threadPool st) = Inr (l, pool) \<and> conn_made st c l pool x s \<and> server_kept s st'"
proof -
  obtain l pool x s where s: "getNextLoop (threadPool st) = Inr (l, pool)" "conn_made st c l pool x s"
    and est: "on_loop l (runInLoop (exec_conn_functor (server_callbacks user)) (F_connectEstablished c)) s = Inr st'"
    using newConnection_parts [OF assms(1,2)] by metis
  have "server_kept s st'" using est
    by (rule on_loop_kept) (blast intro: loop_frame_kept established_frame [OF assms(3)])
  with s show ?thesis by blast
qed

lemma newConnection_exists:
  assumes "TcpServer_newConnection user c p fd peer st = Inr st'" and "loops_ok st" and "benign user"
  shows "\<exists>l x. conns_of st' l c = Some x"
proof -
  obtain l pool x s where "conn_made st c l pool x s" "server_kept s st'" using newConnection_kept [OF assms] by blast
  then have "c \<in> dom (conns_of st' l)" by (auto simp: server_kept_def conn_made_def conns_kept_def)
  then show ?thesis by blast
qed

lemma balanced_step:
  assumes "srv_step user st st'" and "benign user" and inv: "srv_inv st" and b: "balanced st"
  shows "balanced st'"
  using step_kept [OF assms(1,2)]
proof
  assume "server_kept st st'"
  then show ?thesis using srv_invD(1) [OF inv] b by (rule balanced_kept)
next
  assume "\<exists>c p fd peer. conn_loop st c = None \<and> TcpServer_newConnection user c p fd peer st = Inr st'"
  then obtain c p fd peer where c: "conn_loop st c = None" "TcpServer_newConnection user c p fd peer st = Inr st'" by blast
  obtain l pool x s where s: "getNextLoop (threadPool st) = Inr (l, pool)" "conn_made st c l pool x s" "server_kept s st'"
    using newConnection_kept [OF c(2) srv_invD(1) [OF inv] assms(2)] by blast
  note s(3)
  moreover have "loops_ok s" using s(2) by (simp add: conn_made_def)
  ultimately show ?thesis using conn_made_balanced [OF b inv s(1,2)] by (rule balanced_kept)
qed

interpretation bal: invariant_system srv_start "srv_step user" "\<lambda>st. benign user \<longrightarrow> srv_inv st \<and> balanced st" for user
  by unfold_locales (auto intro: srv_inv_start balanced_start srv_inv_step balanced_step)

section \<open>Handing a connection over\<close>

lemma truncate_simps [simp]:
  "loop_id (acceptor_world.truncate s) = loop_id s" "threadId (acceptor_world.truncate s) = threadId s"
  "conns (acceptor_world.truncate s) = conns s" "chan_store (acceptor_world.truncate s) = chan_store s"
  "pendingFunctors (acceptor_world.truncate s) = pendingFunctors s" "wakeup_counter (acceptor_world.truncate s) = wakeup_counter s"
  "this_thread (acceptor_world.truncate s) = this_thread s"
  by (simp_all add: acceptor_world.defs)

text \<open>Another loop comes into focus with its record and the running thread.\<close>

lemma focus_other:
  assumes "other_loops st l = Some w" and "loop_id w = l" and "l \<noteq> loop_id st"
  obtains s where "focus l st = Inr s" "acceptor_world.truncate s = w\<lparr>this_thread := this_thread st\<rparr>"
    "other_loops s = (other_loops st)(l := None, loop_id st \<mapsto> acceptor_world.truncate st)"
  using assms that by (simp add: focus_def acceptor_world.defs server_world.defs)

lemma record_of_focus:
  assumes "acceptor_world.truncate s = w\<lparr>this_thread := t\<rparr>"
  shows "loop_id s = loop_id w" "threadId s = threadId w" "conns s = conns w" "chan_store s = chan_store w"
    "pendingFunctors s = pendingFunctors w" "wakeup_counter s = wakeup_counter w" "this_thread s = t"
  using arg_cong [OF assms, of loop_id] arg_cong [OF assms, of threadId] arg_cong [OF assms, of conns]
    arg_cong [OF assms, of chan_store] arg_cong [OF assms, of pendingFunctors] arg_cong [OF assms, of wakeup_counter]
    arg_cong [OF assms, of this_thread]
  by simp_all

text \<open>A call on another loop, in the thread that is running.\<close>

lemma on_loop_other:
  assumes lk: "loops_ok st" and w: "other_loops st l = Some w" "l \<noteq> loop_id st"
    and f: "\<And>s. focus l st = Inr s \<Longrightarrow> acceptor_world.truncate s = w\<lparr>this_thread := this_thread st\<rparr> \<Longrightarrow>
      \<exists>s2. f s = Inr s2 \<and> loop_id s2 = l \<and> other_loops s2 = other_loops s \<and> P s2"
  obtains s2 st' where "on_loop l f st = Inr st'" "P s2" "other_loops st' l = Some (acceptor_world.truncate s2)"
proof -
  have "loop_id w = l" using lk w(1) by (simp add: loops_ok_def)
  from focus_other [OF w(1) this w(2)] obtain s where s: "focus l st = Inr s"
    "acceptor_world.truncate s = w\<lparr>this_thread := this_thread st\<rparr>"
    "other_loops s = (other_loops st)(l := None, loop_id st \<mapsto> acceptor_world.truncate st)" .
  from f [OF s(1,2)] obtain s2 where s2: "f s = Inr s2" "loop_id s2 = l" "other_loops s2 = other_loops s" "P s2" by blast
  have "other_loops s2 (loop_id st) = Some (acceptor_world.truncate st)" "loop_id st \<noteq> loop_id s2"
    using s2(2,3) s(3) w(2) by simp_all
  from focus_other [OF this(1) _ this(2)] obtain st' where "focus (loop_id st) s2 = Inr st'"
    "other_loops st' = (other_loops s2)(loop_id st := None, loop_id s2 \<mapsto> acceptor_world.truncate s2)" by auto
  then show ?thesis using that [of st' s2] s(1) s2 by (simp add: on_loop_def)
qed

lemma TcpConnection_new_total:
  fixes st :: server_world
  assumes "chan_store st p = None" and "conns st c = None"
  shows "\<exists>st'. TcpConnection_new (Some l) name fd c p st = Inr st' \<and> threadId st' = threadId st \<and>
    this_thread st' = this_thread st \<and> wakeup_counter st' = wakeup_counter st"
  using assms by (simp add: TcpConnection_new_def CheckLoopNotNull_def new_Channel_def chan_put_def conn_put_def)

lemma foreign_queue_wakes:
  fixes st :: "'z EventLoop_scheme"
  assumes "\<not> isInLoopThread st"
  shows "0 < wakeup_counter (queueInLoop f st)"
  using assms by (auto simp: queueInLoop_def wakeup_def Let_def isInLoopThread_def)

lemma handed_over:
  assumes m: "conn_made st c l pool x s" and w: "other_loops s l = Some w" "threadId w \<noteq> this_thread s" "l \<noteq> loop_id s"
    and k: "known_loop st l"
  obtains st' w' where "on_loop l (runInLoop exec (F_connectEstablished c)) s = Inr st'"
    "other_loops st' l = Some w'" "0 < wakeup_counter w'" "same_server s st'"
    "queue_of st' = (queue_of s)(l := queue_of s l @ [F_connectEstablished c])"
proof -
  note m' = m [unfolded conn_made_def]
  let ?q = "\<lambda>s. Inr (queueInLoop (F_connectEstablished c) s)" and ?f = "runInLoop exec (F_connectEstablished c)"
  have lk: "loops_ok s" "known_loop s l" using m' k by simp_all
  have same: "?f s1 = ?q s1 \<and> \<not> isInLoopThread s1 \<and> loop_id s1 = l"
    if "acceptor_world.truncate s1 = w\<lparr>this_thread := this_thread s\<rparr>" for s1
    using record_of_focus [OF that] w(1,2) lk(1) by (simp add: runInLoop_def isInLoopThread_def loops_ok_def)
  obtain s5 :: server_world and st' where st': "on_loop l ?f s = Inr st'" "0 < wakeup_counter s5" "other_loops st' l = Some (acceptor_world.truncate s5)"
  proof (rule on_loop_other [OF lk(1) w(1,3), of ?f "\<lambda>s2. 0 < wakeup_counter s2"])
    fix s1 :: server_world assume s1: "acceptor_world.truncate s1 = w\<lparr>this_thread := this_thread s\<rparr>"
    then show "\<exists>s2. ?f s1 = Inr s2 \<and> loop_id s2 = l \<and> other_loops s2 = other_loops s1 \<and> 0 < wakeup_counter s2"
      using same [OF s1] foreign_queue_wakes [of s1] by (simp add: queueInLoop_def wakeup_def Let_def)
  qed blast
  obtain w1 where w1: "focus l s = Inr w1" "acceptor_world.truncate w1 = w\<lparr>this_thread := this_thread s\<rparr>"
    using focus_other [OF w(1) _ w(3)] lk(1) w(1) by (metis loops_ok_def)
  have "on_loop l ?f s = on_loop l ?q s" using w1 same [OF w1(2)] by (simp add: on_loop_def)
  with st'(1) on_loop_queue [OF lk, of "F_connectEstablished c"]
  have "same_server s st'" "queue_of st' = (queue_of s)(l := queue_of s l @ [F_connectEstablished c])" by auto
  then show ?thesis using that [of st' "acceptor_world.truncate s5"] st' by simp
qed

section \<open>Properties\<close>

text \<open>C12. Load balancing: in every reachable state of the server, whatever the loops have done and in
  whatever order, the connection with identifier \<open>i\<close> lives on the loop of thread \<open>i - 1\<close> modulo the
  number of threads, or on the base loop when there are none.\<close>

theorem connections_spread:
  assumes "reachable srv_start (srv_step user) st" and "benign user" and "conns_of st l c = Some x"
  shows "\<exists>i. 1 \<le> i \<and> i < nextConnId st \<and> conn_name x = srv_name st @ ''-'' @ srv_ipPort st @ ''#'' @ to_string i \<and>
    (let ls = loops (threadPool st) in l = (if ls = [] then srv_loop st else ls ! (nat (i - 1) mod length ls)))"
proof -
  have "balanced st" using bal.reachable_inv [OF assms(1)] assms(2) by blast
  then obtain i where "1 \<le> i" "i < nextConnId st" "conn_name x = full_name st i" "l = loop_for (threadPool st) i"
    "baseLoop (threadPool st) = srv_loop st" using assms(3) unfolding balanced_def by blast
  then show ?thesis by (intro exI [of _ i]) (auto simp: full_name_def loop_for_def getAllLoops_def Let_def)
qed

text \<open>C13. Accepting a connection in the base loop's thread never faults and hands it over to the next
  loop in turn: the connection is made there, connecting and under the next name; it is in the table;
  \<open>connectEstablished\<close> is at the end of that loop's queue and its \<open>eventfd\<close> is readable, and no other
  loop is touched.\<close>

theorem connection_handed_over:
  assumes "reachable srv_start (srv_step user) st" and "benign user" and "loop_id st = srv_loop st" and "isInLoopThread st"
    and "l = loop_for (threadPool st) (nextConnId st)" and "other_loops st l = Some w" and "threadId w \<noteq> this_thread st"
    and "conn_loop st c = None" and "chan_store w p = None" and "nextConnId st < 2 ^ 31 - 1"
  shows "\<exists>st' x w'. TcpServer_newConnection user c p fd peer st = Inr st' \<and>
    conn_state x = kConnecting \<and> conn_name x = full_name st (nextConnId st) \<and>
    conns_of st' = (conns_of st)(l := (conns_of st l)(c \<mapsto> x)) \<and>
    queue_of st' = (queue_of st)(l := queue_of st l @ [F_connectEstablished c]) \<and>
    other_loops st' l = Some w' \<and> 0 < wakeup_counter w' \<and>
    connections st' = (connections st)(conn_name x \<mapsto> c) \<and> conn_loop st' = (conn_loop st)(c \<mapsto> l) \<and>
    nextConnId st' = nextConnId st + 1"
proof -
  have inv: "srv_inv st" "balanced st" using bal.reachable_inv [OF assms(1)] assms(2) by blast+
  have lk: "loops_ok st" using inv(1) by (rule srv_invD)
  obtain a where k: "srv_ipPort st = toIpPort a" "1 \<le> nextConnId st" "nextConnId st < 2 ^ 31"
    using inv(1) by (auto simp: srv_inv_def)
  obtain pool where g: "getNextLoop (threadPool st) = Inr (l, pool)" using next_loop_for [OF inv(2) k(2)] assms(5) by blast
  have l: "l \<noteq> loop_id st" "known_loop st l" using lk assms(6) by (auto simp: loops_ok_def known_loop_def)
  have no: "conns w c = None"
    using table_okD(1) [OF srv_invD(2) [OF inv(1)], of l c] assms(6,8) l(1) by (cases "conns w c") (auto simp: conns_of_def)
  let ?s1 = "st\<lparr>threadPool := pool, nextConnId := nextConnId st + 1\<rparr>"
  let ?f = "TcpConnection_new (Some l) (server_connName st) fd c p :: server_world \<Rightarrow> server_world res"
  have lk1: "loops_ok ?s1" "other_loops ?s1 l = Some w" "l \<noteq> loop_id ?s1" using lk assms(6) l(1) by (simp_all add: loops_ok_def)
  obtain s2 :: server_world and st2 where st2: "on_loop l ?f ?s1 = Inr st2" "threadId s2 = threadId w" "other_loops st2 l = Some (acceptor_world.truncate s2)"
  proof (rule on_loop_other [OF lk1, of ?f "\<lambda>s2. threadId s2 = threadId w"])
    fix s :: server_world assume "acceptor_world.truncate s = w\<lparr>this_thread := this_thread ?s1\<rparr>"
    note r = record_of_focus [OF this]
    obtain s2 where s2: "?f s = Inr s2" "threadId s2 = threadId s" using TcpConnection_new_total [of s p c] r(3,4) assms(9) no by metis
    then show "\<exists>s2. ?f s = Inr s2 \<and> loop_id s2 = l \<and> other_loops s2 = other_loops s \<and> threadId s2 = threadId w"
      using TcpConnection_new_effect [OF s2(1)] r(1,2) lk assms(6) by (metis loops_ok_def)
  qed blast
  define s3 where "s3 = st2\<lparr>connections := (connections st2)(server_connName st \<mapsto> c), conn_loop := (conn_loop st2)(c \<mapsto> l)\<rparr>"
  obtain x where m: "conn_made st c l pool x s3" using conn_made_intro [OF lk st2(1)] unfolding s3_def by blast
  note m' = m [unfolded conn_made_def]
  obtain st' w' where st': "on_loop l (runInLoop (exec_conn_functor (server_callbacks user)) (F_connectEstablished c)) s3 = Inr st'"
    "other_loops st' l = Some w'" "0 < wakeup_counter w'" "same_server s3 st'"
    "queue_of st' = (queue_of s3)(l := queue_of s3 l @ [F_connectEstablished c])"
    by (rule handed_over [OF m, of "acceptor_world.truncate s2" "exec_conn_functor (server_callbacks user)"])
      (use st2 m' l assms(7) in \<open>simp_all add: s3_def\<close>)
  have "TcpServer_newConnection user c p fd peer st = Inr st'"
    using assms(3,4,10) g st2(1) st'(1) [unfolded s3_def]
    by (simp add: TcpServer_newConnection_def base_assertInLoopThread_def assertInLoopThread_def Let_def focus_def)
  moreover have "conn_name x = full_name st (nextConnId st)" using m' server_connName_full [OF k] by simp
  ultimately show ?thesis using st'(2-5) m'
    by (intro exI [of _ st'] exI [of _ x] exI [of _ w']) (simp add: same_server_def)
qed

section \<open>Examples\<close>

lemma demo_started_loops:
  "demo_started = Inr s0 \<Longrightarrow> loop_id s0 = srv_loop s0 \<and> isInLoopThread s0 \<and> nextConnId s0 = 1 \<and>
     loops (threadPool s0) = [2] \<and>
     (\<exists>w. other_loops s0 2 = Some w \<and> threadId w \<noteq> this_thread s0 \<and> chan_store w 20 = None)"
  by (auto simp: server_eval demo_eval)

theorem connections_spread_witness:
  "\<exists>st l x i. reachable srv_start (srv_step (user_callbacks idle_script)) st \<and> conns_of st l 1 = Some x \<and> 1 \<le> i \<and>
    conn_name x = srv_name st @ ''-'' @ srv_ipPort st @ ''#'' @ to_string i"
proof -
  let ?u = "user_callbacks idle_script :: server_world conn_callbacks"
  obtain s0 where s0: "demo_started = Inr s0" using demo_started_ok not_isl_Inr by blast
  obtain s1 where s1: "TcpServer_newConnection ?u 1 20 6 sockaddr_zero s0 = Inr s1"
    using demo_closed_ok unfolding s0 by (auto simp: demo_closed_def isl_def bindR_def split: sum.splits)
  have "reachable srv_start (srv_step ?u) s0" using demo_start [OF s0] by (rule reach_start)
  moreover have "srv_step ?u s0 s1" by (rule ss_accept [OF _ s1]) (simp add: demo_started_facts [OF s0])
  ultimately have r: "reachable srv_start (srv_step ?u) s1" by (rule reach_step)
  have "loops_ok s0" using demo_start [OF s0] srv_inv_start srv_invD(1) by blast
  from newConnection_exists [OF s1 this script_benign] obtain l x' where x': "conns_of s1 l 1 = Some x'" by blast
  from connections_spread [OF r script_benign x'] r x' show ?thesis by blast
qed

theorem connection_handed_over_witness:
  "\<exists>st st' x. reachable srv_start (srv_step (user_callbacks idle_script)) st \<and>
    TcpServer_newConnection (user_callbacks idle_script) 1 20 6 sockaddr_zero st = Inr st' \<and>
    conns_of st' 2 1 = Some x \<and> F_connectEstablished 1 \<in> set (queue_of st' 2)"
proof -
  let ?u = "user_callbacks idle_script :: server_world conn_callbacks"
  obtain s0 where s0: "demo_started = Inr s0" using demo_started_ok not_isl_Inr by blast
  have r: "reachable srv_start (srv_step ?u) s0" using demo_start [OF s0] by (rule reach_start)
  obtain w where w: "loop_id s0 = srv_loop s0" "isInLoopThread s0" "nextConnId s0 = 1" "loops (threadPool s0) = [2]"
    "other_loops s0 2 = Some w" "threadId w \<noteq> this_thread s0" "chan_store w 20 = None"
    using demo_started_loops [OF s0] by blast
  have l: "2 = loop_for (threadPool s0) (nextConnId s0)" using w(3,4) by (simp add: loop_for_def getAllLoops_def)
  have c: "conn_loop s0 1 = None" using demo_started_facts [OF s0] by simp
  have k: "nextConnId s0 < 2 ^ 31 - 1" using w(3) by simp
  from connection_handed_over [OF r script_benign w(1,2) l w(5,6) c w(7) k, of 6 sockaddr_zero]
  obtain st' x where "TcpServer_newConnection ?u 1 20 6 sockaddr_zero s0 = Inr st'"
    "conns_of st' = (conns_of s0)(2 := (conns_of s0 2)(1 \<mapsto> x))"
    "queue_of st' = (queue_of s0)(2 := queue_of s0 2 @ [F_connectEstablished 1])" by blast
  with r show ?thesis by (intro exI [of _ s0] exI [of _ st'] exI [of _ x]) simp
qed

end
