(* ===== verification/Server_Close.thy ===== *)
theory Server_Close
  imports Server_Balance
begin

text \<open>
  A connection that closes (\<open>TcpConnection::handleClose\<close>) calls \<open>TcpServer::removeConnection\<close>: in the
  base loop's thread the table entry goes at once, from another loop the removal is queued. In neither
  case can it fail.
\<close>

section \<open>The close callback of the server\<close>

text \<open>Everything \<open>handleClose\<close> does before its close callback.\<close>

abbreviation before_close :: "server_world conn_callbacks \<Rightarrow> server_world conn_callbacks" where
  "before_close user \<equiv> user\<lparr>closeCallback := (\<lambda>_. Inr)\<rparr>"

lemma handleClose_split:
  "TcpConnection_handleClose (server_callbacks user) c st =
     bindR (TcpConnection_handleClose (before_close user) c st) (TcpServer_removeConnection c)"
proof -
  have r: "bindR q Inr = q" for q :: "server_world res" by (cases q) simp_all
  show ?thesis
    by (cases "isInLoopThread st"; cases "conns st c")
      (simp_all add: TcpConnection_handleClose_def server_callbacks_def assertInLoopThread_def conn_deref_def
        bindR_assoc r assertR_def)
qed

text \<open>Whether the thread that runs is the one of the base loop.\<close>

definition in_base_thread :: "server_world \<Rightarrow> bool" where
  "in_base_thread st \<longleftrightarrow> (case focus (srv_loop st) st of Inl e \<Rightarrow> False | Inr b \<Rightarrow> isInLoopThread b)"

lemma removeConnection_spec:
  assumes inv: "srv_inv st" and r: "removable st l c x" and k: "known_loop st (srv_loop st)"
  obtains st' where "TcpServer_removeConnection c st = Inr st'"
    "if in_base_thread st
     then connections st' = (connections st)(conn_name x := None) \<and>
       queue_of st' = (queue_of st)(l := queue_of st l @ [F_connectDestroyed c])
     else connections st' = connections st \<and>
       queue_of st' = (queue_of st)(srv_loop st := queue_of st (srv_loop st) @ [F_removeConnectionInLoop c])"
    "conns_of st' = conns_of st"
proof -
  obtain b where b: "focus (srv_loop st) st = Inr b" using focus_known [OF k] by blast
  note v = focus_view [OF b srv_invD(1) [OF inv]]
  have bb: "srv_loop b = loop_id b" "queue_of b = queue_of st" "connections b = connections st" "conns_of b = conns_of st"
    using v(1,2) by (simp_all add: same_view_def same_server_def)
  show ?thesis
  proof (cases "isInLoopThread b")
    case True
    have fb: "focus (srv_loop b) b = Inr b" using bb(1) by simp
    have r': "removable b l c x" using r removable_view [OF v(1)] by simp
    obtain s where s: "TcpServer_removeConnectionInLoop c b = Inr s" "srv_inv s"
      "connections s = (connections b)(conn_name x := None)" "conns_of s = conns_of b"
      "queue_of s = (queue_of b)(l := queue_of b l @ [F_connectDestroyed c])" "loop_id s = loop_id b"
      by (rule removeInLoop_spec [OF same_view_inv [OF v(1) inv] fb True r'])
    have "srv_loop s = srv_loop b \<and> known_loop s = known_loop b"
      using removeInLoop_kept [OF s(1)] srv_invD(1) [OF same_view_inv [OF v(1) inv]] by (simp add: server_kept_def)
    moreover have "known_loop b (loop_id st)" using v(1) by (simp add: same_view_def same_server_def known_loop_def [of st])
    ultimately obtain st' where st': "focus (loop_id st) s = Inr st'" using focus_known by metis
    have "TcpServer_removeConnection c st = Inr st'"
      using b True s(1) st' by (simp add: TcpServer_removeConnection_def on_loop_def runInLoop_def)
    moreover have "same_view s st'" by (rule focus_view(1) [OF st' srv_invD(1) [OF s(2)]])
    moreover have "in_base_thread st" using b True by (simp add: in_base_thread_def)
    ultimately show ?thesis using that [of st'] s(3-5) bb by (simp add: same_view_def same_server_def)
  next
    case False
    have e: "TcpServer_removeConnection c st = on_loop (srv_loop st) (\<lambda>s. Inr (queueInLoop (F_removeConnectionInLoop c) s)) st"
      using b False by (simp add: TcpServer_removeConnection_def on_loop_def runInLoop_def)
    obtain st' where "on_loop (srv_loop st) (\<lambda>s. Inr (queueInLoop (F_removeConnectionInLoop c) s)) st = Inr st'" "same_server st st'"
      "queue_of st' = (queue_of st)(srv_loop st := queue_of st (srv_loop st) @ [F_removeConnectionInLoop c])"
      using on_loop_queue [OF srv_invD(1) [OF inv] k, of "F_removeConnectionInLoop c"] by blast
    moreover have "\<not> in_base_thread st" using b False by (simp add: in_base_thread_def)
    ultimately show ?thesis using that [of st'] e by (simp add: same_server_def)
  qed
qed

lemma close_spec:
  assumes inv: "srv_inv st" "balanced st" and user: "benign user"
    and ok: "TcpConnection_handleClose (before_close user) c st = Inr s"
  obtains x st' where "TcpConnection_handleClose (server_callbacks user) c st = Inr st'"
    "conns st c = Some x" "connections s (conn_name x) = Some c" "isInLoopThread s" "loop_frame st s"
    "if in_base_thread s
     then connections st' = (connections s)(conn_name x := None) \<and>
       queue_of st' = (queue_of s)(loop_id st := queue_of s (loop_id st) @ [F_connectDestroyed c])
     else connections st' = connections s \<and>
       queue_of st' = (queue_of s)(srv_loop s := queue_of s (srv_loop s) @ [F_removeConnectionInLoop c])"
proof -
  have "benign (before_close user)" using user by (simp add: benign_def)
  from ok this obtain s0 x x' where s0: "loop_frame st s0" "conns st c = Some x" "conn_state x \<noteq> kDisconnected"
    "conns s0 c = Some x'" "conn_state x' = kDisconnected" "closeCallback (before_close user) c s0 = Inr s" "isInLoopThread s0"
    by (rule handleClose_parts)
  then have s: "s0 = s" by simp
  note r = close_removable [OF inv(1) s0(1-5), unfolded s]
  have "balanced s" by (rule balanced_kept [OF loop_frame_kept [OF s0(1) [unfolded s]] srv_invD(1) [OF inv(1)] inv(2)])
  then have k: "known_loop s (srv_loop s)" by (simp add: balanced_def)
  have l: "loop_id s = loop_id st" using s0(1) s by (simp add: loop_frame_def)
  obtain st' where st': "TcpServer_removeConnection c s = Inr st'"
    "if in_base_thread s
     then connections st' = (connections s)(conn_name x' := None) \<and>
       queue_of st' = (queue_of s)(loop_id s := queue_of s (loop_id s) @ [F_connectDestroyed c])
     else connections st' = connections s \<and>
       queue_of st' = (queue_of s)(srv_loop s := queue_of s (srv_loop s) @ [F_removeConnectionInLoop c])"
    by (rule removeConnection_spec [OF r(1,2) k])
  have "TcpConnection_handleClose (server_callbacks user) c st = Inr st'"
    using ok st'(1) by (simp add: handleClose_split)
  moreover have "connections s (conn_name x) = Some c" using r(2,3) by (simp add: removable_def)
  ultimately show ?thesis using that [OF _ s0(2) _ s0(7) [unfolded s] s0(1) [unfolded s]] st'(2) r(3) l by simp
qed

section \<open>Property\<close>

text \<open>C6. Closing a connection never fails in the server: in every reachable state, if \<open>handleClose\<close>
  gets as far as its close callback, then it returns. In the base loop's thread the entry of the
  connection, which is in the table under its name, has then gone and \<open>connectDestroyed\<close> is queued on
  the connection's loop; from any other thread the removal is queued on the base loop.\<close>

theorem server_close_effect:
  assumes "reachable srv_start (srv_step user) st" and "benign user"
    and "TcpConnection_handleClose (before_close user) c st = Inr s"
  shows "\<exists>x st'. TcpConnection_handleClose (server_callbacks user) c st = Inr st' \<and>
    conns st c = Some x \<and> connections s (conn_name x) = Some c \<and>
    (if in_base_thread s
     then connections st' = (connections s)(conn_name x := None) \<and>
       queue_of st' = (queue_of s)(loop_id st := queue_of s (loop_id st) @ [F_connectDestroyed c])
     else connections st' = connections s \<and>
       queue_of st' = (queue_of s)(srv_loop s := queue_of s (srv_loop s) @ [F_removeConnectionInLoop c]))"
proof -
  have inv: "srv_inv st" "balanced st" using bal.reachable_inv [OF assms(1)] assms(2) by blast+
  from inv assms(2,3) show ?thesis by (rule close_spec) blast
qed

text \<open>A connection of an I/O loop is closed in the thread of that loop.\<close>

theorem server_close_effect_witness:
  "\<exists>st s st' x. reachable srv_start (srv_step (user_callbacks idle_script)) st \<and>
    TcpConnection_handleClose (before_close (user_callbacks idle_script)) 1 st = Inr s \<and>
    TcpConnection_handleClose (server_callbacks (user_callbacks idle_script)) 1 st = Inr st' \<and> conns st 1 = Some x \<and>
    connections s (conn_name x) = Some 1"
proof -
  let ?u = "user_callbacks idle_script :: server_world conn_callbacks"
  obtain st s4 where st: "reachable srv_start (srv_step ?u) st"
    "conn_channel_callback (server_callbacks ?u) 1 CloseEv st = Inr s4" by (rule demo_closing)
  then obtain s where s: "TcpConnection_handleClose (before_close ?u) 1 st = Inr s"
    by (auto simp: handleClose_split bindR_eq_Inr)
  from server_close_effect [OF st(1) script_benign s] st(1) s show ?thesis by blast
qed

end
