(* ===== verification/Server_Program.thy ===== *)
theory Server_Program
  imports Server_Close
begin

text \<open>
  What the programs of the repository share that construct an \<open>EventLoop\<close> and a \<open>TcpServer\<close> and start it: the
  process at the start of \<open>main\<close>, what the server's name, address and loops are from then on, and what
  this says of every connection.
\<close>

section \<open>The process\<close>

text \<open>A loop without connections, and a process whose only objects are a loop and the variables of a
  server not yet constructed.\<close>

definition loop_process :: "EventLoop \<Rightarrow> acceptor_world" where
  "loop_process l =
     conn_world.extend (EventLoop.EventLoop.extend l (conn_world.fields Map.empty)) (acceptor_world.fields (Socket_new 0) 0 False 0 {})"

definition server_process :: "EventLoop \<Rightarrow> server_world" where
  "server_process l =
     acceptor_world.extend (loop_process l) (server_world.fields Map.empty 0 [] [] (Pool_new 0 []) 0 0 Map.empty Map.empty)"

lemma loop_process_simps [simp]:
  "conns (loop_process l) = Map.empty" "pendingFunctors (loop_process l) = pendingFunctors l" "loop_id (loop_process l) = loop_id l"
  by (simp_all add: loop_process_def acceptor_world.defs conn_world.defs EventLoop.EventLoop.defs)

lemma server_process_simps [simp]:
  "conns (server_process l) = Map.empty" "pendingFunctors (server_process l) = pendingFunctors l"
  "loop_id (server_process l) = loop_id l" "other_loops (server_process l) = Map.empty" "conn_loop (server_process l) = Map.empty"
  by (simp_all add: server_process_def loop_process_def acceptor_world.defs server_world.defs conn_world.defs EventLoop.EventLoop.defs)

lemma poller_frame_loop:
  fixes st :: "'z EventLoop_scheme"
  assumes "poller_frame st st'"
  shows "pendingFunctors st' = pendingFunctors st" "loop_id st' = loop_id st"
  using assms by (cases st; cases st'; simp add: poller_frame_def)+

lemma enableReading_loop:
  fixes st :: "'z EventLoop_scheme"
  assumes "Channel_enableReading st p = Inr st'"
  shows "pendingFunctors st' = pendingFunctors st \<and> loop_id st' = loop_id st"
proof -
  have "poller_frame st st'" using assms unfolding Channel_enableReading_def by (rule change_events_frame)
  then show ?thesis using poller_frame_loop by blast
qed

lemma EventLoop_new_fresh:
  assumes "EventLoop_new use_poll l tid fails efd tp tfd wp wfd other now = Inr st"
  shows "loop_id st = l" and "pendingFunctors st = []"
proof -
  let ?e = "\<lambda>pl. Poller.extend pl (EventLoop.EventLoop.fields False False False False Timestamp_invalid TimerQueue_new tp wp 0 [] [] now)"
  obtain pl s1 s2 ch where s: "EPollPoller_new l tid fails efd = Inr pl" "TimerQueue_ctor tp tfd (?e pl) = Inr s1"
    "new_Channel s1 wp (Channel_new l wfd) = Inr s2" "Channel_enableReading (chan_put s2 wp (Channel_setReadCallback ch)) wp = Inr st"
    using assms by (auto elim!: EventLoop_new_parts)
  have "loop_id (?e pl) = l" "pendingFunctors (?e pl) = []"
    using s(1) by (auto simp: EPollPoller_new_def Poller.defs EventLoop.EventLoop.defs split: if_splits)
  moreover have "loop_id s1 = loop_id (?e pl)" "pendingFunctors s1 = pendingFunctors (?e pl)"
    using s(2) by (auto simp: TimerQueue_ctor_def new_Channel_def res_iffs chan_put_def split: if_splits dest!: enableReading_loop)
  moreover have "loop_id s2 = loop_id s1" "pendingFunctors s2 = pendingFunctors s1"
    using s(3) by (auto simp: new_Channel_def res_iffs chan_put_def)
  ultimately show "loop_id st = l" "pendingFunctors st = []" using enableReading_loop [OF s(4)] by (simp_all add: chan_put_def)
qed

text \<open>A server whose loops have just been constructed.\<close>

definition made_loop :: "nat \<Rightarrow> EventLoop \<Rightarrow> bool" where
  "made_loop l lp \<longleftrightarrow> (\<exists>use_poll tid fails epollfd tp timerfd wp evtfd now.
     EventLoop_new use_poll l tid fails epollfd tp timerfd wp evtfd False now = Inr lp)"

lemma made_loop_fresh:
  assumes "made_loop l lp"
  shows "fresh_loop (loop_process lp)" "fresh_loop (server_process lp)" "loop_id lp = l"
  using assms EventLoop_new_fresh by (auto simp: made_loop_def fresh_loop_def)

lemma server_process_started:
  assumes "made_loop l lp" and "\<And>i. fresh_loop (ws i) \<and> loop_id (ws i) \<noteq> l"
    and "TcpServer_new answers p a name option (server_process lp) = Inr s1"
    and "TcpServer_setThreadNum n s1 = Inr s2" and "TcpServer_start ws None ret s2 = Inr st"
  shows "server_started (server_process lp) a name n ws st"
proof -
  have "\<exists>answers p option ret s1 s2. TcpServer_new answers p a name option (server_process lp) = Inr s1 \<and>
      TcpServer_setThreadNum n s1 = Inr s2 \<and> TcpServer_start ws None ret s2 = Inr st" using assms(3-5) by blast
  then show ?thesis using made_loop_fresh(2,3) [OF assms(1)] assms(2) by (simp add: server_started_def)
qed

section \<open>What the steps of a server leave alone\<close>

definition same_config :: "server_world \<Rightarrow> server_world \<Rightarrow> bool" where
  "same_config st st' \<longleftrightarrow> srv_loop st' = srv_loop st \<and> srv_ipPort st' = srv_ipPort st \<and> srv_name st' = srv_name st \<and>
     loops (threadPool st') = loops (threadPool st)"

lemma kept_config: "server_kept st st' \<Longrightarrow> loops_ok st \<Longrightarrow> same_config st st'"
  by (simp add: server_kept_def same_config_def)

lemma step_config:
  assumes "srv_step user st st'" and "benign user" and "srv_inv st" and "balanced st"
  shows "same_config st st'"
  using step_kept [OF assms(1,2)]
proof
  assume "server_kept st st'"
  then show ?thesis using srv_invD(1) [OF assms(3)] by (rule kept_config)
next
  assume "\<exists>c p fd peer. conn_loop st c = None \<and> TcpServer_newConnection user c p fd peer st = Inr st'"
  then obtain c p fd peer where "TcpServer_newConnection user c p fd peer st = Inr st'" by blast
  from newConnection_kept [OF this srv_invD(1) [OF assms(3)] assms(2)] obtain l pool x s where
    s: "getNextLoop (threadPool st) = Inr (l, pool)" "conn_made st c l pool x s" "server_kept s st'" by blast
  have "same_config s st'" by (rule kept_config [OF s(3)]) (use s(2) in \<open>simp add: conn_made_def\<close>)
  moreover have "1 \<le> nextConnId st" using assms(3) by (simp add: srv_inv_def)
  then have "loops pool = loops (threadPool st)" using next_loop_for [OF assms(4)] s(1) by auto
  ultimately show ?thesis using s(2) by (simp add: same_config_def conn_made_def)
qed

definition program_config :: "nat \<Rightarrow> string \<Rightarrow> string \<Rightarrow> nat list \<Rightarrow> server_world \<Rightarrow> bool" where
  "program_config l addr name ls st \<longleftrightarrow>
     srv_loop st = l \<and> srv_ipPort st = addr \<and> srv_name st = name \<and> loops (threadPool st) = ls"

definition program_inv :: "nat \<Rightarrow> string \<Rightarrow> string \<Rightarrow> nat list \<Rightarrow> server_world \<Rightarrow> bool" where
  "program_inv l addr name ls st \<longleftrightarrow> srv_inv st \<and> balanced st \<and> program_config l addr name ls st"

lemma program_inv_start:
  assumes "server_started st0 a name n ws st"
  shows "program_inv (loop_id st0) (toIpPort a) name (map (\<lambda>i. loop_id (ws i)) [0..<nat n]) st"
proof -
  obtain ret s q where s: "pool_ready ws n s" "srv_loop s = loop_id s" "srv_inv s"
    "runInLoop (\<lambda>_. Acceptor_listen ret) F_listen s = Inr q" "focus (loop_id s) q = Inr st"
    "loop_id s = loop_id st0" "srv_ipPort s = toIpPort a" "srv_name s = name"
    by (rule server_started_parts [OF assms])
  have "same_config s st" using listen_kept [OF s(4,5)] srv_invD(1) [OF s(3)] by (rule kept_config)
  then have "program_config (loop_id st0) (toIpPort a) name (map (\<lambda>i. loop_id (ws i)) [0..<nat n]) st"
    using s(2,6-8) pool_ready_loops(1) [OF s(1)] by (simp add: same_config_def program_config_def)
  moreover have "srv_start st" using assms unfolding srv_start_def by blast
  ultimately show ?thesis using srv_inv_start balanced_start by (simp add: program_inv_def)
qed

lemma program_inv_step:
  assumes "program_inv l addr name ls st" and "srv_step user st st'" and "benign user"
  shows "program_inv l addr name ls st'"
  using assms step_config [OF assms(2,3)] srv_inv_step [OF assms(2) _ assms(3)] balanced_step [OF assms(2,3)]
  by (simp add: program_inv_def program_config_def same_config_def)

lemma program_inv_frame:
  assumes "program_inv l addr name ls st" and "loop_frame st st'"
  shows "program_inv l addr name ls st'"
proof -
  have k: "server_kept st st'" using assms(2) by (rule loop_frame_kept)
  have i: "srv_inv st" "balanced st" "loops_ok st" using assms(1) srv_invD(1) by (simp_all add: program_inv_def)
  then show ?thesis
    using assms kept_config [OF k i(3)] loop_frame_inv [OF assms(2) i(1)] balanced_kept [OF k i(3,2)]
    by (simp add: program_inv_def program_config_def same_config_def)
qed

text \<open>Every connection has the name and the loop its identifier determines, and is in the table until it
  is disconnected.\<close>

lemma program_conn:
  assumes "program_inv l addr name ls st" and "conns_of st l' c = Some x"
  shows "\<exists>i. 1 \<le> i \<and> i < nextConnId st \<and> conn_name x = name @ ''-'' @ addr @ ''#'' @ to_string i \<and>
      l' = (if ls = [] then l else ls ! (nat (i - 1) mod length ls))"
    and "conn_state x \<noteq> kDisconnected \<Longrightarrow> connections st (conn_name x) = Some c"
proof -
  have P: "balanced st" "srv_inv st" "srv_loop st = l" "srv_ipPort st = addr" "srv_name st = name" "loops (threadPool st) = ls"
    using assms(1) by (simp_all add: program_inv_def program_config_def)
  obtain i where "1 \<le> i" "i < nextConnId st" "conn_name x = full_name st i" "l' = loop_for (threadPool st) i"
    "baseLoop (threadPool st) = srv_loop st" using P(1) assms(2) unfolding balanced_def by blast
  then show "\<exists>i. 1 \<le> i \<and> i < nextConnId st \<and> conn_name x = name @ ''-'' @ addr @ ''#'' @ to_string i \<and>
      l' = (if ls = [] then l else ls ! (nat (i - 1) mod length ls))"
    using P(3-6) by (intro exI [of _ i]) (simp add: full_name_def loop_for_def getAllLoops_def)
  show "conn_state x \<noteq> kDisconnected \<Longrightarrow> connections st (conn_name x) = Some c"
    using table_okD(3) [OF srv_invD(2) [OF P(2)] assms(2)] by blast
qed

end
