(* ===== verification/Http_Program.thy ===== *)
theory Http_Program
  imports Http_Session Server_Program
begin

text \<open>
  The HTTP server of \<open>http/HttpServer.cc\<close> as a whole: \<open>main\<close> constructs an \<open>EventLoop\<close> and a \<open>TcpServer\<close> on
  port 8888, gives it \<open>onConnection\<close> and \<open>onMessage\<close> and starts it with four I/O threads. From there the
  program takes the steps of the server with these callbacks, time passes, and timers expire. The two
  calls that configure the logger are those of the theory \<open>Async_Logger\<close>; no operation here reads what
  they set.
\<close>

section \<open>The program\<close>

text \<open>
  \<open>mk_loop\<close> is the construction of \<open>loop\<close>, \<open>ws\<close> are the loops the threads construct, \<open>answers\<close> and \<open>ret\<close> the
  kernel's answers to the acceptor and to \<open>listen\<close>, \<open>p\<close> is the address of the acceptor's channel.
\<close>

definition HttpServer_main ::
    "EventLoop res \<Rightarrow> int \<times> int \<times> int \<times> int \<times> int \<Rightarrow> chan_ptr \<Rightarrow> (nat \<Rightarrow> acceptor_world) \<Rightarrow> int \<Rightarrow> server_world res" where
  "HttpServer_main mk_loop answers p ws ret =
     bindR mk_loop (\<lambda>loop.
       bindR (TcpServer_new answers p (InetAddress_ip_port ''0.0.0.0'' 8888) ''HttpServer'' kNoReusePort (server_process loop))
         (\<lambda>s. bindR (TcpServer_setThreadNum 4 s) (TcpServer_start ws None ret)))"

text \<open>The base loop is \<open>l\<close>, the loop of the \<open>i\<close>-th thread is \<open>wl i\<close>.\<close>

definition http_program_start :: "nat \<Rightarrow> (nat \<Rightarrow> nat) \<Rightarrow> server_world \<Rightarrow> bool" where
  "http_program_start l wl st \<longleftrightarrow> (\<exists>use_poll tid fails epollfd tp timerfd wp evtfd now answers p lps ret.
     (\<forall>i. made_loop (wl i) (lps i) \<and> wl i \<noteq> l) \<and>
     HttpServer_main (EventLoop_new use_poll l tid fails epollfd tp timerfd wp evtfd False now) answers p
       (\<lambda>i. loop_process (lps i)) ret = Inr st)"

inductive http_step :: "filesystem \<Rightarrow> (TimerQueue \<Rightarrow> timer_ptr) \<Rightarrow> server_world \<Rightarrow> server_world \<Rightarrow> bool"
  for fs :: filesystem and alloc :: "TimerQueue \<Rightarrow> timer_ptr" where
  hs_server: "srv_step (http_callbacks fs alloc) st st' \<Longrightarrow> http_step fs alloc st st'"
| hs_time: "http_step fs alloc st (st\<lparr>clock := now\<rparr>)"
| hs_timer: "isInLoopThread st \<Longrightarrow> http_timer_event now st = Inr st' \<Longrightarrow> http_step fs alloc st st'"

section \<open>The callbacks on the server\<close>

lemma timers_frame [simp]:
  fixes st :: "'z conn_world_scheme"
  shows "loop_frame st (st\<lparr>timerQueue := q\<rparr>)" "loop_frame st (st\<lparr>clock := now\<rparr>)"
  by (simp_all add: loop_frame_def)

lemma runAfter_frame:
  fixes st :: "'z conn_world_scheme"
  assumes "runAfter p delay cb st = Inr (tid, st')"
  shows "loop_frame st st'"
proof -
  obtain q where r: "runInLoop exec_timer_functor (F_addTimerInLoop p) (st\<lparr>timerQueue := q\<rparr>) = Inr st'"
    using assms by (auto simp: runAfter_def runAt_def EventLoop_addTimer_def bindR_eq_Inr)
  have "loop_frame (st\<lparr>timerQueue := q\<rparr>) st'"
    by (rule runInLoop_frame [OF r]) (auto intro: exec_timer_functor_frame simp del: exec_timer_functor.simps)
  then show ?thesis using timers_frame(1) loop_frame_trans by blast
qed

lemma cancel_frame:
  fixes st :: "'z conn_world_scheme"
  shows "EventLoop_cancel tid st = Inr st' \<Longrightarrow> loop_frame st st'"
  unfolding EventLoop_cancel_def
  by (erule runInLoop_frame) (auto intro: exec_timer_functor_frame simp del: exec_timer_functor.simps)

lemma context_put_frame: "context_put st c h = Inr st' \<Longrightarrow> loop_frame st st'"
  by (auto simp: context_put_def bindR_eq_Inr conn_deref_eq conn_kept_def intro: conn_put_frame)

lemma shutdown_frame:
  fixes st :: "'z conn_world_scheme"
  shows "TcpConnection_shutdown (exec_call_functor wcb) c st = Inr st' \<Longrightarrow> loop_frame st st'"
  using conn_call_frame [of wcb c CShutdown] by simp

lemma send_output_frame:
  fixes st :: "'z conn_world_scheme"
  assumes "send_output (exec_call_functor wcb) c st = Inr st'"
  shows "loop_frame st st'"
proof -
  obtain x where x: "conns st c = Some x" using assms by (auto simp: send_output_def bindR_eq_Inr conn_deref_eq)
  show ?thesis
  proof (cases "conn_state x = kConnected")
    case True
    then obtain msg b where r: "runInLoop (exec_call_functor wcb) (F_sendInLoop c msg) (conn_put st c (x\<lparr>outputBuffer := b\<rparr>)) = Inr st'"
      using assms x by (auto simp: send_output_def bindR_eq_Inr)
    have "loop_frame (conn_put st c (x\<lparr>outputBuffer := b\<rparr>)) st'"
      by (rule runInLoop_frame [OF r]) (auto intro: sendInLoop_frame)
    moreover have "loop_frame st (conn_put st c (x\<lparr>outputBuffer := b\<rparr>))" using x by (rule conn_put_frame) (simp add: conn_kept_def)
    ultimately show ?thesis using loop_frame_trans by blast
  qed (use assms x in \<open>simp add: send_output_def\<close>)
qed

lemma respond_frame:
  fixes st :: "'z conn_world_scheme"
  assumes "respond fs (exec_call_functor wcb) c ret st = Inr st'"
  shows "loop_frame st st'"
proof -
  obtain x h1 b s where x: "conns st c = Some x"
    and s: "send_output (exec_call_functor wcb) c (conn_put st c (x\<lparr>outputBuffer := b, conn_context := Some h1\<rparr>)) = Inr s"
    and r: "(if \<not> keepAlive h1 then TcpConnection_shutdown (exec_call_functor wcb) c s else context_put s c (resetState h1)) = Inr st'"
    using assms by (auto simp: respond_def bindR_eq_Inr conn_deref_eq)
  have "loop_frame st (conn_put st c (x\<lparr>outputBuffer := b, conn_context := Some h1\<rparr>))"
    using x by (rule conn_put_frame) (simp add: conn_kept_def)
  moreover have "loop_frame s st'" using r shutdown_frame context_put_frame by (simp split: if_splits)
  ultimately show ?thesis using send_output_frame [OF s] loop_frame_trans by blast
qed

lemma processMessage_frame:
  fixes st :: "'z conn_world_scheme"
  assumes "processMessage fs (exec_call_functor wcb) c st = Some (Inr st')"
  shows "loop_frame st st'"
proof -
  obtain x h1 b ret where x: "conns st c = Some x"
    and r: "(if ret = kNoRequest then Inr (conn_put st c (x\<lparr>inputBuffer := b, conn_context := Some h1\<rparr>))
      else respond fs (exec_call_functor wcb) c ret (conn_put st c (x\<lparr>inputBuffer := b, conn_context := Some h1\<rparr>))) = Inr st'"
    using assms by (auto simp: processMessage_def bindR_eq_Inr conn_deref_eq Let_def split: sum.splits)
  have "loop_frame st (conn_put st c (x\<lparr>inputBuffer := b, conn_context := Some h1\<rparr>))"
    using x by (rule conn_put_frame) (simp add: conn_kept_def)
  then show ?thesis using r
    by (cases "ret = kNoRequest") (auto dest: respond_frame elim: loop_frame_trans)
qed

lemma onConnection_frame:
  assumes "Http_onConnection p c st = Inr st'"
  shows "loop_frame st st'"
  using assms
  by (auto simp: Http_onConnection_def bindR_eq_Inr split: if_splits
      intro: cancel_frame loop_frame_trans [OF runAfter_frame context_put_frame])

lemma onMessage_frame:
  fixes st :: "'z conn_world_scheme"
  assumes "Http_onMessage fs (exec_call_functor wcb) p c st = Some (Inr st')"
  shows "loop_frame st st'"
proof -
  obtain h tid s1 s2 s3 where s: "EventLoop_cancel (http_timerId h) st = Inr s1" "runAfter p idle_timeout c s1 = Inr (tid, s2)"
    "context_put s2 c (h\<lparr>http_timerId := tid\<rparr>) = Inr s3" "processMessage fs (exec_call_functor wcb) c s3 = Some (Inr st')"
    using assms by (auto simp: Http_onMessage_def bindR_eq_Inr split: sum.splits)
  show ?thesis
    using cancel_frame [OF s(1)] runAfter_frame [OF s(2)] context_put_frame [OF s(3)] processMessage_frame [OF s(4)]
      loop_frame_trans by blast
qed

lemma http_benign: "benign (http_callbacks fs alloc)"
  by (auto simp: benign_def http_callbacks_def split: option.splits intro: onConnection_frame onMessage_frame)

lemma timer_event_frame:
  assumes "http_timer_event now st = Inr st'"
  shows "loop_frame st st'"
proof -
  obtain q cs where "foldR (timeoutCallback (exec_call_functor False)) cs (st\<lparr>timerQueue := q\<rparr>) = Inr st'"
    using assms by (auto simp: http_timer_event_def bindR_eq_Inr)
  then have "loop_frame (st\<lparr>timerQueue := q\<rparr>) st'"
    by (rule foldR_frame) (auto simp: timeoutCallback_def split: option.splits intro: shutdown_frame)
  then show ?thesis using timers_frame(1) loop_frame_trans by blast
qed

section \<open>Reachable states\<close>

lemma http_ipPort: "toIpPort (InetAddress_ip_port ''0.0.0.0'' 8888) = ''0.0.0.0:8888''"
  by code_simp

lemma http_start_inv:
  assumes "http_program_start l wl st"
  shows "program_inv l ''0.0.0.0:8888'' ''HttpServer'' (map wl [0..<4]) st"
proof -
  let ?a = "InetAddress_ip_port ''0.0.0.0'' 8888"
  obtain lp lps answers p ret s1 s2 where made: "made_loop l lp" and lps: "\<And>i. made_loop (wl i) (lps i) \<and> wl i \<noteq> l"
    and new: "TcpServer_new answers p ?a ''HttpServer'' kNoReusePort (server_process lp) = Inr s1"
    and n: "TcpServer_setThreadNum 4 s1 = Inr s2" and start: "TcpServer_start (\<lambda>i. loop_process (lps i)) None ret s2 = Inr st"
    using assms by (fastforce simp: http_program_start_def HttpServer_main_def made_loop_def [of l] bindR_eq_Inr)
  have w: "fresh_loop (loop_process (lps i)) \<and> loop_id (loop_process (lps i)) \<noteq> l" "loop_id (lps i) = wl i" for i
    using lps [of i] made_loop_fresh [of "wl i" "lps i"] by simp_all
  have "server_started (server_process lp) ?a ''HttpServer'' 4 (\<lambda>i. loop_process (lps i)) st"
    by (rule server_process_started [OF made w(1) new n start])
  from program_inv_start [OF this] show ?thesis using made_loop_fresh(3) [OF made] w(2) by (simp add: http_ipPort)
qed

lemma http_step_inv:
  assumes "program_inv l addr name ls st" and "http_step fs alloc st st'"
  shows "program_inv l addr name ls st'"
  using assms(2)
proof cases
  case hs_server
  then show ?thesis using program_inv_step [OF assms(1) _ http_benign] by blast
next
  case (hs_time now)
  then show ?thesis using program_inv_frame [OF assms(1)] by simp
next
  case (hs_timer now)
  then show ?thesis using program_inv_frame [OF assms(1) timer_event_frame] by blast
qed

interpretation hp: invariant_system "http_program_start l wl" "http_step fs alloc"
    "program_inv l ''0.0.0.0:8888'' ''HttpServer'' (map wl [0..<4])" for l wl fs alloc
  by unfold_locales (auto intro: http_start_inv http_step_inv)

section \<open>Property\<close>

text \<open>C10. The HTTP server as a program: in every state it reaches from \<open>main\<close>, whatever requests arrive and
  whichever timers expire, the connection of identifier \<open>i\<close> is called \<open>HttpServer-0.0.0.0:8888#i\<close>, lives on
  the loop of thread \<open>(i - 1) mod 4\<close> and is in the table until it is disconnected; and a connection that
  closes is taken out of the table, or its removal is queued on the base loop, without a fault.\<close>

theorem http_server_connections:
  assumes "reachable (http_program_start l wl) (http_step fs alloc) st"
  shows "(\<forall>l' c x. conns_of st l' c = Some x \<longrightarrow>
      (\<exists>i. 1 \<le> i \<and> i < nextConnId st \<and> conn_name x = ''HttpServer-0.0.0.0:8888#'' @ to_string i \<and>
        l' = wl (nat (i - 1) mod 4)) \<and>
      (conn_state x \<noteq> kDisconnected \<longrightarrow> connections st (conn_name x) = Some c)) \<and>
    (\<forall>c s. TcpConnection_handleClose (before_close (http_callbacks fs alloc)) c st = Inr s \<longrightarrow>
      (\<exists>x st'. TcpConnection_handleClose (server_callbacks (http_callbacks fs alloc)) c st = Inr st' \<and>
        conns st c = Some x \<and>
        (if in_base_thread s then connections st' = (connections s)(conn_name x := None)
         else F_removeConnectionInLoop c \<in> set (queue_of st' l))))"
proof -
  let ?u = "http_callbacks fs alloc :: server_world conn_callbacks"
  have I: "program_inv l ''0.0.0.0:8888'' ''HttpServer'' (map wl [0..<4]) st" by (rule hp.reachable_inv [OF assms])
  then have J: "srv_inv st" "balanced st" "srv_loop st = l" by (simp_all add: program_inv_def program_config_def)
  have "\<exists>i. 1 \<le> i \<and> i < nextConnId st \<and> conn_name x = ''HttpServer-0.0.0.0:8888#'' @ to_string i \<and> l' = wl (nat (i - 1) mod 4)"
    if "conns_of st l' c = Some x" for l' c x
    using program_conn(1) [OF I that] by (auto simp del: upt_rec_numeral)
  moreover have "\<exists>x st'. TcpConnection_handleClose (server_callbacks ?u) c st = Inr st' \<and> conns st c = Some x \<and>
      (if in_base_thread s then connections st' = (connections s)(conn_name x := None)
       else F_removeConnectionInLoop c \<in> set (queue_of st' l))"
    if ok: "TcpConnection_handleClose (before_close ?u) c st = Inr s" for c s
  proof -
    obtain x st' where e: "TcpConnection_handleClose (server_callbacks ?u) c st = Inr st'" "conns st c = Some x" "loop_frame st s"
      "if in_base_thread s
       then connections st' = (connections s)(conn_name x := None) \<and>
         queue_of st' = (queue_of s)(loop_id st := queue_of s (loop_id st) @ [F_connectDestroyed c])
       else connections st' = connections s \<and>
         queue_of st' = (queue_of s)(srv_loop s := queue_of s (srv_loop s) @ [F_removeConnectionInLoop c])"
      by (rule close_spec [OF J(1,2) http_benign ok])
    then show ?thesis using loop_frame_server [OF e(3)] J(3) by (intro exI [of _ x] exI [of _ st']) (auto split: if_splits)
  qed
  ultimately show ?thesis using program_conn(2) [OF I] by blast
qed

section \<open>A run\<close>

definition demo_io :: "nat \<Rightarrow> EventLoop" where
  "demo_io i = projr (EventLoop_new False (i + 2) (i + 8) linux_epoll_fails 3 10 4 11 5 False (Timestamp 0))"

lemma demo_io_made: "made_loop (i + 2) (demo_io i)"
proof -
  have "\<not> isl (EventLoop_new False (i + 2) (i + 8) linux_epoll_fails 3 10 4 11 5 False (Timestamp 0))"
    by (simp add: loop_eval linux_epoll_fails_def)
  then have "EventLoop_new False (i + 2) (i + 8) linux_epoll_fails 3 10 4 11 5 False (Timestamp 0) = Inr (demo_io i)"
    by (simp add: demo_io_def)
  then show ?thesis unfolding made_loop_def by blast
qed

definition demo_http :: "server_world res" where
  "demo_http = HttpServer_main (EventLoop_new False 1 7 linux_epoll_fails 3 10 4 11 5 False (Timestamp 0)) (6, 8, 0, 0, 0) 30
     (\<lambda>i. loop_process (demo_io i)) 0"

lemma upt_4: "[0..<4] = [0, 1, 2, 3]"
  by code_simp

lemma demo_http_ok: "\<not> isl (bindR demo_http (TcpServer_newConnection (http_callbacks one_file (\<lambda>q. 40)) 1 20 9 sockaddr_zero))"
  by (simp add: upt_4 demo_http_def HttpServer_main_def demo_io_def server_process_def loop_process_def loop_eval server_eval demo_eval)

lemma demo_http_facts: "demo_http = Inr st \<Longrightarrow> conn_loop st 1 = None"
  by (auto simp: demo_http_def HttpServer_main_def server_process_def loop_process_def loop_eval server_eval demo_eval)

theorem http_server_connections_witness:
  "\<exists>st l c x. reachable (http_program_start 1 (\<lambda>i. i + 2)) (http_step one_file (\<lambda>q. 40)) st \<and> conns_of st l c = Some x \<and>
    (\<exists>i. conn_name x = ''HttpServer-0.0.0.0:8888#'' @ to_string i \<and> l = nat (i - 1) mod 4 + 2)"
proof -
  let ?u = "http_callbacks one_file (\<lambda>q. 40) :: server_world conn_callbacks"
  let ?R = "reachable (http_program_start 1 (\<lambda>i. i + 2)) (http_step one_file (\<lambda>q. 40))"
  obtain st where "bindR demo_http (TcpServer_newConnection ?u 1 20 9 sockaddr_zero) = Inr st"
    using demo_http_ok not_isl_Inr by blast
  then obtain s0 where s0: "demo_http = Inr s0" "TcpServer_newConnection ?u 1 20 9 sockaddr_zero s0 = Inr st"
    by (auto simp: bindR_eq_Inr)
  have "\<forall>i. made_loop (i + 2) (demo_io i) \<and> i + 2 \<noteq> 1" using demo_io_made by simp
  then have start: "http_program_start 1 (\<lambda>i. i + 2) s0"
    using s0(1) unfolding demo_http_def http_program_start_def by blast
  have "srv_step ?u s0 st" by (rule ss_accept [OF demo_http_facts [OF s0(1)] s0(2)])
  then have "http_step one_file (\<lambda>q. 40) s0 st" by (rule hs_server)
  with start have r: "?R st" by (blast intro: reach_start reach_step)
  have "loops_ok s0" using http_start_inv [OF start] srv_invD(1) by (simp add: program_inv_def)
  from newConnection_exists [OF s0(2) this http_benign] obtain l x' where x': "conns_of st l 1 = Some x'" by blast
  with http_server_connections [OF r] obtain i where "conn_name x' = ''HttpServer-0.0.0.0:8888#'' @ to_string i"
    "l = nat (i - 1) mod 4 + 2" by blast
  with r x' show ?thesis by blast
qed

end
