(* ===== verification/LogStream.thy ===== *)
theory LogStream
  imports Timestamp
begin

text \<open>
  \<open>src/logger/FixedBuffer.h\<close>, \<open>LogStream.h\<close>, \<open>LogStream.cc\<close>: the fixed-size text buffer and the
  stream operators. A buffer is its capacity and the text written so far; \<open>cur_\<close> is the end of the
  text. Writing past the array is a fault. A \<open>const char *\<close> is an optional string (null or a C
  string).
\<close>

section \<open>FixedBuffer\<close>

record FixedBuffer =
  fb_size :: nat
  fb_text :: string

definition kSmallBuffer :: nat where "kSmallBuffer = 4000"
definition kLargeBuffer :: nat where "kLargeBuffer = 4000 * 1000"

definition FixedBuffer_new :: "nat \<Rightarrow> FixedBuffer" where
  "FixedBuffer_new n = \<lparr>fb_size = n, fb_text = []\<rparr>"

definition fb_avail :: "FixedBuffer \<Rightarrow> nat" where
  "fb_avail b = fb_size b - length (fb_text b)"

definition FixedBuffer_append :: "FixedBuffer \<Rightarrow> string \<Rightarrow> FixedBuffer" where
  "FixedBuffer_append b s = (if length s < fb_avail b then b\<lparr>fb_text := fb_text b @ s\<rparr> else b)"

definition FixedBuffer_reset :: "FixedBuffer \<Rightarrow> FixedBuffer" where
  "FixedBuffer_reset b = b\<lparr>fb_text := []\<rparr>"

definition FixedBuffer_toString :: "FixedBuffer \<Rightarrow> string" where
  "FixedBuffer_toString b = fb_text b"

text \<open>Bytes stored at \<open>current()\<close> followed by \<open>add\<close>; \<open>extra\<close> bytes are stored but not kept.\<close>

definition fb_store :: "FixedBuffer \<Rightarrow> string \<Rightarrow> nat \<Rightarrow> FixedBuffer res" where
  "fb_store b s extra =
     requireR (length s + extra \<le> fb_avail b) (BadAccess ''write past data_'')
       (Inr (b\<lparr>fb_text := fb_text b @ s\<rparr>))"

definition fb_inv :: "FixedBuffer \<Rightarrow> bool" where
  "fb_inv b \<longleftrightarrow> length (fb_text b) \<le> fb_size b"

section \<open>LogStream\<close>

definition kMaxNumericSize :: nat where "kMaxNumericSize = 48"

definition digits :: string where "digits = ''9876543210123456789''"

text \<open>
  The loop of \<open>formatInteger\<close>: C++ division truncates towards zero, so the remainder of a negative
  number is negative and indexes the table to the left of \<open>zero\<close>.
\<close>

function format_loop :: "int \<Rightarrow> string" where
  "format_loop num =
     (digits ! nat (9 + num smod 10)) # (if num sdiv 10 = 0 then [] else format_loop (num sdiv 10))"
  by pat_completeness auto

lemma abs_sdiv_10: "nat \<bar>num sdiv 10\<bar> = nat \<bar>num\<bar> div 10"
  by (simp add: signed_divide_int_def abs_mult sgn_if nat_div_distrib)

termination format_loop
proof (relation "measure (\<lambda>n. nat \<bar>n\<bar>)")
  fix num :: int
  assume "num sdiv 10 \<noteq> 0"
  then have "nat \<bar>num\<bar> div 10 \<noteq> 0" using abs_sdiv_10 [of num] by auto
  then show "(num sdiv 10, num) \<in> measure (\<lambda>n. nat \<bar>n\<bar>)" using abs_sdiv_10 [of num] by auto
qed simp

definition formatInteger :: "int \<Rightarrow> FixedBuffer \<Rightarrow> FixedBuffer res" where
  "formatInteger num b =
     (if kMaxNumericSize \<le> fb_avail b
      then fb_store b (rev (format_loop num @ (if num < 0 then ''-'' else []))) 1
      else Inr b)"

definition put_char :: "char \<Rightarrow> FixedBuffer \<Rightarrow> FixedBuffer" where
  "put_char c b = FixedBuffer_append b [c]"

definition put_cstr :: "string option \<Rightarrow> FixedBuffer \<Rightarrow> FixedBuffer" where
  "put_cstr str b = (case str of Some s \<Rightarrow> FixedBuffer_append b s | None \<Rightarrow> FixedBuffer_append b ''(null)'')"

definition put_string :: "string \<Rightarrow> FixedBuffer \<Rightarrow> FixedBuffer" where
  "put_string s b = FixedBuffer_append b s"

definition put_buffer :: "FixedBuffer \<Rightarrow> FixedBuffer \<Rightarrow> FixedBuffer" where
  "put_buffer buf b = put_string (FixedBuffer_toString buf) b"

text \<open>\<open>GeneralTemplate(data, len)\<close>: \<open>len\<close> characters are read whatever the length of the text.\<close>

definition put_template :: "string \<Rightarrow> nat \<Rightarrow> FixedBuffer \<Rightarrow> FixedBuffer res" where
  "put_template data len b =
     requireR (len \<le> length data) (BadAccess ''GeneralTemplate'') (Inr (FixedBuffer_append b (take len data)))"

text \<open>The operators on integer types, each a conversion that keeps the value and \<open>formatInteger\<close>.\<close>

definition put_integer :: "int \<Rightarrow> FixedBuffer \<Rightarrow> FixedBuffer res" where
  "put_integer v b = formatInteger v b"

text \<open>
  \<open>operator<<(double)\<close>: \<open>shown\<close> is what \<open>\%.12g\<close> makes of the number. The function has no \<open>return\<close>
  statement on the other branch, and its caller goes on with the reference it should have returned.
\<close>

definition put_double :: "string \<Rightarrow> FixedBuffer \<Rightarrow> FixedBuffer res" where
  "put_double shown b =
     (if kMaxNumericSize \<le> fb_avail b
      then fb_store b (take (kMaxNumericSize - 1) shown) 1
      else Inl (BadAccess ''operator<<(double) returns nothing''))"

text \<open>
  \<open>operator<<(const void *)\<close> converts to \<open>const char *\<close>: the bytes at the address are printed.
\<close>

definition put_pointer :: "string option \<Rightarrow> FixedBuffer \<Rightarrow> FixedBuffer" where
  "put_pointer memory b = put_cstr memory b"

section \<open>Facts\<close>

declare format_loop.simps [simp del]

lemma digits_pos: "0 \<le> r \<Longrightarrow> r < 10 \<Longrightarrow> digits ! nat (9 + r) = digit_char (nat r)"
proof -
  assume r: "0 \<le> r" "r < 10"
  then have "r = 0 \<or> r = 1 \<or> r = 2 \<or> r = 3 \<or> r = 4 \<or> r = 5 \<or> r = 6 \<or> r = 7 \<or> r = 8 \<or> r = 9" by presburger
  then show ?thesis by (elim disjE) (simp_all add: digits_def digit_char_def nth_Cons')
qed

lemma digits_neg: "r \<le> 0 \<Longrightarrow> -10 < r \<Longrightarrow> digits ! nat (9 + r) = digit_char (nat (- r))"
proof -
  assume r: "r \<le> 0" "-10 < r"
  then have "r = 0 \<or> r = -1 \<or> r = -2 \<or> r = -3 \<or> r = -4 \<or> r = -5 \<or> r = -6 \<or> r = -7 \<or> r = -8 \<or> r = -9" by presburger
  then show ?thesis by (elim disjE) (simp_all add: digits_def digit_char_def nth_Cons')
qed

lemma smod_10_pos: "0 \<le> (num::int) \<Longrightarrow> num smod 10 = num mod 10"
  by (cases "num = 0") (simp_all add: signed_modulo_int_def signed_divide_int_def)

lemma smod_10_neg: "(num::int) < 0 \<Longrightarrow> num smod 10 = - ((- num) mod 10)"
  by (simp add: signed_modulo_int_def signed_divide_int_def)

lemma format_digit: "digits ! nat (9 + num smod 10) = digit_char (nat \<bar>num\<bar> mod 10)"
proof (cases "0 \<le> num")
  case True
  then show ?thesis using digits_pos [of "num mod 10"] by (simp add: smod_10_pos nat_mod_distrib)
next
  case False
  let ?r = "(- num) mod 10"
  have "digits ! nat (9 + - ?r) = digit_char (nat ?r)" using digits_neg [of "- ?r"] by simp
  moreover have "nat ?r = nat \<bar>num\<bar> mod 10" using False by (simp add: nat_mod_distrib)
  ultimately show ?thesis using False by (simp add: smod_10_neg)
qed

lemma rev_format_loop: "rev (format_loop num) = dec_nat (nat \<bar>num\<bar>)"
proof (induction num rule: format_loop.induct)
  case (1 num)
  have small: "num sdiv 10 = 0 \<longleftrightarrow> nat \<bar>num\<bar> < 10"
    using abs_sdiv_10 [of num] by (auto simp: div_eq_0_iff)
  show ?case
  proof (cases "num sdiv 10 = 0")
    case True
    then show ?thesis using small
      by (subst format_loop.simps, subst dec_nat.simps) (simp add: format_digit)
  next
    case False
    then have "rev (format_loop num) = dec_nat (nat \<bar>num\<bar> div 10) @ [digit_char (nat \<bar>num\<bar> mod 10)]"
      using 1 abs_sdiv_10 [of num] by (subst format_loop.simps) (simp add: format_digit)
    then show ?thesis using False small by (subst dec_nat.simps) simp
  qed
qed

lemma format_text: "rev (format_loop num @ (if num < 0 then ''-'' else [])) = to_string num"
  by (simp add: rev_format_loop to_string_def)

lemma length_to_string:
  assumes "- (2 ^ 63) \<le> num" and "num < 2 ^ 64"
  shows "length (to_string num) \<le> 21"
proof -
  have "nat \<bar>num\<bar> < 10 ^ 20" using assms by (simp add: nat_less_iff abs_if)
  then have "length (dec_nat (nat \<bar>num\<bar>)) \<le> 20" by (intro length_dec_nat) simp_all
  then show ?thesis by (cases "num < 0") (simp_all add: to_string_def)
qed

text \<open>C40. \<open>formatInteger\<close>, the digit table and the loop of truncating divisions included, writes the
  decimal numeral of every value of every integer type up to 64 bits, the most negative ones
  included, without writing past the buffer; with less than 48 bytes left it writes nothing.\<close>

theorem formatInteger_correct:
  assumes "- (2 ^ 63) \<le> num" and "num < 2 ^ 64"
  shows "formatInteger num b =
    Inr (if kMaxNumericSize \<le> fb_avail b then b\<lparr>fb_text := fb_text b @ to_string num\<rparr> else b)"
  unfolding formatInteger_def format_text
  using length_to_string [OF assms] by (simp add: fb_store_def kMaxNumericSize_def)

theorem formatInteger_correct_witness:
  "formatInteger (-32768) (FixedBuffer_new 4000) =
    Inr \<lparr>fb_size = 4000, fb_text = ''-32768''\<rparr>"
proof -
  have n: "to_string (-32768) = ''-32768''" by code_simp
  have "formatInteger (-32768) (FixedBuffer_new 4000) =
      Inr (if kMaxNumericSize \<le> fb_avail (FixedBuffer_new 4000)
           then (FixedBuffer_new 4000)\<lparr>fb_text := fb_text (FixedBuffer_new 4000) @ to_string (-32768)\<rparr>
           else FixedBuffer_new 4000)"
    by (rule formatInteger_correct) simp_all
  then show ?thesis unfolding n by (simp add: FixedBuffer_new_def fb_avail_def kMaxNumericSize_def)
qed

lemma fb_avail_append:
  "length s < fb_avail b \<Longrightarrow> fb_text (FixedBuffer_append b s) = fb_text b @ s \<and>
     fb_avail (FixedBuffer_append b s) = fb_avail b - length s \<and> fb_size (FixedBuffer_append b s) = fb_size b"
  by (simp add: FixedBuffer_append_def fb_avail_def)

lemma FixedBuffer_append_inv: "fb_inv b \<Longrightarrow> fb_inv (FixedBuffer_append b s)"
  by (auto simp: fb_inv_def FixedBuffer_append_def fb_avail_def)

end
