(* ===== verification/Logger.thy ===== *)
theory Logger
  imports LogStream
begin

text \<open>
  \<open>src/logger/Logging.h\<close>, \<open>Logging.cc\<close>: levels, the file name, the time stamp and the log line from the
  constructor of the \<open>Logger\<close> to its destructor. The state is the module's globals; \<open>g_out\<close> is the
  sequence of texts handed to the output function. The clock, \<open>localtime\<close> and \<open>strerror_r\<close> are
  arguments. What a statement puts into the stream between the two is a list of items.
\<close>

section \<open>Levels and file names\<close>

datatype LogLevel = TRACE | DEBUG | INFO | WARN | ERROR | FATAL

fun level_num :: "LogLevel \<Rightarrow> nat" where
  "level_num TRACE = 0" | "level_num DEBUG = 1" | "level_num INFO = 2"
| "level_num WARN = 3" | "level_num ERROR = 4" | "level_num FATAL = 5"

lemma level_num_inject: "level_num a = level_num b \<Longrightarrow> a = b"
  by (cases a; cases b; simp)

instantiation LogLevel :: linorder
begin

definition less_eq_LogLevel :: "LogLevel \<Rightarrow> LogLevel \<Rightarrow> bool" where
  "less_eq_LogLevel a b \<longleftrightarrow> level_num a \<le> level_num b"

definition less_LogLevel :: "LogLevel \<Rightarrow> LogLevel \<Rightarrow> bool" where
  "less_LogLevel a b \<longleftrightarrow> level_num a < level_num b"

instance
  by standard (auto simp: less_eq_LogLevel_def less_LogLevel_def intro: level_num_inject)

end

fun getLevelName :: "LogLevel \<Rightarrow> string" where
  "getLevelName TRACE = ''TRACE ''" | "getLevelName DEBUG = ''DEBUG ''" | "getLevelName INFO = ''INFO  ''"
| "getLevelName WARN = ''WARN  ''" | "getLevelName ERROR = ''ERROR ''" | "getLevelName FATAL = ''FATAL ''"

text \<open>\<open>strrchr\<close>: the offset of the last occurrence.\<close>

fun strrchr :: "string \<Rightarrow> char \<Rightarrow> nat option" where
  "strrchr [] c = None"
| "strrchr (x # xs) c =
     (case strrchr xs c of Some i \<Rightarrow> Some (Suc i) | None \<Rightarrow> if x = c then Some 0 else None)"

record SourceFile =
  sf_data :: string
  sf_size :: nat

definition SourceFile_new :: "string \<Rightarrow> SourceFile" where
  "SourceFile_new filename =
     (let d = (case strrchr filename (CHR ''/'') of Some slash \<Rightarrow> drop (slash + 1) filename | None \<Rightarrow> filename)
      in \<lparr>sf_data = d, sf_size = length d\<rparr>)"

section \<open>The log line\<close>

record logger_globals =
  g_logLevel :: LogLevel
  t_time :: string
  t_lastSecond :: int
  g_out :: "string list"

definition initLogLevel :: LogLevel where
  "initLogLevel = INFO"

definition setLogLevel :: "LogLevel \<Rightarrow> logger_globals \<Rightarrow> logger_globals" where
  "setLogLevel level g = g\<lparr>g_logLevel := level\<rparr>"

record Impl =
  impl_time :: Timestamp
  impl_stream :: FixedBuffer
  impl_level :: LogLevel
  impl_line :: int
  impl_basename :: SourceFile

definition formatTime ::
    "(int \<Rightarrow> tm) \<Rightarrow> Timestamp \<Rightarrow> Impl \<Rightarrow> logger_globals \<Rightarrow> (Impl \<times> logger_globals) res" where
  "formatTime localtime now im g =
     (let seconds = microSecondsSinceEpoch now sdiv kMicroSecondsPerSecond;
          microseconds = microSecondsSinceEpoch now smod kMicroSecondsPerSecond;
          g1 = g\<lparr>t_time := snprintf_buf 64 (format_date_time (localtime seconds)), t_lastSecond := seconds\<rparr>;
          buf = snprintf_buf 32 (pad_zero 6 microseconds @ '' '')
      in bindR (put_template (t_time g1) 17 (impl_stream im)) (\<lambda>s.
           bindR (put_template buf 7 s) (\<lambda>s1. Inr (im\<lparr>impl_stream := s1\<rparr>, g1))))"

text \<open>\<open>now1\<close> and \<open>now2\<close>: the clock is read for \<open>time_\<close> and again in \<open>formatTime\<close>.\<close>

definition Impl_new ::
    "(int \<Rightarrow> tm) \<Rightarrow> (int \<Rightarrow> string) \<Rightarrow> Timestamp \<Rightarrow> Timestamp \<Rightarrow> LogLevel \<Rightarrow> int \<Rightarrow> string \<Rightarrow> int \<Rightarrow>
     logger_globals \<Rightarrow> (Impl \<times> logger_globals) res" where
  "Impl_new localtime strerror now1 now2 level savedErrno file line g =
     bindR (formatTime localtime now2
              \<lparr>impl_time = now1, impl_stream = FixedBuffer_new kSmallBuffer, impl_level = level,
               impl_line = line, impl_basename = SourceFile_new file\<rparr> g) (\<lambda>(im, g1).
       bindR (put_template (getLevelName level) 6 (impl_stream im)) (\<lambda>s.
         if savedErrno \<noteq> 0
         then bindR (put_integer savedErrno
                       (put_cstr (Some '' (errno='') (put_cstr (Some (strerror savedErrno)) s))) (\<lambda>s1.
                Inr (im\<lparr>impl_stream := put_cstr (Some '') '') s1\<rparr>, g1))
         else Inr (im\<lparr>impl_stream := s\<rparr>, g1)))"

definition Impl_finish :: "Impl \<Rightarrow> Impl res" where
  "Impl_finish im =
     bindR (put_template (sf_data (impl_basename im)) (sf_size (impl_basename im))
              (put_cstr (Some '' - '') (impl_stream im))) (\<lambda>s.
       bindR (put_integer (impl_line im) (put_char (CHR '':'') s)) (\<lambda>s1.
         Inr (im\<lparr>impl_stream := put_char (CHR ''\<newline>'') s1\<rparr>)))"

text \<open>What user code streams into the logger.\<close>

datatype log_item = ItemStr string | ItemCStr "string option" | ItemInt int | ItemChar char | ItemDouble string

fun put_item :: "log_item \<Rightarrow> FixedBuffer \<Rightarrow> FixedBuffer res" where
  "put_item (ItemStr s) b = Inr (put_string s b)"
| "put_item (ItemCStr s) b = Inr (put_cstr s b)"
| "put_item (ItemInt i) b = put_integer i b"
| "put_item (ItemChar c) b = Inr (put_char c b)"
| "put_item (ItemDouble s) b = put_double s b"

text \<open>The constructor with a function name also streams the name and a blank.\<close>

definition Logger_new ::
    "(int \<Rightarrow> tm) \<Rightarrow> (int \<Rightarrow> string) \<Rightarrow> Timestamp \<Rightarrow> Timestamp \<Rightarrow> string \<Rightarrow> int \<Rightarrow> LogLevel \<Rightarrow> int \<Rightarrow>
     string option \<Rightarrow> logger_globals \<Rightarrow> (Impl \<times> logger_globals) res" where
  "Logger_new localtime strerror now1 now2 file line level savedErrno func g =
     bindR (Impl_new localtime strerror now1 now2 level savedErrno file line g) (\<lambda>(im, g1).
       case func of
         None \<Rightarrow> Inr (im, g1)
       | Some f \<Rightarrow> Inr (im\<lparr>impl_stream := put_char (CHR '' '') (put_cstr (Some f) (impl_stream im))\<rparr>, g1))"

text \<open>The destructor; \<open>abort\<close> after the output of a fatal line.\<close>

definition Logger_delete :: "Impl \<Rightarrow> logger_globals \<Rightarrow> logger_globals res" where
  "Logger_delete im g =
     bindR (Impl_finish im) (\<lambda>im1.
       let g1 = g\<lparr>g_out := g_out g @ [fb_text (impl_stream im1)]\<rparr> in
       if impl_level im1 = FATAL then Inl (FatalLog (fb_text (impl_stream im1))) else Inr g1)"

section \<open>The macros\<close>

datatype log_macro =
  LOG_TRACE | LOG_DEBUG | LOG_INFO | LOG_WARN | LOG_ERROR | LOG_FATAL | LOG_SYSERR | LOG_SYSFATAL

fun macro_level :: "log_macro \<Rightarrow> LogLevel" where
  "macro_level LOG_TRACE = TRACE" | "macro_level LOG_DEBUG = DEBUG" | "macro_level LOG_INFO = INFO"
| "macro_level LOG_WARN = WARN" | "macro_level LOG_ERROR = ERROR" | "macro_level LOG_FATAL = FATAL"
| "macro_level LOG_SYSERR = ERROR" | "macro_level LOG_SYSFATAL = FATAL"

text \<open>Only the three lowest macros test the configured level.\<close>

definition macro_enabled :: "log_macro \<Rightarrow> logger_globals \<Rightarrow> bool" where
  "macro_enabled m g \<longleftrightarrow>
     (m \<in> {LOG_TRACE, LOG_DEBUG, LOG_INFO} \<longrightarrow> g_logLevel g \<le> macro_level m)"

definition macro_func :: "log_macro \<Rightarrow> string \<Rightarrow> string option" where
  "macro_func m func = (if m \<in> {LOG_TRACE, LOG_DEBUG} then Some func else None)"

definition macro_errno :: "log_macro \<Rightarrow> int \<Rightarrow> int" where
  "macro_errno m err = (if m \<in> {LOG_SYSERR, LOG_SYSFATAL} then err else 0)"

definition log_statement ::
    "(int \<Rightarrow> tm) \<Rightarrow> (int \<Rightarrow> string) \<Rightarrow> Timestamp \<Rightarrow> Timestamp \<Rightarrow> log_macro \<Rightarrow> string \<Rightarrow> int \<Rightarrow> string \<Rightarrow> int \<Rightarrow>
     log_item list \<Rightarrow> logger_globals \<Rightarrow> logger_globals res" where
  "log_statement localtime strerror now1 now2 m file line func err items g =
     (if macro_enabled m g
      then bindR (Logger_new localtime strerror now1 now2 file line (macro_level m) (macro_errno m err)
                    (macro_func m func) g) (\<lambda>(im, g1).
             bindR (foldR put_item items (impl_stream im)) (\<lambda>s.
               Logger_delete (im\<lparr>impl_stream := s\<rparr>) g1))
      else Inr g)"

section \<open>Putting text into a stream with room\<close>

text \<open>A stream buffer holding \<open>t\<close>, with at least 48 bytes to spare after \<open>s\<close>.\<close>

abbreviation small :: "string \<Rightarrow> FixedBuffer" where
  "small t \<equiv> \<lparr>fb_size = 4000, fb_text = t\<rparr>"

definition room :: "string \<Rightarrow> string \<Rightarrow> bool" where
  "room t s \<longleftrightarrow> length t + length s \<le> 3952"

definition int64 :: "int \<Rightarrow> bool" where
  "int64 i \<longleftrightarrow> - (2 ^ 63) \<le> i \<and> i < 2 ^ 64"

lemma roomD: "room t s \<Longrightarrow> length s < 4000 - length t \<and> 48 \<le> 4000 - length t"
  unfolding room_def by linarith

lemma append_room [simp]: "room t s \<Longrightarrow> FixedBuffer_append (small t) s = small (t @ s)"
  using roomD [of t s] by (simp add: FixedBuffer_append_def fb_avail_def)

lemma put_cstr_room [simp]: "room t s \<Longrightarrow> put_cstr (Some s) (small t) = small (t @ s)"
  by (simp add: put_cstr_def)

lemma put_char_room [simp]: "room t [c] \<Longrightarrow> put_char c (small t) = small (t @ [c])"
  by (simp add: put_char_def)

lemma put_template_room [simp]:
  "n \<le> length s \<Longrightarrow> room t (take n s) \<Longrightarrow> put_template s n (small t) = Inr (small (t @ take n s))"
  by (simp add: put_template_def)

lemma put_integer_eq:
  "int64 i \<Longrightarrow> put_integer i b =
    Inr (if kMaxNumericSize \<le> fb_avail b then b\<lparr>fb_text := fb_text b @ to_string i\<rparr> else b)"
  unfolding put_integer_def int64_def formatInteger_def format_text
  using length_to_string [of i] by (simp add: fb_store_def kMaxNumericSize_def)

lemma put_integer_room [simp]:
  "int64 i \<Longrightarrow> room t (to_string i) \<Longrightarrow> put_integer i (small t) = Inr (small (t @ to_string i))"
  using roomD [of t "to_string i"] by (simp add: put_integer_eq fb_avail_def kMaxNumericSize_def)

lemma room_mono: "length t + length s \<le> length t' + length s' \<Longrightarrow> room t' s' \<Longrightarrow> room t s"
  by (simp add: room_def)

fun item_text :: "log_item \<Rightarrow> string" where
  "item_text (ItemStr s) = s"
| "item_text (ItemCStr None) = ''(null)''"
| "item_text (ItemCStr (Some s)) = s"
| "item_text (ItemInt i) = to_string i"
| "item_text (ItemChar c) = [c]"
| "item_text (ItemDouble s) = take 47 s"

fun item_ok :: "log_item \<Rightarrow> bool" where
  "item_ok (ItemInt i) = int64 i"
| "item_ok _ = True"

lemma put_item_room:
  "item_ok x \<Longrightarrow> room t (item_text x) \<Longrightarrow> put_item x (small t) = Inr (small (t @ item_text x))"
proof (cases x)
  case (ItemCStr s)
  then show "item_ok x \<Longrightarrow> room t (item_text x) \<Longrightarrow> ?thesis" by (cases s) (simp_all add: put_cstr_def)
next
  case (ItemDouble s)
  then show "item_ok x \<Longrightarrow> room t (item_text x) \<Longrightarrow> ?thesis" using roomD [of t "take 47 s"]
    by (simp add: put_double_def kMaxNumericSize_def fb_avail_def fb_store_def)
qed (simp_all add: put_string_def)

lemma put_items_room:
  assumes "list_all item_ok xs" and "room t (concat (map item_text xs))"
  shows "foldR put_item xs (small t) = Inr (small (t @ concat (map item_text xs)))"
  using assms
proof (induction xs arbitrary: t)
  case Nil
  then show ?case by simp
next
  case (Cons x xs)
  have "room t (item_text x)" "room (t @ item_text x) (concat (map item_text xs))"
    using Cons.prems(2) by (simp_all add: room_def)
  with Cons show ?case by (simp add: put_item_room)
qed

section \<open>The text of a line\<close>

definition stamp_text :: "(int \<Rightarrow> tm) \<Rightarrow> Timestamp \<Rightarrow> string" where
  "stamp_text lt now = take 17 (format_date_time (lt (secondsSinceEpoch now))) @
     pad_zero 6 (microSecondsSinceEpoch now smod kMicroSecondsPerSecond) @ '' ''"

definition head_text ::
    "(int \<Rightarrow> tm) \<Rightarrow> (int \<Rightarrow> string) \<Rightarrow> Timestamp \<Rightarrow> LogLevel \<Rightarrow> int \<Rightarrow> string option \<Rightarrow> string" where
  "head_text lt strerror now level err func =
     stamp_text lt now @ getLevelName level @
     (if err \<noteq> 0 then strerror err @ '' (errno='' @ to_string err @ '') '' else []) @
     (case func of None \<Rightarrow> [] | Some f \<Rightarrow> f @ '' '')"

definition tail_text :: "string \<Rightarrow> int \<Rightarrow> string" where
  "tail_text file line =
     '' - '' @ sf_data (SourceFile_new file) @ '':'' @ to_string line @ [CHR ''\<newline>'']"

lemma length_pad: "w \<le> length (pad_zero w i)" "w \<le> length (pad_blank w i)"
  by (simp_all add: pad_zero_def pad_blank_def Let_def)

lemma format_date_time_length: "19 \<le> length (format_date_time t)"
  using length_pad(2) [of 4 "tm_year t + 1900"] length_pad(1) [of 2 "tm_mon t + 1"]
    length_pad(1) [of 2 "tm_mday t"] length_pad(1) [of 2 "tm_hour t"] length_pad(1) [of 2 "tm_min t"]
    length_pad(1) [of 2 "tm_sec t"]
  by (simp add: format_date_time_def)

lemma length_getLevelName [simp]: "length (getLevelName l) = 6"
  by (cases l) simp_all

lemma micro_range:
  assumes "0 \<le> microSecondsSinceEpoch now"
  shows "length (pad_zero 6 (microSecondsSinceEpoch now smod kMicroSecondsPerSecond)) = 6"
proof -
  have "microSecondsSinceEpoch now smod kMicroSecondsPerSecond = microSecondsSinceEpoch now mod 1000000"
    using assms smod_pos_eq_mod [of "microSecondsSinceEpoch now" 1000000] by (simp add: kMicroSecondsPerSecond_def)
  then show ?thesis by (simp add: length_pad_zero)
qed

lemma length_stamp: "0 \<le> microSecondsSinceEpoch now \<Longrightarrow> length (stamp_text lt now) = 24"
  using format_date_time_length [of "lt (secondsSinceEpoch now)"] by (simp add: stamp_text_def micro_range)

lemma formatTime_eq:
  assumes now: "0 \<le> microSecondsSinceEpoch now" and im: "impl_stream im = FixedBuffer_new kSmallBuffer"
  shows "\<exists>g'. formatTime lt now im g = Inr (im\<lparr>impl_stream := small (stamp_text lt now)\<rparr>, g') \<and>
    g_out g' = g_out g \<and> g_logLevel g' = g_logLevel g"
proof -
  let ?d = "format_date_time (lt (secondsSinceEpoch now))"
  let ?p = "pad_zero 6 (microSecondsSinceEpoch now smod kMicroSecondsPerSecond)"
  have p: "length ?p = 6" using micro_range [OF now] .
  have d: "19 \<le> length ?d" by (rule format_date_time_length)
  have b: "take 7 (snprintf_buf 32 (?p @ '' '')) = ?p @ '' ''" "7 \<le> length (snprintf_buf 32 (?p @ '' ''))"
    using p by (simp_all add: snprintf_buf_def)
  have e: "FixedBuffer_new kSmallBuffer = small []" by (simp add: FixedBuffer_new_def kSmallBuffer_def)
  have t: "take 17 (snprintf_buf 64 ?d) = take 17 ?d" "17 \<le> length (snprintf_buf 64 ?d)"
    using d by (simp_all add: snprintf_buf_def min_def)
  have "put_template (snprintf_buf 64 ?d) 17 (small []) = Inr (small (take 17 ?d))"
    using t by (subst put_template_room) (simp_all add: room_def)
  moreover have "put_template (snprintf_buf 32 (?p @ '' '')) 7 (small (take 17 ?d)) =
      Inr (small (take 17 ?d @ ?p @ '' ''))"
    using b p by (subst put_template_room) (simp_all add: room_def)
  ultimately show ?thesis
    by (simp add: formatTime_def Let_def im e secondsSinceEpoch_def [symmetric] stamp_text_def)
qed

lemma Logger_new_eq:
  assumes now: "0 \<le> microSecondsSinceEpoch now2" and err: "int64 err"
    and fit: "room [] (head_text lt strerror now2 level err func)"
  shows "\<exists>im g'. Logger_new lt strerror now1 now2 file line level err func g = Inr (im, g') \<and>
    impl_stream im = small (head_text lt strerror now2 level err func) \<and>
    impl_level im = level \<and> impl_line im = line \<and> impl_basename im = SourceFile_new file \<and>
    g_out g' = g_out g \<and> g_logLevel g' = g_logLevel g"
proof -
  let ?im = "\<lparr>impl_time = now1, impl_stream = FixedBuffer_new kSmallBuffer, impl_level = level,
    impl_line = line, impl_basename = SourceFile_new file\<rparr>"
  let ?s = "stamp_text lt now2"
  obtain g' where f: "formatTime lt now2 ?im g = Inr (?im\<lparr>impl_stream := small ?s\<rparr>, g')"
    "g_out g' = g_out g" "g_logLevel g' = g_logLevel g"
    using formatTime_eq [OF now, of ?im lt g] by auto
  have l: "put_template (getLevelName level) 6 (small ?s) = Inr (small (?s @ getLevelName level))"
    using length_stamp [OF now, of lt] by (subst put_template_room) (simp_all add: room_def)
  show ?thesis
    using f l fit err length_stamp [OF now, of lt]
    by (cases func; cases "err = 0")
      (simp_all add: Logger_new_def Impl_new_def head_text_def room_def)
qed

lemma Impl_finish_eq:
  assumes "impl_stream im = small t" and "impl_basename im = SourceFile_new file"
    and "int64 (impl_line im)" and "room t (tail_text file (impl_line im))"
  shows "Impl_finish im = Inr (im\<lparr>impl_stream := small (t @ tail_text file (impl_line im))\<rparr>)"
proof -
  have z: "sf_size (SourceFile_new file) = length (sf_data (SourceFile_new file))"
    by (simp add: SourceFile_new_def Let_def)
  show ?thesis using assms by (simp add: Impl_finish_def tail_text_def z room_def)
qed

lemma macro_enabled_iff: "macro_enabled m g \<longleftrightarrow> WARN \<le> macro_level m \<or> g_logLevel g \<le> macro_level m"
  by (cases m) (auto simp: macro_enabled_def less_eq_LogLevel_def)

lemma log_statement_spec:
  assumes "0 \<le> microSecondsSinceEpoch now2"
    and "int64 err" and "int64 line" and "list_all item_ok items"
    and "text = head_text lt strerror now2 (macro_level m) (macro_errno m err) (macro_func m func) @
      concat (map item_text items) @ tail_text file line"
    and "length text \<le> 3952"
  shows "if macro_level m < WARN \<and> macro_level m < g_logLevel g
    then log_statement lt strerror now1 now2 m file line func err items g = Inr g
    else if macro_level m = FATAL
    then log_statement lt strerror now1 now2 m file line func err items g = Inl (FatalLog text)
    else \<exists>g'. log_statement lt strerror now1 now2 m file line func err items g = Inr g' \<and>
      g_out g' = g_out g @ [text] \<and> g_logLevel g' = g_logLevel g"
proof (cases "macro_level m < WARN \<and> macro_level m < g_logLevel g")
  case True
  then have "\<not> macro_enabled m g" by (auto simp: macro_enabled_iff not_le)
  then show ?thesis using True by (simp add: log_statement_def)
next
  case False
  then have en: "macro_enabled m g" by (auto simp: macro_enabled_iff)
  let ?h = "head_text lt strerror now2 (macro_level m) (macro_errno m err) (macro_func m func)"
  let ?i = "concat (map item_text items)"
  have e: "int64 (macro_errno m err)" using assms(2) by (simp add: macro_errno_def int64_def)
  have r: "room [] ?h" "room ?h ?i" "room (?h @ ?i) (tail_text file line)"
    using assms(5,6) by (simp_all add: room_def)
  obtain im g' where n: "Logger_new lt strerror now1 now2 file line (macro_level m) (macro_errno m err)
      (macro_func m func) g = Inr (im, g')" "impl_stream im = small ?h" "impl_level im = macro_level m"
    "impl_line im = line" "impl_basename im = SourceFile_new file" "g_out g' = g_out g"
    "g_logLevel g' = g_logLevel g"
    using Logger_new_eq [OF assms(1) e r(1)] by blast
  let ?im = "im\<lparr>impl_stream := small (?h @ ?i)\<rparr>"
  have p: "foldR put_item items (impl_stream im) = Inr (small (?h @ ?i))"
    using put_items_room [OF assms(4) r(2)] n(2) by simp
  have f: "Impl_finish ?im = Inr (?im\<lparr>impl_stream := small text\<rparr>)"
    using Impl_finish_eq [of ?im "?h @ ?i" "file"] n(4,5) assms(3,5) r(3) by simp
  have "log_statement lt strerror now1 now2 m file line func err items g = Logger_delete ?im g'"
    using en n(1) p by (simp only: log_statement_def if_True bindR_Inr prod.case)
  then show ?thesis unfolding if_not_P [OF False] using n f by (simp add: Logger_delete_def Let_def)
qed

text \<open>C36. What a log statement does, for a line that fits the 4000-byte stream with 48 bytes to
  spare. Below the configured level it does nothing, except that warnings, errors and fatal messages
  are written at every level. Otherwise it hands exactly one line to the output function: time,
  level, error text, function name, the streamed items in order, the file name without its
  directories, the line number and a line feed. A fatal statement ends the process with that line.\<close>

theorem log_statement_line:
  assumes "0 \<le> microSecondsSinceEpoch now2"
    and "int64 err" and "int64 line" and "list_all item_ok items"
    and "text = head_text lt strerror now2 (macro_level m) (macro_errno m err) (macro_func m func) @
      concat (map item_text items) @ tail_text file line"
    and "length text \<le> 3952"
  shows "if macro_level m < WARN \<and> macro_level m < g_logLevel g
    then log_statement lt strerror now1 now2 m file line func err items g = Inr g
    else if macro_level m = FATAL
    then log_statement lt strerror now1 now2 m file line func err items g = Inl (FatalLog text)
    else \<exists>g'. log_statement lt strerror now1 now2 m file line func err items g = Inr g' \<and>
      g_out g' = g_out g @ [text] \<and> g_logLevel g' = g_logLevel g"
  by (rule log_statement_spec [OF assms])

text \<open>What a stream keeps: it stays within its buffer, and what it held stays in front.\<close>

definition stream_grows :: "FixedBuffer \<Rightarrow> FixedBuffer \<Rightarrow> bool" where
  "stream_grows b b' \<longleftrightarrow> fb_inv b' \<and> fb_size b' = fb_size b \<and> (\<exists>s. fb_text b' = fb_text b @ s)"

lemma stream_grows_refl: "fb_inv b \<Longrightarrow> stream_grows b b"
  by (simp add: stream_grows_def)

lemma stream_grows_trans: "stream_grows b b1 \<Longrightarrow> stream_grows b1 b2 \<Longrightarrow> stream_grows b b2"
  by (auto simp: stream_grows_def)

lemma append_grows: "fb_inv b \<Longrightarrow> stream_grows b (FixedBuffer_append b s)"
  by (auto simp: stream_grows_def fb_inv_def FixedBuffer_append_def fb_avail_def)

lemma put_grows:
  assumes "fb_inv b"
  shows "stream_grows b (put_cstr str b)" "stream_grows b (put_char c b)" "stream_grows b (put_string s b)"
    and "put_template data n b = Inr b' \<Longrightarrow> stream_grows b b'"
  using append_grows [OF assms] by (auto simp: put_cstr_def put_char_def put_string_def put_template_def requireR_eq_Inr split: option.split)

lemma store_grows: "fb_inv b \<Longrightarrow> fb_store b s n = Inr b' \<Longrightarrow> stream_grows b b'"
  by (auto simp: fb_store_def requireR_eq_Inr stream_grows_def fb_inv_def fb_avail_def)

lemma put_item_grows:
  assumes "fb_inv b" and "put_item x b = Inr b'"
  shows "stream_grows b b'"
  using assms put_grows [OF assms(1)] store_grows [OF assms(1)] stream_grows_refl [OF assms(1)]
  by (cases x) (auto simp: put_integer_def formatInteger_def put_double_def split: if_splits)

definition double_fault :: fault where
  "double_fault = BadAccess ''operator<<(double) returns nothing''"

lemma put_item_cases:
  assumes "item_ok x"
  shows "(\<exists>b'. put_item x b = Inr b') \<or>
    (\<exists>s. x = ItemDouble s) \<and> fb_avail b < kMaxNumericSize \<and> put_item x b = Inl double_fault"
  using assms
  by (cases x) (auto simp: put_integer_eq put_double_def fb_store_def requireR_def double_fault_def kMaxNumericSize_def)

text \<open>C37. A log stream stays well-formed: whatever sequence of texts, characters, integers of up to 64 bits and
  floating-point numbers is streamed, long ones included, the buffer never holds more than its capacity and what it already
  held is kept, and no operator faults but one: that of a floating-point number, on the first one that
  finds fewer than 48 bytes free.\<close>

theorem log_stream_wf:
  assumes "fb_inv b" and "list_all item_ok items"
  shows "case foldR put_item items b of
      Inr b' \<Rightarrow> fb_inv b' \<and> fb_size b' = fb_size b \<and> (\<exists>s. fb_text b' = fb_text b @ s)
    | Inl e \<Rightarrow> e = double_fault \<and> (\<exists>xs s ys b1. items = xs @ ItemDouble s # ys \<and>
        foldR put_item xs b = Inr b1 \<and> fb_avail b1 < kMaxNumericSize)"
  using assms
proof (induction items arbitrary: b)
  case Nil
  then show ?case by simp
next
  case (Cons x xs)
  have "item_ok x" using Cons.prems(2) by simp
  from put_item_cases [OF this, of b] show ?case
  proof (elim disjE exE conjE)
    fix b1
    assume b1: "put_item x b = Inr b1"
    have g: "stream_grows b b1" by (rule put_item_grows [OF Cons.prems(1) b1])
    then have ih: "case foldR put_item xs b1 of
        Inr b' \<Rightarrow> fb_inv b' \<and> fb_size b' = fb_size b1 \<and> (\<exists>s. fb_text b' = fb_text b1 @ s)
      | Inl e \<Rightarrow> e = double_fault \<and> (\<exists>ys s zs b2. xs = ys @ ItemDouble s # zs \<and>
          foldR put_item ys b1 = Inr b2 \<and> fb_avail b2 < kMaxNumericSize)"
      using Cons by (simp add: stream_grows_def)
    show ?case
    proof (cases "foldR put_item xs b1")
      case (Inl e)
      with ih obtain ys s zs b2 where "xs = ys @ ItemDouble s # zs" "foldR put_item ys b1 = Inr b2"
        "fb_avail b2 < kMaxNumericSize" "e = double_fault" by auto
      then have "x # xs = (x # ys) @ ItemDouble s # zs \<and> foldR put_item (x # ys) b = Inr b2 \<and> fb_avail b2 < kMaxNumericSize"
        using b1 by simp
      then have "\<exists>us s vs b2. x # xs = us @ ItemDouble s # vs \<and> foldR put_item us b = Inr b2 \<and> fb_avail b2 < kMaxNumericSize"
        by blast
      then show ?thesis using \<open>e = double_fault\<close> Inl b1 by simp
    next
      case (Inr b')
      with ih g b1 show ?thesis by (auto simp: stream_grows_def)
    qed
  next
    fix s
    assume d: "x = ItemDouble s" "fb_avail b < kMaxNumericSize" "put_item x b = Inl double_fault"
    have "x # xs = [] @ ItemDouble s # xs \<and> foldR put_item [] b = Inr b" using d(1) by simp
    with d(2) have "\<exists>us s vs b2. x # xs = us @ ItemDouble s # vs \<and> foldR put_item us b = Inr b2 \<and> fb_avail b2 < kMaxNumericSize"
      by blast
    then show ?case using d(3) by simp
  qed
qed

text \<open>Whatever a statement streams, the text it hands to the output function fits its stream.\<close>

text \<open>Only the destructor ends the process with a message.\<close>

lemma no_fatal:
  "put_template data n b \<noteq> Inl (FatalLog d)" "put_integer i b \<noteq> Inl (FatalLog d)"
  "put_item x b \<noteq> Inl (FatalLog d)" "Impl_finish im \<noteq> Inl (FatalLog d)"
proof -
  show t: "put_template data n b \<noteq> Inl (FatalLog d)" for data n b by (simp add: put_template_def requireR_def)
  show i: "put_integer i b \<noteq> Inl (FatalLog d)" for i b
    by (simp add: put_integer_def formatInteger_def fb_store_def requireR_def)
  show "put_item x b \<noteq> Inl (FatalLog d)" using i by (cases x) (simp_all add: put_double_def fb_store_def requireR_def)
  show "Impl_finish im \<noteq> Inl (FatalLog d)" using t i by (auto simp: Impl_finish_def bindR_eq_Inl)
qed

lemma no_fatal_new: "Logger_new lt se now1 now2 file line level err func g \<noteq> Inl (FatalLog d)"
  using no_fatal(1,2)
  by (auto simp: Logger_new_def Impl_new_def formatTime_def Let_def bindR_eq_Inl split: if_splits option.splits)

lemma no_fatal_items: "foldR put_item xs b \<noteq> Inl (FatalLog d)"
  using no_fatal(3) by (induction xs arbitrary: b) (auto simp: bindR_eq_Inl)

lemma formatTime_grows:
  assumes "formatTime lt now im g = Inr (im', g')" and "fb_inv (impl_stream im)"
  shows "stream_grows (impl_stream im) (impl_stream im') \<and> g_out g' = g_out g"
proof -
  obtain t1 t2 s1 s2 where s: "put_template t1 17 (impl_stream im) = Inr s1" "put_template t2 7 s1 = Inr s2"
    "impl_stream im' = s2" "g_out g' = g_out g"
    using assms(1) by (fastforce simp: formatTime_def Let_def bindR_eq_Inr)
  have "stream_grows (impl_stream im) s1" by (rule put_grows(4) [OF assms(2) s(1)])
  moreover from this have "stream_grows s1 s2" using s(2) put_grows(4) by (auto simp: stream_grows_def)
  ultimately show ?thesis using s(3,4) stream_grows_trans by blast
qed

lemma Impl_new_grows:
  assumes "Impl_new lt se now1 now2 level err file line g = Inr (im, g')"
  shows "fb_inv (impl_stream im) \<and> fb_size (impl_stream im) = kSmallBuffer \<and> g_out g' = g_out g"
proof -
  have e: "fb_inv (FixedBuffer_new kSmallBuffer)" "fb_size (FixedBuffer_new kSmallBuffer) = kSmallBuffer"
    by (simp_all add: fb_inv_def FixedBuffer_new_def)
  let ?im = "\<lparr>impl_time = now1, impl_stream = FixedBuffer_new kSmallBuffer, impl_level = level,
    impl_line = line, impl_basename = SourceFile_new file\<rparr>"
  obtain im0 s3 where s: "formatTime lt now2 ?im g = Inr (im0, g')" "put_template (getLevelName level) 6 (impl_stream im0) = Inr s3"
    "if err \<noteq> 0 then \<exists>s4. put_integer err (put_cstr (Some '' (errno='') (put_cstr (Some (se err)) s3)) = Inr s4 \<and>
      impl_stream im = put_cstr (Some '') '') s4 else impl_stream im = s3"
    using assms by (cases "err = 0") (auto simp: Impl_new_def bindR_eq_Inr)
  have f: "stream_grows (FixedBuffer_new kSmallBuffer) (impl_stream im0)" "g_out g' = g_out g"
    using formatTime_grows [OF s(1)] e(1) by simp_all
  then have "stream_grows (impl_stream im0) s3" using s(2) put_grows(4) by (auto simp: stream_grows_def)
  with f(1) have g3: "stream_grows (FixedBuffer_new kSmallBuffer) s3" using stream_grows_trans by blast
  have "stream_grows s3 (impl_stream im)"
  proof (cases "err = 0")
    case True
    then show ?thesis using s(3) g3 stream_grows_refl by (simp add: stream_grows_def)
  next
    case False
    let ?p = "put_cstr (Some '' (errno='') (put_cstr (Some (se err)) s3)"
    obtain s4 where s4: "put_item (ItemInt err) ?p = Inr s4" "impl_stream im = put_cstr (Some '') '') s4"
      using s(3) False by auto
    have "fb_inv s3" using g3 by (simp add: stream_grows_def)
    then have q: "stream_grows s3 (put_cstr (Some (se err)) s3)" by (rule put_grows(1))
    then have "fb_inv (put_cstr (Some (se err)) s3)" by (simp add: stream_grows_def)
    with q have "stream_grows s3 ?p" using put_grows(1) stream_grows_trans by blast
    moreover from this have "stream_grows ?p s4" using put_item_grows [OF _ s4(1)] by (simp add: stream_grows_def)
    moreover from this have "stream_grows s4 (impl_stream im)" using s4(2) put_grows(1) by (simp add: stream_grows_def)
    ultimately show ?thesis using stream_grows_trans by blast
  qed
  with g3 have "stream_grows (FixedBuffer_new kSmallBuffer) (impl_stream im)" by (rule stream_grows_trans)
  then show ?thesis using e(2) f(2) by (simp add: stream_grows_def)
qed

lemma Logger_delete_text:
  assumes "fb_inv (impl_stream im)" and "fb_size (impl_stream im) = kSmallBuffer"
  shows "Logger_delete im g = Inr g' \<Longrightarrow> \<exists>d. g_out g' = g_out g @ [d] \<and> length d \<le> kSmallBuffer"
    and "Logger_delete im g = Inl (FatalLog d) \<Longrightarrow> length d \<le> kSmallBuffer"
proof -
  have len: "length (fb_text (impl_stream im1)) \<le> kSmallBuffer" if fin: "Impl_finish im = Inr im1" for im1
  proof -
    let ?p = "put_cstr (Some '' - '') (impl_stream im)"
    obtain s1 s2 where s: "put_template (sf_data (impl_basename im)) (sf_size (impl_basename im)) ?p = Inr s1"
      "put_item (ItemInt (impl_line im)) (put_char (CHR '':'') s1) = Inr s2" "impl_stream im1 = put_char (CHR ''\<newline>'') s2"
      using fin by (auto simp: Impl_finish_def bindR_eq_Inr)
    have "stream_grows (impl_stream im) ?p" by (rule put_grows(1) [OF assms(1)])
    moreover from this have "stream_grows ?p s1" using put_grows(4) [OF _ s(1)] by (simp add: stream_grows_def)
    moreover from this have "stream_grows s1 (put_char (CHR '':'') s1)" using put_grows(2) by (simp add: stream_grows_def)
    moreover from this have "stream_grows (put_char (CHR '':'') s1) s2" using put_item_grows [OF _ s(2)] by (simp add: stream_grows_def)
    moreover from this have "stream_grows s2 (impl_stream im1)" using s(3) put_grows(2) by (simp add: stream_grows_def)
    ultimately have "stream_grows (impl_stream im) (impl_stream im1)" using stream_grows_trans by blast
    then show ?thesis using assms(2) by (simp add: stream_grows_def fb_inv_def)
  qed
  show "Logger_delete im g = Inr g' \<Longrightarrow> \<exists>d. g_out g' = g_out g @ [d] \<and> length d \<le> kSmallBuffer"
    using len by (auto simp: Logger_delete_def Let_def bindR_eq_Inr split: if_splits)
  show "Logger_delete im g = Inl (FatalLog d) \<Longrightarrow> length d \<le> kSmallBuffer"
    using len no_fatal(4) [of im d] by (cases "Impl_finish im") (auto simp: Logger_delete_def Let_def split: if_splits)
qed

lemma Logger_new_grows:
  assumes "Logger_new lt se now1 now2 file line level err func g = Inr (im, g')"
  shows "fb_inv (impl_stream im) \<and> fb_size (impl_stream im) = kSmallBuffer \<and> g_out g' = g_out g"
proof -
  obtain im0 where i: "Impl_new lt se now1 now2 level err file line g = Inr (im0, g')"
    "im = im0 \<or> (\<exists>f. im = im0\<lparr>impl_stream := put_char (CHR '' '') (put_cstr (Some f) (impl_stream im0))\<rparr>)"
    using assms by (cases func) (auto simp: Logger_new_def bindR_eq_Inr)
  note n = Impl_new_grows [OF i(1)]
  have "stream_grows (impl_stream im0) (put_char (CHR '' '') (put_cstr (Some f) (impl_stream im0)))" for f
    using n put_grows(1) [of "impl_stream im0" "Some f"] put_grows(2) stream_grows_trans by (meson stream_grows_def)
  with i(2) n show ?thesis by (auto simp: stream_grows_def)
qed

lemma log_statement_text:
  assumes q_def: "q = log_statement lt se now1 now2 m file line func err items g"
  shows "q = Inr g' \<Longrightarrow> g_out g' = g_out g \<or> (\<exists>d. g_out g' = g_out g @ [d] \<and> length d \<le> kSmallBuffer)"
    and "q = Inl (FatalLog d) \<Longrightarrow> length d \<le> kSmallBuffer"
proof -
  have stream: "fb_inv s \<and> fb_size s = kSmallBuffer \<and> g_out g1 = g_out g"
    if n: "Logger_new lt se now1 now2 file line (macro_level m) (macro_errno m err) (macro_func m func) g = Inr (im, g1)"
      and s: "foldR put_item items (impl_stream im) = Inr s" for im g1 s
  proof -
    note i = Logger_new_grows [OF n]
    have "stream_grows (impl_stream im) s"
    proof (rule foldR_inv [OF s])
      show "stream_grows (impl_stream im) b'" if "stream_grows (impl_stream im) b" "put_item x b = Inr b'" for x b b'
        using that put_item_grows [of b x b'] stream_grows_trans by (auto simp: stream_grows_def)
    qed (use i stream_grows_refl in blast)
    with i show ?thesis by (simp add: stream_grows_def)
  qed
  show "g_out g' = g_out g \<or> (\<exists>d. g_out g' = g_out g @ [d] \<and> length d \<le> kSmallBuffer)" if r: "q = Inr g'"
  proof (cases "macro_enabled m g")
    case True
    then obtain im g1 s where "Logger_new lt se now1 now2 file line (macro_level m) (macro_errno m err) (macro_func m func) g = Inr (im, g1)"
      "foldR put_item items (impl_stream im) = Inr s" "Logger_delete (im\<lparr>impl_stream := s\<rparr>) g1 = Inr g'"
      using r by (auto simp: q_def log_statement_def bindR_eq_Inr)
    with stream show ?thesis using Logger_delete_text(1) [of "im\<lparr>impl_stream := s\<rparr>" g1 g'] by fastforce
  qed (use r in \<open>simp add: q_def log_statement_def\<close>)
  show "length d \<le> kSmallBuffer" if r: "q = Inl (FatalLog d)"
  proof (cases "macro_enabled m g")
    case True
    then obtain im g1 s where "Logger_new lt se now1 now2 file line (macro_level m) (macro_errno m err) (macro_func m func) g = Inr (im, g1)"
      "foldR put_item items (impl_stream im) = Inr s" "Logger_delete (im\<lparr>impl_stream := s\<rparr>) g1 = Inl (FatalLog d)"
      using r no_fatal_new no_fatal_items by (auto simp: q_def log_statement_def bindR_eq_Inl)
    with stream show ?thesis using Logger_delete_text(2) [of "im\<lparr>impl_stream := s\<rparr>" g1 d] by simp
  qed (use r in \<open>simp add: q_def log_statement_def\<close>)
qed

section \<open>Time stamp and file name\<close>

definition tm_ok :: "tm \<Rightarrow> bool" where
  "tm_ok t \<longleftrightarrow> 1000 \<le> tm_year t + 1900 \<and> tm_year t + 1900 < 10000 \<and> 0 \<le> tm_mon t \<and> tm_mon t < 12 \<and>
     1 \<le> tm_mday t \<and> tm_mday t \<le> 31 \<and> 0 \<le> tm_hour t \<and> tm_hour t < 24 \<and> 0 \<le> tm_min t \<and> tm_min t < 60"

lemma length_year:
  assumes "1000 \<le> y" and "y < 10000"
  shows "length (pad_blank 4 y) = 4"
proof -
  have "length (dec_nat (nat y)) \<le> 4" using assms by (intro length_dec_nat) simp_all
  then show ?thesis using assms by (simp add: pad_blank_def to_string_def Let_def)
qed

text \<open>The stamp of a log line is cut after the minutes: seconds are formatted but never
  written, so lines of the same minute carry the same date and time text.\<close>

theorem log_stamp_drops_seconds:
  assumes "tm_ok (lt (secondsSinceEpoch now))"
  shows "stamp_text lt now =
    (let t = lt (secondsSinceEpoch now) in
     pad_blank 4 (tm_year t + 1900) @ ''/'' @ pad_zero 2 (tm_mon t + 1) @ ''/'' @ pad_zero 2 (tm_mday t) @
     '' '' @ pad_zero 2 (tm_hour t) @ '':'' @ pad_zero 2 (tm_min t) @ '':'') @
    pad_zero 6 (microSecondsSinceEpoch now smod kMicroSecondsPerSecond) @ '' ''"
proof -
  let ?t = "lt (secondsSinceEpoch now)"
  have "length (pad_zero 2 (tm_mon ?t + 1)) = 2" "length (pad_zero 2 (tm_mday ?t)) = 2"
    "length (pad_zero 2 (tm_hour ?t)) = 2" "length (pad_zero 2 (tm_min ?t)) = 2"
    using assms by (auto simp: tm_ok_def intro!: length_pad_zero)
  moreover have "length (pad_blank 4 (tm_year ?t + 1900)) = 4"
    using assms by (auto simp: tm_ok_def intro!: length_year)
  ultimately show ?thesis by (simp add: stamp_text_def format_date_time_def Let_def)
qed

lemma strrchr_None: "strrchr s c = None \<longleftrightarrow> c \<notin> set s"
  by (induction s) (auto split: option.splits)

lemma strrchr_append: "c \<notin> set b \<Longrightarrow> strrchr (a @ c # b) c = Some (length a)"
  by (induction a) (auto simp: strrchr_None split: option.splits)

text \<open>The file name of a log line is what follows the last slash of the path.\<close>

theorem source_file_name:
  assumes "CHR ''/'' \<notin> set name"
  shows "sf_data (SourceFile_new (dir @ ''/'' @ name)) = name \<and> sf_data (SourceFile_new name) = name"
  using assms strrchr_append [of "CHR ''/''" name dir] strrchr_None [of name "CHR ''/''"]
  by (simp add: SourceFile_new_def Let_def)

section \<open>Witnesses\<close>

definition demo_time :: "int \<Rightarrow> tm" where
  "demo_time t = \<lparr>tm_year = 125, tm_mon = 4, tm_mday = 6, tm_hour = 7, tm_min = 8, tm_sec = t mod 60\<rparr>"

definition demo_globals :: logger_globals where
  "demo_globals = \<lparr>g_logLevel = INFO, t_time = [], t_lastSecond = 0, g_out = []\<rparr>"

definition demo_line :: string where
  "demo_line = ''2025/05/06 07:08:000042 ERROR disk full (errno=28) fd 7 - a.cc:12'' @ [CHR ''\<newline>'']"

theorem log_statement_line_witness:
  "\<exists>g'. log_statement demo_time (\<lambda>e. ''disk full'') (Timestamp 42) (Timestamp 42) LOG_SYSERR ''src/a.cc'' 12
     ''f'' 28 [ItemStr ''fd '', ItemInt 7] demo_globals = Inr g' \<and> g_out g' = [demo_line]"
proof -
  let ?t = "head_text demo_time (\<lambda>e. ''disk full'') (Timestamp 42) (macro_level LOG_SYSERR) (macro_errno LOG_SYSERR 28)
      (macro_func LOG_SYSERR ''f'') @ concat (map item_text [ItemStr ''fd '', ItemInt 7]) @ tail_text ''src/a.cc'' 12"
  have t: "?t = demo_line" by code_simp
  have "length ?t \<le> 3952" unfolding t by (simp add: demo_line_def)
  from log_statement_line [of "Timestamp 42" 28 12 "[ItemStr ''fd '', ItemInt 7]", OF _ _ _ _ refl this,
      of demo_globals "Timestamp 42"]
  show ?thesis unfolding t by (auto simp: int64_def less_LogLevel_def demo_globals_def)
qed

definition demo_full :: FixedBuffer where
  "demo_full = \<lparr>fb_size = 50, fb_text = ''fill''\<rparr>"

theorem log_stream_wf_witness:
  "foldR put_item [ItemStr ''x='', ItemInt (-5), ItemDouble ''0.5''] demo_full = Inl double_fault \<and>
    (\<exists>xs s ys b1. [ItemStr ''x='', ItemInt (-5), ItemDouble ''0.5''] = xs @ ItemDouble s # ys \<and>
      foldR put_item xs demo_full = Inr b1 \<and> fb_avail b1 < kMaxNumericSize)"
proof -
  have n: "foldR put_item [ItemStr ''x='', ItemInt (-5), ItemDouble ''0.5''] demo_full = Inl double_fault" by code_simp
  have "fb_inv demo_full" "list_all item_ok [ItemStr ''x='', ItemInt (-5), ItemDouble ''0.5'']"
    by (simp_all add: fb_inv_def demo_full_def int64_def)
  from log_stream_wf [OF this] show ?thesis unfolding n by simp
qed

theorem log_stamp_drops_seconds_witness:
  "stamp_text demo_time (Timestamp 59000001) = stamp_text demo_time (Timestamp 1000001)"
proof -
  have ok: "tm_ok (demo_time (secondsSinceEpoch t))" for t
    by (simp add: tm_ok_def demo_time_def)
  show ?thesis
    unfolding log_stamp_drops_seconds [of demo_time, OF ok]
    by (simp add: demo_time_def kMicroSecondsPerSecond_def signed_modulo_int_def signed_divide_int_def)
qed

theorem source_file_name_witness:
  "sf_data (SourceFile_new (''2022/10/26'' @ ''/'' @ ''test.log'')) = ''test.log'' \<and>
    sf_data (SourceFile_new ''test.log'') = ''test.log''"
  by (rule source_file_name) simp

end
