(* ===== verification/AsyncLogging.thy ===== *)
theory AsyncLogging
  imports LogStream
begin

text \<open>
  \<open>src/logger/AsyncLogging.h\<close> and \<open>AsyncLogging.cc\<close>: the front end that appends log lines under a
  mutex and the back-end thread that swaps the full buffers out and writes them. A
  \<open>std::unique_ptr\<close> is an optional buffer, empty once moved from. Each critical section is one
  step; the back end's writing is another, since it works on its own buffers. \<open>log_out\<close> is the
  text handed to the log file; \<open>logged\<close> is the history of appended lines.
\<close>

section \<open>State and operations\<close>

datatype backend_pc = BTop | BWrite | BDone

record AsyncLogging =
  running :: bool
  currentBuffer :: "FixedBuffer option"
  nextBuffer :: "FixedBuffer option"
  buffers :: "FixedBuffer list"
  newBuffer1 :: "FixedBuffer option"
  newBuffer2 :: "FixedBuffer option"
  buffersToWrite :: "FixedBuffer list"
  log_out :: string
  logged :: string
  backend :: backend_pc

definition large_buffer :: FixedBuffer where
  "large_buffer = FixedBuffer_new kLargeBuffer"

text \<open>The object and, in \<open>newBuffer1\<close> and \<open>newBuffer2\<close>, the buffers \<open>threadFunc\<close> starts with.\<close>

definition AsyncLogging_start :: AsyncLogging where
  "AsyncLogging_start =
     \<lparr>running = True, currentBuffer = Some large_buffer, nextBuffer = Some large_buffer, buffers = [],
      newBuffer1 = Some large_buffer, newBuffer2 = Some large_buffer, buffersToWrite = [],
      log_out = [], logged = [], backend = BTop\<rparr>"

definition AsyncLogging_append :: "string \<Rightarrow> AsyncLogging \<Rightarrow> AsyncLogging res" where
  "AsyncLogging_append logline a =
     (case currentBuffer a of
        None \<Rightarrow> Inl (BadAccess ''currentBuffer_'')
      | Some cur \<Rightarrow>
          if length logline < fb_avail cur
          then Inr (a\<lparr>currentBuffer := Some (FixedBuffer_append cur logline), logged := logged a @ logline\<rparr>)
          else (let fresh = (case nextBuffer a of Some nb \<Rightarrow> nb | None \<Rightarrow> large_buffer)
                in Inr (a\<lparr>buffers := buffers a @ [cur], nextBuffer := None,
                          currentBuffer := Some (FixedBuffer_append fresh logline),
                          logged := logged a @ logline\<rparr>)))"

text \<open>The critical section of \<open>threadFunc\<close>, after the wait.\<close>

definition AsyncLogging_swap :: "AsyncLogging \<Rightarrow> AsyncLogging res" where
  "AsyncLogging_swap a =
     (case currentBuffer a of
        None \<Rightarrow> Inl (BadAccess ''currentBuffer_'')
      | Some cur \<Rightarrow>
          let a1 = a\<lparr>currentBuffer := newBuffer1 a, newBuffer1 := None,
                     buffersToWrite := buffers a @ [cur], buffers := buffersToWrite a\<rparr>
          in Inr (if nextBuffer a1 = None then a1\<lparr>nextBuffer := newBuffer2 a1, newBuffer2 := None\<rparr> else a1))"

definition take_back :: "FixedBuffer option \<Rightarrow> FixedBuffer list \<Rightarrow> (FixedBuffer option \<times> FixedBuffer list) res" where
  "take_back nb bs =
     (case nb of
        Some b \<Rightarrow> Inr (Some b, bs)
      | None \<Rightarrow> requireR (bs \<noteq> []) (BadAccess ''buffersToWrite.back()'')
                  (Inr (Some (FixedBuffer_reset (last bs)), butlast bs)))"

definition AsyncLogging_write :: "AsyncLogging \<Rightarrow> AsyncLogging res" where
  "AsyncLogging_write a =
     (let out = log_out a @ concat (map fb_text (buffersToWrite a));
          bs = (if 2 < length (buffersToWrite a) then take 2 (buffersToWrite a) else buffersToWrite a)
      in bindR (take_back (newBuffer1 a) bs) (\<lambda>(n1, bs1).
           bindR (take_back (newBuffer2 a) bs1) (\<lambda>(n2, bs2).
             Inr (a\<lparr>log_out := out, newBuffer1 := n1, newBuffer2 := n2, buffersToWrite := []\<rparr>))))"

definition AsyncLogging_stop :: "AsyncLogging \<Rightarrow> AsyncLogging" where
  "AsyncLogging_stop a = a\<lparr>running := False\<rparr>"

inductive async_step :: "AsyncLogging \<Rightarrow> AsyncLogging \<Rightarrow> bool" where
  as_append: "length logline < kLargeBuffer \<Longrightarrow> AsyncLogging_append logline a = Inr a' \<Longrightarrow> async_step a a'"
| as_swap: "backend a = BTop \<Longrightarrow> running a \<Longrightarrow> AsyncLogging_swap a = Inr a' \<Longrightarrow>
    async_step a (a'\<lparr>backend := BWrite\<rparr>)"
| as_write: "backend a = BWrite \<Longrightarrow> AsyncLogging_write a = Inr a' \<Longrightarrow> async_step a (a'\<lparr>backend := BTop\<rparr>)"
| as_exit: "backend a = BTop \<Longrightarrow> \<not> running a \<Longrightarrow> async_step a (a\<lparr>backend := BDone\<rparr>)"
| as_stop: "async_step a (AsyncLogging_stop a)"

section \<open>Invariant\<close>

definition empty_large :: "FixedBuffer option \<Rightarrow> bool" where
  "empty_large b \<longleftrightarrow> (b = None \<or> b = Some large_buffer)"

definition async_inv :: "AsyncLogging \<Rightarrow> bool" where
  "async_inv a \<longleftrightarrow>
     (\<exists>cur. currentBuffer a = Some cur \<and> fb_size cur = kLargeBuffer \<and>
        log_out a @ concat (map fb_text (buffersToWrite a)) @ concat (map fb_text (buffers a)) @ fb_text cur =
          logged a) \<and>
     empty_large (nextBuffer a) \<and> empty_large (newBuffer1 a) \<and> empty_large (newBuffer2 a) \<and>
     (nextBuffer a = None \<longrightarrow> buffers a \<noteq> []) \<and>
     (backend a \<noteq> BWrite \<longrightarrow> newBuffer1 a \<noteq> None \<and> newBuffer2 a \<noteq> None \<and> buffersToWrite a = []) \<and>
     (backend a = BWrite \<longrightarrow> newBuffer1 a = None \<and> buffersToWrite a \<noteq> [] \<and>
        (newBuffer2 a = None \<longrightarrow> 2 \<le> length (buffersToWrite a))) \<and>
     list_all (\<lambda>b. fb_size b = kLargeBuffer) (buffers a) \<and>
     list_all (\<lambda>b. fb_size b = kLargeBuffer) (buffersToWrite a)"

lemma large_buffer_simps [simp]:
  "fb_size large_buffer = kLargeBuffer" "fb_text large_buffer = []" "fb_avail large_buffer = kLargeBuffer"
  by (simp_all add: large_buffer_def FixedBuffer_new_def fb_avail_def)

lemma reset_large: "fb_size b = kLargeBuffer \<Longrightarrow> FixedBuffer_reset b = large_buffer"
  by (cases b) (simp add: FixedBuffer_reset_def large_buffer_def FixedBuffer_new_def)

lemma append_text:
  "length s < fb_avail b \<Longrightarrow> fb_text (FixedBuffer_append b s) = fb_text b @ s"
  "fb_size (FixedBuffer_append b s) = fb_size b"
  by (simp_all add: FixedBuffer_append_def)

lemma append_inv:
  assumes "async_inv a" and "length logline < kLargeBuffer" and "AsyncLogging_append logline a = Inr a'"
  shows "async_inv a'"
proof -
  obtain cur where cur: "currentBuffer a = Some cur" "fb_size cur = kLargeBuffer"
    using assms(1) by (auto simp: async_inv_def)
  show ?thesis
  proof (cases "length logline < fb_avail cur")
    case True
    then show ?thesis using assms cur by (auto simp: AsyncLogging_append_def async_inv_def append_text)
  next
    case False
    have "(case nextBuffer a of Some nb \<Rightarrow> nb | None \<Rightarrow> large_buffer) = large_buffer"
      using assms(1) by (auto simp: async_inv_def empty_large_def)
    then have a': "a' = a\<lparr>buffers := buffers a @ [cur], nextBuffer := None,
        currentBuffer := Some (FixedBuffer_append large_buffer logline), logged := logged a @ logline\<rparr>"
      using assms(3) cur False by (simp add: AsyncLogging_append_def Let_def)
    have "fb_text (FixedBuffer_append large_buffer logline) = logline"
      using append_text(1) [of logline large_buffer] assms(2) by simp
    then show ?thesis using assms(1) cur unfolding a' by (simp add: async_inv_def append_text(2) empty_large_def)
  qed
qed

lemma swap_ok:
  assumes "async_inv a" and "backend a = BTop"
  shows "\<exists>a'. AsyncLogging_swap a = Inr a' \<and> async_inv (a'\<lparr>backend := BWrite\<rparr>)"
proof -
  obtain cur where cur: "currentBuffer a = Some cur" "fb_size cur = kLargeBuffer"
    using assms(1) by (auto simp: async_inv_def)
  have nb: "newBuffer1 a = Some large_buffer" "newBuffer2 a = Some large_buffer" "buffersToWrite a = []"
    using assms by (auto simp: async_inv_def empty_large_def)
  have two: "nextBuffer a = None \<Longrightarrow> 2 \<le> length (buffers a @ [cur])"
    using assms(1) by (cases "buffers a") (auto simp: async_inv_def)
  show ?thesis using assms(1) cur nb two
    by (auto simp: AsyncLogging_swap_def Let_def async_inv_def empty_large_def)
qed

lemma take_back_ok:
  assumes "empty_large nb" and "nb = None \<Longrightarrow> bs \<noteq> []" and "list_all (\<lambda>b. fb_size b = kLargeBuffer) bs"
  shows "\<exists>bs'. take_back nb bs = Inr (Some large_buffer, bs') \<and>
    bs' = (if nb = None then butlast bs else bs)"
proof (cases nb)
  case None
  then have "last bs \<in> set bs" using assms(2) by simp
  then have "FixedBuffer_reset (last bs) = large_buffer" using assms(3) by (simp add: list_all_iff reset_large)
  then show ?thesis using None assms(2) by (simp add: take_back_def)
next
  case (Some b)
  then show ?thesis using assms(1) by (simp add: take_back_def empty_large_def)
qed

lemma write_ok:
  assumes inv: "async_inv a" and pc: "backend a = BWrite"
  shows "\<exists>a'. AsyncLogging_write a = Inr a' \<and> async_inv (a'\<lparr>backend := BTop\<rparr>)"
proof -
  define bs where "bs = (if 2 < length (buffersToWrite a) then take 2 (buffersToWrite a) else buffersToWrite a)"
  have n: "newBuffer1 a = None" "empty_large (newBuffer2 a)" "buffersToWrite a \<noteq> []"
    "newBuffer2 a = None \<Longrightarrow> 2 \<le> length (buffersToWrite a)"
    using inv pc by (auto simp: async_inv_def)
  have sz: "list_all (\<lambda>b. fb_size b = kLargeBuffer) bs"
    using inv by (auto simp: bs_def async_inv_def list_all_iff dest: in_set_takeD)
  have b1: "bs \<noteq> []" using n(3) by (auto simp: bs_def)
  have "butlast bs \<noteq> []" if "newBuffer2 a = None"
  proof -
    have "length bs = 2" using n(4) [OF that] by (auto simp: bs_def)
    then show ?thesis by (cases bs) auto
  qed
  moreover have "list_all (\<lambda>b. fb_size b = kLargeBuffer) (butlast bs)"
    using sz by (auto simp: list_all_iff dest: in_set_butlastD)
  ultimately have "\<exists>bs2. take_back (newBuffer2 a) (butlast bs) = Inr (Some large_buffer, bs2) \<and>
      bs2 = (if newBuffer2 a = None then butlast (butlast bs) else butlast bs)"
    by (rule take_back_ok [OF n(2)])
  then obtain bs2 where t2: "take_back (newBuffer2 a) (butlast bs) = Inr (Some large_buffer, bs2)" by blast
  have t1: "take_back (newBuffer1 a) bs = Inr (Some large_buffer, butlast bs)"
    using take_back_ok [of "newBuffer1 a" bs] n(1) b1 sz by (auto simp: empty_large_def)
  let ?a = "a\<lparr>log_out := log_out a @ concat (map fb_text (buffersToWrite a)), newBuffer1 := Some large_buffer,
     newBuffer2 := Some large_buffer, buffersToWrite := []\<rparr>"
  have "AsyncLogging_write a = Inr ?a"
    unfolding AsyncLogging_write_def bs_def [symmetric] Let_def using t1 t2 by simp
  moreover have "async_inv (?a\<lparr>backend := BTop\<rparr>)" using inv by (auto simp: async_inv_def empty_large_def)
  ultimately show ?thesis by blast
qed

lemma async_step_inv:
  assumes "async_inv a" and "async_step a a'"
  shows "async_inv a'"
  using assms(2)
proof cases
  case (as_append logline)
  then show ?thesis using append_inv [OF assms(1)] by blast
next
  case (as_swap b)
  then show ?thesis using swap_ok [OF assms(1) as_swap(2)] by auto
next
  case (as_write b)
  then show ?thesis using write_ok [OF assms(1) as_write(2)] by auto
qed (use assms(1) in \<open>auto simp: async_inv_def AsyncLogging_stop_def\<close>)

lemma async_start_inv: "async_inv AsyncLogging_start"
  by (simp add: async_inv_def AsyncLogging_start_def empty_large_def)

interpretation al: invariant_system "\<lambda>a. a = AsyncLogging_start" async_step async_inv
  by unfold_locales (auto simp: async_start_inv intro: async_step_inv)

section \<open>Properties\<close>

text \<open>Log lines are neither lost, nor duplicated, nor reordered between the threads: in every
  reachable state the text given to the file, the text the back end holds, the full buffers and the
  current buffer are, in this order, the lines appended.\<close>

theorem async_lines_conserved:
  assumes "reachable (\<lambda>a. a = AsyncLogging_start) async_step a"
  shows "\<exists>cur. currentBuffer a = Some cur \<and>
    log_out a @ concat (map fb_text (buffersToWrite a)) @ concat (map fb_text (buffers a)) @ fb_text cur = logged a"
  using al.reachable_inv [OF assms] by (auto simp: async_inv_def)

text \<open>The back end never follows a null buffer and never takes the last element of an empty
  vector: in every reachable state its next critical section and its next write succeed.\<close>

theorem async_backend_never_faults:
  assumes "reachable (\<lambda>a. a = AsyncLogging_start) async_step a"
  shows "(backend a = BTop \<longrightarrow> (\<exists>a'. AsyncLogging_swap a = Inr a')) \<and>
    (backend a = BWrite \<longrightarrow> (\<exists>a'. AsyncLogging_write a = Inr a')) \<and>
    (\<exists>a'. AsyncLogging_append logline a = Inr a')"
  using al.reachable_inv [OF assms] swap_ok [of a] write_ok [of a]
  by (auto simp: async_inv_def AsyncLogging_append_def Let_def)

text \<open>Lines appended after the back end's last swap are lost when it stops: there is a run in
  which the back-end thread has ended and a line was never given to the file.\<close>

theorem async_stop_loses_lines:
  "\<exists>a. reachable (\<lambda>a. a = AsyncLogging_start) async_step a \<and> backend a = BDone \<and>
    logged a = ''last words'' \<and> log_out a = []"
proof -
  let ?s0 = AsyncLogging_start
  let ?s1 = "?s0\<lparr>currentBuffer := Some (FixedBuffer_append large_buffer ''last words''), logged := ''last words''\<rparr>"
  let ?s2 = "AsyncLogging_stop ?s1"
  let ?s3 = "?s2\<lparr>backend := BDone\<rparr>"
  have "reachable (\<lambda>a. a = AsyncLogging_start) async_step ?s0" by (rule reach_start) simp
  moreover have "async_step ?s0 ?s1"
    by (rule as_append [where logline = "''last words''"])
      (simp_all add: AsyncLogging_append_def AsyncLogging_start_def kLargeBuffer_def)
  moreover have "async_step ?s1 ?s2" by (rule as_stop)
  moreover have "async_step ?s2 ?s3"
    by (rule as_exit) (simp_all add: AsyncLogging_stop_def AsyncLogging_start_def)
  ultimately have "reachable (\<lambda>a. a = AsyncLogging_start) async_step ?s3" by (meson reach_step)
  then show ?thesis
    by (intro exI [of _ ?s3]) (simp add: AsyncLogging_stop_def AsyncLogging_start_def)
qed

theorem async_lines_conserved_witness:
  "\<exists>a cur. reachable (\<lambda>a. a = AsyncLogging_start) async_step a \<and> currentBuffer a = Some cur \<and>
    log_out a @ concat (map fb_text (buffersToWrite a)) @ concat (map fb_text (buffers a)) @ fb_text cur = logged a"
proof -
  have r: "reachable (\<lambda>a. a = AsyncLogging_start) async_step AsyncLogging_start" by (rule reach_start) simp
  from r async_lines_conserved [OF r] show ?thesis by blast
qed

theorem async_backend_never_faults_witness:
  "\<exists>a'. AsyncLogging_swap AsyncLogging_start = Inr a'"
proof -
  have r: "reachable (\<lambda>a. a = AsyncLogging_start) async_step AsyncLogging_start" by (rule reach_start) simp
  from async_backend_never_faults [OF r] show ?thesis by (simp add: AsyncLogging_start_def)
qed

end
