(* ===== verification/LogFile.thy ===== *)
theory LogFile
  imports LogStream
begin

text \<open>
  \<open>src/logger/FileUtil.h\<close>, \<open>FileUtil.cc\<close>, \<open>LogFile.h\<close>, \<open>LogFile.cc\<close>: the append loop over
  \<open>fwrite_unlocked\<close> and the rolling of log files.

  \<open>disk\<close> is the sequence of writes the process has made to files, each with the file's name; files
  are opened for appending, so the content of a file is the concatenation of the writes to it.
  \<open>pending\<close> is the text the \<open>FILE\<close> holds until \<open>fflush\<close> or \<open>fclose\<close>; the library may write it
  earlier, which nothing here observes. The answers of \<open>fwrite\<close>, the success of \<open>fopen\<close>, the clock
  and \<open>localtime\<close> are arguments. The append loop is \<open>None\<close> when the answers run out before the
  loop ends, so a loop that never ends is \<open>None\<close> on every list of answers.
\<close>

section \<open>FileUtil\<close>

record FileUtil =
  file_name :: string
  pending :: string
  writtenBytes :: int

type_synonym disk = "(string \<times> string) list"

definition file_content :: "disk \<Rightarrow> string \<Rightarrow> string" where
  "file_content d name = concat (map snd (filter (\<lambda>w. fst w = name) d))"

definition disk_text :: "disk \<Rightarrow> string" where
  "disk_text d = concat (map snd d)"

definition FileUtil_new :: "bool \<Rightarrow> string \<Rightarrow> FileUtil res" where
  "FileUtil_new opened name =
     assertR opened ''fp_'' (Inr \<lparr>file_name = name, pending = [], writtenBytes = 0\<rparr>)"

definition FileUtil_flush :: "disk \<Rightarrow> FileUtil \<Rightarrow> disk \<times> FileUtil" where
  "FileUtil_flush d f = (d @ [(file_name f, pending f)], f\<lparr>pending := []\<rparr>)"

text \<open>The destructor: \<open>fclose\<close> writes what is pending.\<close>

definition FileUtil_delete :: "disk \<Rightarrow> FileUtil \<Rightarrow> disk" where
  "FileUtil_delete d f = fst (FileUtil_flush d f)"

text \<open>\<open>fwrite\<close> accepts a prefix of the data: at most \<open>length data\<close> characters.\<close>

definition FileUtil_write :: "nat \<Rightarrow> string \<Rightarrow> FileUtil \<Rightarrow> nat \<times> FileUtil" where
  "FileUtil_write answer data f =
     (let n = min answer (length data) in (n, f\<lparr>pending := pending f @ take n data\<rparr>))"

fun append_loop :: "nat list \<Rightarrow> string \<Rightarrow> nat \<Rightarrow> FileUtil \<Rightarrow> (nat \<times> FileUtil) option" where
  "append_loop answers data written f =
     (if written = length data then Some (written, f)
      else (case answers of
              [] \<Rightarrow> None
            | a # rest \<Rightarrow>
                let (n, f1) = FileUtil_write a (drop written data) f
                in append_loop rest data (written + n) f1))"

declare append_loop.simps [simp del]

definition FileUtil_append :: "nat list \<Rightarrow> string \<Rightarrow> FileUtil \<Rightarrow> FileUtil option" where
  "FileUtil_append answers data f =
     map_option (\<lambda>(written, f1). f1\<lparr>writtenBytes := writtenBytes f1 + int written\<rparr>)
       (append_loop answers data 0 f)"

section \<open>LogFile\<close>

record LogFile =
  basename :: string
  rollSize :: int
  flushInterval :: int
  checkEveryN :: int
  count :: int
  startOfPeriod :: int
  lastRoll :: int
  lastFlush :: int
  log_file :: "FileUtil option"
  disk :: disk

definition kRollPerSeconds :: int where
  "kRollPerSeconds = 60 * 60 * 24"

definition start_of_day :: "int \<Rightarrow> int" where
  "start_of_day now = now sdiv kRollPerSeconds * kRollPerSeconds"

text \<open>\<open>strftime(".\%Y\%m\%d-\%H\%M\%S")\<close>.\<close>

definition format_stamp :: "tm \<Rightarrow> string" where
  "format_stamp t =
     ''.'' @ to_string (tm_year t + 1900) @ pad_zero 2 (tm_mon t + 1) @ pad_zero 2 (tm_mday t) @ ''-'' @
     pad_zero 2 (tm_hour t) @ pad_zero 2 (tm_min t) @ pad_zero 2 (tm_sec t)"

definition getLogFileName :: "(int \<Rightarrow> tm) \<Rightarrow> string \<Rightarrow> int \<Rightarrow> string" where
  "getLogFileName localtime base now = base @ format_stamp (localtime now) @ ''.log''"

text \<open>
  \<open>rollFile\<close> at the time \<open>now\<close>: the new file is opened before \<open>reset\<close> destroys the old object.
\<close>

definition rollFile :: "(int \<Rightarrow> tm) \<Rightarrow> bool \<Rightarrow> int \<Rightarrow> LogFile \<Rightarrow> (bool \<times> LogFile) res" where
  "rollFile localtime opened now lf =
     (let filename = getLogFileName localtime (basename lf) now; start = start_of_day now in
      if lastRoll lf < now
      then bindR (FileUtil_new opened filename) (\<lambda>f.
             let d = (case log_file lf of None \<Rightarrow> disk lf | Some old \<Rightarrow> FileUtil_delete (disk lf) old)
             in Inr (True, lf\<lparr>lastRoll := now, lastFlush := now, startOfPeriod := start,
                             log_file := Some f, disk := d\<rparr>))
      else Inr (False, lf))"

definition LogFile_new ::
    "(int \<Rightarrow> tm) \<Rightarrow> bool \<Rightarrow> int \<Rightarrow> string \<Rightarrow> int \<Rightarrow> int \<Rightarrow> int \<Rightarrow> LogFile res" where
  "LogFile_new localtime opened now base roll interval everyN =
     bindR (rollFile localtime opened now
       \<lparr>basename = base, rollSize = roll, flushInterval = interval, checkEveryN = everyN, count = 0,
        startOfPeriod = 0, lastRoll = 0, lastFlush = 0, log_file = None, disk = []\<rparr>)
       (\<lambda>(_, lf). Inr lf)"

definition LogFile_flush :: "LogFile \<Rightarrow> LogFile res" where
  "LogFile_flush lf =
     (case log_file lf of
        None \<Rightarrow> Inl (BadAccess ''file_'')
      | Some f \<Rightarrow> let (d, f1) = FileUtil_flush (disk lf) f
                  in Inr (lf\<lparr>disk := d, log_file := Some f1\<rparr>))"

text \<open>
  The part of \<open>appendUnLocked\<close> after the write: \<open>t1\<close> is the clock of the periodic check, \<open>t2\<close> the
  one \<open>rollFile\<close> reads, \<open>opened\<close> whether the \<open>fopen\<close> succeeds.
\<close>

definition after_append :: "(int \<Rightarrow> tm) \<Rightarrow> bool \<Rightarrow> int \<Rightarrow> int \<Rightarrow> FileUtil \<Rightarrow> LogFile \<Rightarrow> LogFile res" where
  "after_append localtime opened t1 t2 f lf =
     (if rollSize lf < writtenBytes f
      then bindR (rollFile localtime opened t2 lf) (\<lambda>(_, lf1). Inr lf1)
      else let lf1 = lf\<lparr>count := count lf + 1\<rparr> in
        if checkEveryN lf1 \<le> count lf1
        then let lf2 = lf1\<lparr>count := 0\<rparr> in
          if start_of_day t1 \<noteq> startOfPeriod lf2
          then bindR (rollFile localtime opened t2 lf2) (\<lambda>(_, lf3). Inr lf3)
          else if flushInterval lf2 < t1 - lastFlush lf2
          then LogFile_flush (lf2\<lparr>lastFlush := t1\<rparr>)
          else Inr lf2
        else Inr lf1)"

definition appendUnLocked ::
    "(int \<Rightarrow> tm) \<Rightarrow> bool \<Rightarrow> int \<Rightarrow> int \<Rightarrow> nat list \<Rightarrow> string \<Rightarrow> LogFile \<Rightarrow> LogFile res option" where
  "appendUnLocked localtime opened t1 t2 answers data lf =
     (case log_file lf of
        None \<Rightarrow> Some (Inl (BadAccess ''file_''))
      | Some f \<Rightarrow>
          (case FileUtil_append answers data f of
             None \<Rightarrow> None
           | Some f1 \<Rightarrow> Some (after_append localtime opened t1 t2 f1 (lf\<lparr>log_file := Some f1\<rparr>))))"

section \<open>The append loop\<close>

lemma append_loop_step:
  assumes "written \<noteq> length data"
  shows "append_loop (a # rest) data written f =
    append_loop rest data (written + min a (length data - written))
      (f\<lparr>pending := pending f @ take (min a (length data - written)) (drop written data)\<rparr>)"
  using assms by (subst append_loop.simps) (simp add: FileUtil_write_def Let_def)

lemma append_loop_Some:
  assumes "append_loop answers data written f = Some (n, f')" and "written \<le> length data"
  shows "n = length data \<and> f' = f\<lparr>pending := pending f @ drop written data\<rparr>"
  using assms
proof (induction answers arbitrary: written f)
  case Nil
  then show ?case by (subst (asm) append_loop.simps) (auto split: if_splits)
next
  case (Cons a rest)
  show ?case
  proof (cases "written = length data")
    case True
    with Cons.prems show ?thesis by (subst (asm) append_loop.simps) simp
  next
    case False
    let ?k = "min a (length data - written)"
    have "append_loop rest data (written + ?k)
        (f\<lparr>pending := pending f @ take ?k (drop written data)\<rparr>) = Some (n, f')"
      using Cons.prems(1) append_loop_step [OF False, of a rest f] by (simp only:)
    from Cons.IH [OF this] Cons.prems(2) False
    have "n = length data" "f' = f\<lparr>pending := pending f @ take ?k (drop written data) @ drop (written + ?k) data\<rparr>"
      by simp_all
    moreover have "take ?k (drop written data) @ drop (written + ?k) data = drop written data"
      by (metis add.commute append_take_drop_id drop_drop)
    ultimately show ?thesis by simp
  qed
qed

lemma append_loop_returns:
  assumes "list_all (\<lambda>a. 0 < a) answers" and "length data \<le> written + length answers"
    and "written \<le> length data"
  shows "\<exists>r. append_loop answers data written f = Some r"
  using assms
proof (induction answers arbitrary: written f)
  case Nil
  then show ?case by (subst append_loop.simps) simp
next
  case (Cons a rest)
  show ?case
  proof (cases "written = length data")
    case True
    then show ?thesis by (subst append_loop.simps) simp
  next
    case False
    let ?k = "min a (length data - written)"
    have "0 < ?k" "written + ?k \<le> length data" using Cons.prems False by auto
    then have "length data \<le> (written + ?k) + length rest" "list_all (\<lambda>a. 0 < a) rest"
      using Cons.prems by auto
    from Cons.IH [OF this(2,1) \<open>written + ?k \<le> length data\<close>] show ?thesis
      unfolding append_loop_step [OF False] .
  qed
qed

lemma append_loop_stuck:
  "written < length data \<Longrightarrow> append_loop (replicate n 0) data written f = None"
proof (induction n arbitrary: f)
  case 0
  then show ?case by (subst append_loop.simps) simp
next
  case (Suc n)
  then show ?case by (simp add: append_loop_step)
qed

text \<open>When the append returns, it has handed over exactly the data.\<close>

lemma FileUtil_append_Some:
  assumes "FileUtil_append answers data f = Some f'"
  shows "f' = f\<lparr>pending := pending f @ data, writtenBytes := writtenBytes f + int (length data)\<rparr>"
proof -
  from assms obtain n f1 where "append_loop answers data 0 f = Some (n, f1)"
    "f' = f1\<lparr>writtenBytes := writtenBytes f1 + int n\<rparr>"
    by (auto simp: FileUtil_append_def)
  with append_loop_Some [of answers data 0 f n f1] show ?thesis by simp
qed

text \<open>\<open>FileUtil::append\<close> returns as long as \<open>fwrite\<close> makes progress, however short its writes,
  and has then handed over exactly the data, once and in order.\<close>

theorem file_append_complete:
  assumes "list_all (\<lambda>a. 0 < a) answers" and "length data \<le> length answers"
  shows "FileUtil_append answers data f =
    Some (f\<lparr>pending := pending f @ data, writtenBytes := writtenBytes f + int (length data)\<rparr>)"
proof -
  obtain r where "append_loop answers data 0 f = Some r"
    using append_loop_returns [of answers data 0 f] assms by auto
  then obtain f' where "FileUtil_append answers data f = Some f'"
    by (cases r) (simp add: FileUtil_append_def)
  with FileUtil_append_Some [OF this] show ?thesis by simp
qed

theorem file_append_complete_witness:
  "FileUtil_append [2, 1, 7] ''log'' \<lparr>file_name = ''a'', pending = ''x'', writtenBytes = 1\<rparr> =
    Some \<lparr>file_name = ''a'', pending = ''xlog'', writtenBytes = 4\<rparr>"
  using file_append_complete [of "[2, 1, 7]" "''log''" "\<lparr>file_name = ''a'', pending = ''x'', writtenBytes = 1\<rparr>"]
  by simp

text \<open>When \<open>fwrite\<close> keeps failing (a full disk: it returns 0) the loop never ends: the error is
  printed and the write repeated, for ever.\<close>

theorem file_append_hangs:
  assumes "data \<noteq> []"
  shows "\<forall>n. FileUtil_append (replicate n 0) data f = None"
  using assms by (simp add: FileUtil_append_def append_loop_stuck)

theorem file_append_hangs_witness:
  "\<forall>n. FileUtil_append (replicate n 0) ''x'' \<lparr>file_name = ''a'', pending = [], writtenBytes = 0\<rparr> = None"
  by (rule file_append_hangs) simp

section \<open>Rolling\<close>

text \<open>All the text given to the object, in the order it was given.\<close>

definition log_text :: "LogFile \<Rightarrow> string" where
  "log_text lf = disk_text (disk lf) @ (case log_file lf of None \<Rightarrow> [] | Some f \<Rightarrow> pending f)"

lemma FileUtil_flush_text: "disk_text (fst (FileUtil_flush d f)) = disk_text d @ pending f"
  by (simp add: FileUtil_flush_def disk_text_def)

lemma rollFile_text:
  assumes "rollFile lt opened now lf = Inr (b, lf')"
  shows "log_text lf' = log_text lf" "log_file lf \<noteq> None \<longrightarrow> log_file lf' \<noteq> None"
    "rollSize lf' = rollSize lf"
    "b \<longleftrightarrow> lastRoll lf < now" "b \<Longrightarrow> log_file lf' =
      Some \<lparr>file_name = getLogFileName lt (basename lf) now, pending = [], writtenBytes = 0\<rparr>"
  using assms
  by (auto simp: rollFile_def Let_def res_iffs FileUtil_new_def log_text_def FileUtil_delete_def
      FileUtil_flush_text split: if_splits option.splits)

lemma LogFile_flush_text:
  assumes "LogFile_flush lf = Inr lf'"
  shows "log_text lf' = log_text lf" "log_file lf' \<noteq> None" "disk_text (disk lf') = log_text lf"
    "rollSize lf' = rollSize lf" "map_option writtenBytes (log_file lf') = map_option writtenBytes (log_file lf)"
  using assms by (auto simp: LogFile_flush_def FileUtil_flush_def log_text_def disk_text_def
      split: option.splits)

lemma after_append_text:
  assumes "after_append lt opened t1 t2 f lf = Inr lf'" and "log_file lf \<noteq> None"
  shows "log_text lf' = log_text lf" "log_file lf' \<noteq> None" "rollSize lf' = rollSize lf"
proof -
  have c: "log_text (lf\<lparr>count := i\<rparr>) = log_text lf" "log_text (lf\<lparr>count := i, lastFlush := j\<rparr>) = log_text lf" for i j
    by (simp_all add: log_text_def)
  have "log_text lf' = log_text lf \<and> log_file lf' \<noteq> None \<and> rollSize lf' = rollSize lf"
    using assms
    by (auto simp: after_append_def Let_def bindR_eq_Inr c dest: rollFile_text LogFile_flush_text
        split: if_splits)
  then show "log_text lf' = log_text lf" "log_file lf' \<noteq> None" "rollSize lf' = rollSize lf" by auto
qed

lemma appendUnLocked_text:
  assumes "appendUnLocked lt opened t1 t2 answers data lf = Some (Inr lf')"
  shows "log_text lf' = log_text lf @ data" "log_file lf' \<noteq> None" "rollSize lf' = rollSize lf"
proof -
  from assms obtain f f1 where f: "log_file lf = Some f" "FileUtil_append answers data f = Some f1"
    "after_append lt opened t1 t2 f1 (lf\<lparr>log_file := Some f1\<rparr>) = Inr lf'"
    by (auto simp: appendUnLocked_def split: option.splits)
  have "log_text (lf\<lparr>log_file := Some f1\<rparr>) = log_text lf @ data"
    using f(1) FileUtil_append_Some [OF f(2)] by (simp add: log_text_def)
  with after_append_text [OF f(3)]
  show "log_text lf' = log_text lf @ data" "log_file lf' \<noteq> None" "rollSize lf' = rollSize lf"
    by simp_all
qed

text \<open>The uses of the object, with the history of the data appended to it.\<close>

inductive logfile_step :: "(int \<Rightarrow> tm) \<Rightarrow> LogFile \<times> string \<Rightarrow> LogFile \<times> string \<Rightarrow> bool" for lt where
  ls_append: "appendUnLocked lt opened t1 t2 answers data lf = Some (Inr lf') \<Longrightarrow>
    logfile_step lt (lf, h) (lf', h @ data)"
| ls_flush: "LogFile_flush lf = Inr lf' \<Longrightarrow> logfile_step lt (lf, h) (lf', h)"
| ls_roll: "rollFile lt opened now lf = Inr (b, lf') \<Longrightarrow> logfile_step lt (lf, h) (lf', h)"

definition logfile_start :: "(int \<Rightarrow> tm) \<Rightarrow> LogFile \<times> string \<Rightarrow> bool" where
  "logfile_start lt s \<longleftrightarrow> (\<exists>opened now base roll interval n. 0 < now \<and>
     LogFile_new lt opened now base roll interval n = Inr (fst s) \<and> snd s = [])"

definition logfile_inv :: "LogFile \<times> string \<Rightarrow> bool" where
  "logfile_inv s \<longleftrightarrow> log_text (fst s) = snd s \<and> log_file (fst s) \<noteq> None"

lemma LogFile_new_text:
  assumes "LogFile_new lt opened now base roll interval n = Inr lf" and "0 < now"
  shows "log_text lf = []" "log_file lf \<noteq> None" "rollSize lf = roll" "disk lf = []"
    "map_option pending (log_file lf) = Some []"
  using assms
  by (auto simp: LogFile_new_def rollFile_def FileUtil_new_def res_iffs Let_def log_text_def disk_text_def)

interpretation lf: invariant_system "logfile_start lt" "logfile_step lt" logfile_inv
proof unfold_locales
  fix s assume "logfile_start lt s"
  then show "logfile_inv s"
    by (auto simp: logfile_start_def logfile_inv_def dest: LogFile_new_text)
next
  fix s t assume "logfile_inv s" "logfile_step lt s t"
  from this(2,1) show "logfile_inv t"
    by (induction rule: logfile_step.induct)
      (auto simp: logfile_inv_def dest: appendUnLocked_text LogFile_flush_text rollFile_text)
qed

text \<open>Through every sequence of appends, flushes and rolls the log files hold the appended text:
  the writes made to the files, in the order they were made, followed by what the open file still
  buffers, are exactly the appended data; a flush leaves nothing buffered.\<close>

theorem logfile_conserves_text:
  assumes "reachable (logfile_start lt) (logfile_step lt) (lf, h)"
  shows "log_text lf = h \<and> (\<exists>lf'. LogFile_flush lf = Inr lf' \<and> disk_text (disk lf') = h)"
proof -
  have i: "log_text lf = h" "log_file lf \<noteq> None"
    using lf.reachable_inv [OF assms] by (auto simp: logfile_inv_def)
  then obtain lf' where "LogFile_flush lf = Inr lf'"
    by (auto simp: LogFile_flush_def FileUtil_flush_def)
  with i LogFile_flush_text(3) [OF this] show ?thesis by simp
qed

text \<open>When an append makes the file change: the clock has advanced since the last roll, and the file has become
  larger than the limit or the check that comes every \<open>checkEveryN_\<close> appends has found a new day.\<close>

definition rolls_after :: "int \<Rightarrow> int \<Rightarrow> int \<Rightarrow> LogFile \<Rightarrow> bool" where
  "rolls_after t1 t2 written lf \<longleftrightarrow> lastRoll lf < t2 \<and>
     (rollSize lf < written \<or> (checkEveryN lf \<le> count lf + 1 \<and> start_of_day t1 \<noteq> startOfPeriod lf))"

lemma rollFile_eq:
  assumes "rollFile lt opened now lf = Inr (b, lf')" and "log_file lf = Some f"
  shows "if lastRoll lf < now
    then log_file lf' = Some \<lparr>file_name = getLogFileName lt (basename lf) now, pending = [], writtenBytes = 0\<rparr> \<and>
      lastRoll lf' = now
    else lf' = lf"
  using assms by (auto simp: rollFile_def Let_def res_iffs FileUtil_new_def split: if_splits)

lemma LogFile_flush_eq:
  assumes "LogFile_flush lf = Inr lf'" and "log_file lf = Some f"
  shows "\<exists>f'. log_file lf' = Some f' \<and> file_name f' = file_name f \<and> writtenBytes f' = writtenBytes f \<and> lastRoll lf' = lastRoll lf"
  using assms by (auto simp: LogFile_flush_def FileUtil_flush_def)

text \<open>C31. Every append, and the file that is open after it. The file is changed for a new one, named by the
  time and empty, when it has become larger than the limit, or the daily check is due, and the clock has
  advanced by a second since the last roll; in every other case it is kept and grows by the data, however large
  it is. So a file that is larger than the limit after an append was rolled in the same second: it is not bounded,
  and grows on until the clock advances and one more append closes it.\<close>

theorem roll_bounds_file_size:
  assumes "log_file lf = Some f" and "appendUnLocked lt opened t1 t2 answers data lf = Some (Inr lf')"
  shows "\<exists>f'. log_file lf' = Some f' \<and>
    (if rolls_after t1 t2 (writtenBytes f + int (length data)) lf
     then file_name f' = getLogFileName lt (basename lf) t2 \<and> writtenBytes f' = 0 \<and> pending f' = [] \<and> lastRoll lf' = t2
     else file_name f' = file_name f \<and> writtenBytes f' = writtenBytes f + int (length data) \<and> lastRoll lf' = lastRoll lf) \<and>
    (writtenBytes f' \<le> max 0 (rollSize lf) \<or> t2 \<le> lastRoll lf')"
proof -
  let ?f = "f\<lparr>pending := pending f @ data, writtenBytes := writtenBytes f + int (length data)\<rparr>"
  let ?lf = "lf\<lparr>log_file := Some ?f\<rparr>"
  let ?R = "rolls_after t1 t2 (writtenBytes ?f) lf"
  have a: "after_append lt opened t1 t2 ?f ?lf = Inr lf'"
    using assms by (auto simp: appendUnLocked_def dest: FileUtil_append_Some split: option.splits)
  have roll: "\<exists>f'. log_file lf' = Some f' \<and> (if lastRoll lf < t2
       then file_name f' = getLogFileName lt (basename lf) t2 \<and> writtenBytes f' = 0 \<and> pending f' = [] \<and> lastRoll lf' = t2
       else file_name f' = file_name f \<and> writtenBytes f' = writtenBytes ?f \<and> lastRoll lf' = lastRoll lf)"
    if "rollFile lt opened t2 (?lf\<lparr>count := c\<rparr>) = Inr (b, lf')" for b c
    using rollFile_eq [OF that, of ?f] by (auto split: if_splits)
  have flushed: "\<exists>f'. log_file lf' = Some f' \<and> file_name f' = file_name f \<and> writtenBytes f' = writtenBytes ?f \<and> lastRoll lf' = lastRoll lf"
    if "LogFile_flush (?lf\<lparr>count := c, lastFlush := t\<rparr>) = Inr lf'" for c t
    using LogFile_flush_eq [OF that, of ?f] by simp
  have "\<exists>f'. log_file lf' = Some f' \<and>
    (if ?R then file_name f' = getLogFileName lt (basename lf) t2 \<and> writtenBytes f' = 0 \<and> pending f' = [] \<and> lastRoll lf' = t2
     else file_name f' = file_name f \<and> writtenBytes f' = writtenBytes ?f \<and> lastRoll lf' = lastRoll lf)"
  proof (cases "rollSize lf < writtenBytes ?f")
    case True
    then obtain b where "rollFile lt opened t2 (?lf\<lparr>count := count lf\<rparr>) = Inr (b, lf')"
      using a by (auto simp: after_append_def bindR_eq_Inr)
    from roll [OF this] True show ?thesis by (simp add: rolls_after_def)
  next
    case False
    consider "checkEveryN lf \<le> count lf + 1" "start_of_day t1 \<noteq> startOfPeriod lf"
      | "checkEveryN lf \<le> count lf + 1" "start_of_day t1 = startOfPeriod lf" | "count lf + 1 < checkEveryN lf"
      by linarith
    then show ?thesis
    proof cases
      case 1
      then obtain b where "rollFile lt opened t2 (?lf\<lparr>count := 0\<rparr>) = Inr (b, lf')"
        using a False by (auto simp: after_append_def bindR_eq_Inr Let_def)
      from roll [OF this] False 1 show ?thesis by (simp add: rolls_after_def)
    next
      case 2
      then have "LogFile_flush (?lf\<lparr>count := 0, lastFlush := t1\<rparr>) = Inr lf' \<or> lf' = ?lf\<lparr>count := 0\<rparr>"
        using a False by (auto simp: after_append_def Let_def split: if_splits)
      then show ?thesis using flushed False 2 by (auto simp: rolls_after_def)
    next
      case 3
      then show ?thesis using a False by (auto simp: after_append_def Let_def rolls_after_def)
    qed
  qed
  then show ?thesis by (auto simp: rolls_after_def split: if_splits)
qed

section \<open>Witnesses\<close>

definition demo_tm :: "int \<Rightarrow> tm" where
  "demo_tm t = \<lparr>tm_year = 125, tm_mon = 0, tm_mday = 1, tm_hour = 0, tm_min = 0, tm_sec = t mod 60\<rparr>"

definition demo_log :: "LogFile" where
  "demo_log = \<lparr>basename = ''app'', rollSize = 4, flushInterval = 3, checkEveryN = 1024, count = 0,
     startOfPeriod = 0, lastRoll = 10, lastFlush = 10,
     log_file = Some \<lparr>file_name = ''app.20250101-000010.log'', pending = [], writtenBytes = 0\<rparr>, disk = []\<rparr>"

lemma demo_log_start: "logfile_start demo_tm (demo_log, [])"
proof -
  have "LogFile_new demo_tm True 10 ''app'' 4 3 1024 = Inr demo_log" by code_simp
  then show ?thesis unfolding logfile_start_def by (metis fst_conv snd_conv zero_less_numeral)
qed

lemma demo_append:
  obtains lf where "appendUnLocked demo_tm True 20 20 [3, 3] ''first'' demo_log = Some (Inr lf)"
proof -
  have "(case appendUnLocked demo_tm True 20 20 [3, 3] ''first'' demo_log of
      Some (Inr _) \<Rightarrow> True | _ \<Rightarrow> False)" by code_simp
  then show ?thesis using that by (auto split: option.splits sum.splits)
qed

theorem logfile_conserves_text_witness:
  "\<exists>lf. appendUnLocked demo_tm True 20 20 [3, 3] ''first'' demo_log = Some (Inr lf) \<and> log_text lf = ''first''"
proof -
  obtain lf where lf: "appendUnLocked demo_tm True 20 20 [3, 3] ''first'' demo_log = Some (Inr lf)"
    by (rule demo_append)
  have "reachable (logfile_start demo_tm) (logfile_step demo_tm) (lf, [] @ ''first'')"
    by (rule reach_step [OF reach_start [where s = "(demo_log, [])"]])
      (rule demo_log_start, rule ls_append, rule lf)
  from logfile_conserves_text [OF this] lf show ?thesis by auto
qed

theorem roll_bounds_file_size_witness:
  "\<exists>lf f'. appendUnLocked demo_tm True 20 20 [3, 3] ''first'' demo_log = Some (Inr lf) \<and>
    log_file lf = Some f' \<and> writtenBytes f' = 0 \<and> lastRoll lf = 20"
proof -
  obtain lf where lf: "appendUnLocked demo_tm True 20 20 [3, 3] ''first'' demo_log = Some (Inr lf)"
    by (rule demo_append)
  let ?f = "\<lparr>file_name = ''app.20250101-000010.log'', pending = [], writtenBytes = 0\<rparr>"
  have d: "log_file demo_log = Some ?f" by (simp add: demo_log_def)
  have "rolls_after 20 20 (writtenBytes ?f + int (length ''first'')) demo_log" by (simp add: rolls_after_def demo_log_def)
  with roll_bounds_file_size [OF d lf] lf show ?thesis by auto
qed

end
