(* ===== verification/Async_File.thy ===== *)
theory Async_File
  imports AsyncLogging LogFile
begin

text \<open>
  The back-end thread of \<open>src/logger/AsyncLogging.cc\<close> together with the \<open>LogFile\<close> it writes to: what
  \<open>AsyncLogging_write\<close> calls \<open>log_out\<close> is the text on disk. Each append comes with the answers of
  the system calls it makes.
\<close>

record io_answers =
  io_opened :: bool
  io_t1 :: int
  io_t2 :: int
  io_fwrite :: "nat list"

text \<open>\<open>for (const auto \& buffer : buffersToWrite) output.append(buffer->data(), buffer->length())\<close>\<close>

fun write_buffers :: "(int \<Rightarrow> tm) \<Rightarrow> io_answers list \<Rightarrow> FixedBuffer list \<Rightarrow> LogFile \<Rightarrow> LogFile res option" where
  "write_buffers lt ios [] lf = Some (Inr lf)"
| "write_buffers lt [] (b # bs) lf = None"
| "write_buffers lt (i # ios) (b # bs) lf =
     (case appendUnLocked lt (io_opened i) (io_t1 i) (io_t2 i) (io_fwrite i) (fb_text b) lf of
        Some (Inr lf1) \<Rightarrow> write_buffers lt ios bs lf1
      | r \<Rightarrow> r)"

inductive async_file_step :: "(int \<Rightarrow> tm) \<Rightarrow> AsyncLogging \<times> LogFile \<Rightarrow> AsyncLogging \<times> LogFile \<Rightarrow> bool" for lt where
  af_front: "length logline < kLargeBuffer \<Longrightarrow> AsyncLogging_append logline a = Inr a' \<Longrightarrow>
    async_file_step lt (a, lf) (a', lf)"
| af_stop: "async_file_step lt (a, lf) (AsyncLogging_stop a, lf)"
| af_swap: "backend a = BTop \<Longrightarrow> running a \<Longrightarrow> AsyncLogging_swap a = Inr a' \<Longrightarrow>
    async_file_step lt (a, lf) (a'\<lparr>backend := BWrite\<rparr>, lf)"
| af_write: "backend a = BWrite \<Longrightarrow> write_buffers lt ios (buffersToWrite a) lf = Some (Inr lf1) \<Longrightarrow>
    AsyncLogging_write a = Inr a' \<Longrightarrow> LogFile_flush lf1 = Inr lf2 \<Longrightarrow>
    async_file_step lt (a, lf) (a'\<lparr>backend := BTop\<rparr>, lf2)"
| af_exit: "backend a = BTop \<Longrightarrow> \<not> running a \<Longrightarrow> LogFile_flush lf = Inr lf' \<Longrightarrow>
    async_file_step lt (a, lf) (a\<lparr>backend := BDone\<rparr>, lf')"

definition async_file_start :: "(int \<Rightarrow> tm) \<Rightarrow> AsyncLogging \<times> LogFile \<Rightarrow> bool" where
  "async_file_start lt s \<longleftrightarrow> fst s = AsyncLogging_start \<and>
     (\<exists>opened now base roll. 0 < now \<and> LogFile_new lt opened now base roll 3 1024 = Inr (snd s))"

definition async_file_inv :: "AsyncLogging \<times> LogFile \<Rightarrow> bool" where
  "async_file_inv s \<longleftrightarrow> async_inv (fst s) \<and> log_file (snd s) \<noteq> None \<and>
     disk_text (disk (snd s)) = log_out (fst s) \<and> log_text (snd s) = log_out (fst s)"

lemma write_buffers_text:
  assumes "write_buffers lt ios bs lf = Some (Inr lf')" and "log_file lf \<noteq> None"
  shows "log_text lf' = log_text lf @ concat (map fb_text bs) \<and> log_file lf' \<noteq> None"
  using assms
proof (induction lt ios bs lf rule: write_buffers.induct)
  case (3 lt i ios b bs lf)
  from 3(2) obtain lf1 where lf1: "write_buffers lt ios bs lf1 = Some (Inr lf')"
    "appendUnLocked lt (io_opened i) (io_t1 i) (io_t2 i) (io_fwrite i) (fb_text b) lf = Some (Inr lf1)"
    by (auto split: option.splits sum.splits)
  with 3(1) [OF lf1(2) refl lf1(1)] appendUnLocked_text [OF lf1(2)] show ?case by simp
qed auto

lemma swap_write_log_out:
  "AsyncLogging_append l a = Inr a' \<Longrightarrow> log_out a' = log_out a"
  "AsyncLogging_swap a = Inr a' \<Longrightarrow> log_out a' = log_out a"
  "AsyncLogging_write a = Inr a' \<Longrightarrow> log_out a' = log_out a @ concat (map fb_text (buffersToWrite a))"
  by (auto simp: AsyncLogging_append_def AsyncLogging_swap_def AsyncLogging_write_def Let_def bindR_eq_Inr
      split: option.splits if_splits)

lemma async_file_step_inv:
  assumes "async_file_inv s" and "async_file_step lt s t"
  shows "async_file_inv t"
  using assms(2,1)
proof cases
  case (af_front l a a' lf)
  then show ?thesis using assms(1) append_inv [of a l a'] swap_write_log_out(1) [of l a a']
    by (simp add: async_file_inv_def)
next
  case (af_stop a lf)
  then show ?thesis using assms(1) async_step_inv [OF _ as_stop, of a]
    by (simp add: async_file_inv_def) (simp add: AsyncLogging_stop_def)
next
  case (af_swap a a' lf)
  then show ?thesis using assms(1) async_step_inv [OF _ as_swap, of a a'] swap_write_log_out(2) [of a a']
    by (simp add: async_file_inv_def)
next
  case (af_write a ios lf lf1 a' lf2)
  then have "log_text lf1 = log_out a @ concat (map fb_text (buffersToWrite a))"
    using assms(1) write_buffers_text [of lt ios "buffersToWrite a" lf lf1] by (auto simp: async_file_inv_def)
  with af_write show ?thesis
    using assms(1) async_step_inv [OF _ as_write, of a a'] swap_write_log_out(3) [of a a']
      LogFile_flush_text [of lf1 lf2]
    by (simp add: async_file_inv_def)
next
  case (af_exit a lf lf')
  then show ?thesis using assms(1) async_step_inv [OF _ as_exit, of a] LogFile_flush_text [of lf lf']
    by (simp add: async_file_inv_def)
qed

interpretation af: invariant_system "async_file_start lt" "async_file_step lt" async_file_inv
proof unfold_locales
  have "log_out AsyncLogging_start = []" by (simp add: AsyncLogging_start_def)
  moreover fix s assume "async_file_start lt s"
  ultimately show "async_file_inv s"
    by (auto simp: async_file_start_def async_file_inv_def async_start_inv disk_text_def
        dest: LogFile_new_text)
qed (rule async_file_step_inv)

text \<open>From the front end to the disk nothing is lost, duplicated or reordered: whenever the back
  end is not in the middle of a batch, the text on disk, followed by the text of the front end's
  full buffers and of its current buffer, is exactly the text appended.\<close>

theorem async_log_reaches_disk:
  assumes "reachable (async_file_start lt) (async_file_step lt) (a, lf)" and "backend a \<noteq> BWrite"
  shows "\<exists>cur. currentBuffer a = Some cur \<and>
    disk_text (disk lf) @ concat (map fb_text (buffers a)) @ fb_text cur = logged a"
  using af.reachable_inv [OF assms(1)] assms(2) by (auto simp: async_file_inv_def async_inv_def)

theorem async_log_reaches_disk_witness:
  "\<exists>cur. currentBuffer AsyncLogging_start = Some cur \<and>
    disk_text (disk demo_log) @ concat (map fb_text (buffers AsyncLogging_start)) @ fb_text cur =
      logged AsyncLogging_start"
proof (rule async_log_reaches_disk)
  have "LogFile_new demo_tm True 10 ''app'' 4 3 1024 = Inr demo_log" by code_simp
  then have "async_file_start demo_tm (AsyncLogging_start, demo_log)"
    unfolding async_file_start_def by (metis fst_conv snd_conv zero_less_numeral)
  then show "reachable (async_file_start demo_tm) (async_file_step demo_tm) (AsyncLogging_start, demo_log)"
    by (rule reach_start)
qed (simp add: AsyncLogging_start_def)

end
