(* ===== verification/Async_Logger.thy ===== *)
theory Async_Logger
  imports Logger Async_File
begin

text \<open>
  The output and flush functions of \<open>src/logger/Logging.cc\<close>, and \<open>Logger::useAsyncLog\<close>, which joins the
  log statements to \<open>AsyncLogging\<close> and its file: the whole way of a line from the statement to the disk.

  Output goes to \<open>stdout\<close>, to the static \<open>asyncLog\<close> or to a function of the user, of which only the calls
  are recorded. \<open>async_log\<close> is that static object, with the file its thread has opened. \<open>to_flush\<close> and
  \<open>to_abort\<close> count the threads that are inside the destructor of a fatal logger, before \<open>g_flush\<close> and before
  \<open>abort\<close>; the other threads, the back end among them, run on. \<open>abort\<close> leaves the state as it is and ends
  all threads.
\<close>

section \<open>Output functions\<close>

datatype OutputFunc = OutDefault | OutAsync | OutUser

datatype FlushFunc = FlushDefault | FlushUser

record log_process =
  lp_globals :: logger_globals
  g_output :: OutputFunc
  g_flush :: FlushFunc
  stdout_pending :: string
  stdout_text :: string
  user_out :: "string list"
  user_flushes :: nat
  async_log :: "(AsyncLogging \<times> LogFile) option"
  to_flush :: nat
  to_abort :: nat
  aborted :: bool

definition defaultOutput :: "string \<Rightarrow> log_process \<Rightarrow> log_process" where
  "defaultOutput data p = p\<lparr>stdout_pending := stdout_pending p @ data\<rparr>"

definition defaultFlush :: "log_process \<Rightarrow> log_process" where
  "defaultFlush p = p\<lparr>stdout_text := stdout_text p @ stdout_pending p, stdout_pending := []\<rparr>"

definition setOutput :: "OutputFunc \<Rightarrow> log_process \<Rightarrow> log_process" where
  "setOutput out p = p\<lparr>g_output := out\<rparr>"

definition setFlush :: "FlushFunc \<Rightarrow> log_process \<Rightarrow> log_process" where
  "setFlush flush p = p\<lparr>g_flush := flush\<rparr>"

text \<open>The calls \<open>g_output(data, len)\<close> and \<open>g_flush()\<close>.\<close>

definition call_output :: "string \<Rightarrow> log_process \<Rightarrow> log_process res" where
  "call_output data p =
     (case g_output p of
        OutDefault \<Rightarrow> Inr (defaultOutput data p)
      | OutAsync \<Rightarrow>
          (case async_log p of
             None \<Rightarrow> Inl (BadAccess ''asyncLog'')
           | Some (a, lf) \<Rightarrow> bindR (AsyncLogging_append data a) (\<lambda>a1. Inr (p\<lparr>async_log := Some (a1, lf)\<rparr>)))
      | OutUser \<Rightarrow> Inr (p\<lparr>user_out := user_out p @ [data]\<rparr>))"

definition call_flush :: "log_process \<Rightarrow> log_process" where
  "call_flush p =
     (case g_flush p of FlushDefault \<Rightarrow> defaultFlush p | FlushUser \<Rightarrow> p\<lparr>user_flushes := user_flushes p + 1\<rparr>)"

text \<open>
  The first call makes the object and starts its thread, which opens the file; a second one starts the
  thread again. \<open>opened\<close> and \<open>now\<close> are the answers of \<open>fopen\<close> and of the clock.
\<close>

definition useAsyncLog ::
    "(int \<Rightarrow> tm) \<Rightarrow> bool \<Rightarrow> int \<Rightarrow> string \<Rightarrow> int \<Rightarrow> log_process \<Rightarrow> log_process res" where
  "useAsyncLog localtime opened now base roll p =
     (let p1 = setOutput OutAsync p in
      case async_log p1 of
        Some _ \<Rightarrow> Inl (AssertFail ''!started_'')
      | None \<Rightarrow> bindR (LogFile_new localtime opened now base roll 3 1024) (\<lambda>lf.
                  Inr (p1\<lparr>async_log := Some (AsyncLogging_start, lf)\<rparr>)))"

text \<open>A log statement in the process, up to and with the call of the output function, which gets the text of
  the logger; a fatal one has then to call the flush function and to abort, each a step of its own
  (\<open>append\<close> has released its mutex).\<close>

definition run_statement ::
    "(int \<Rightarrow> tm) \<Rightarrow> (int \<Rightarrow> string) \<Rightarrow> Timestamp \<Rightarrow> Timestamp \<Rightarrow> log_macro \<Rightarrow> string \<Rightarrow> int \<Rightarrow> string \<Rightarrow> int \<Rightarrow>
     log_item list \<Rightarrow> log_process \<Rightarrow> log_process res" where
  "run_statement localtime strerror now1 now2 m file line func err items p =
     (case log_statement localtime strerror now1 now2 m file line func err items ((lp_globals p)\<lparr>g_out := []\<rparr>) of
        Inr g \<Rightarrow> foldR call_output (g_out g) (p\<lparr>lp_globals := g\<rparr>)
      | Inl (FatalLog data) \<Rightarrow> bindR (call_output data p) (\<lambda>p1. Inr (p1\<lparr>to_flush := to_flush p1 + 1\<rparr>))
      | Inl e \<Rightarrow> Inl e)"

definition fatal_flush :: "log_process \<Rightarrow> log_process" where
  "fatal_flush p = (call_flush p)\<lparr>to_flush := to_flush p - 1, to_abort := to_abort p + 1\<rparr>"

definition fatal_abort :: "log_process \<Rightarrow> log_process" where
  "fatal_abort p = p\<lparr>aborted := True\<rparr>"

section \<open>One statement\<close>

text \<open>The arguments of a statement whose line fits its stream, and that line.\<close>

record log_args =
  la_now1 :: Timestamp
  la_now2 :: Timestamp
  la_macro :: log_macro
  la_file :: string
  la_line :: int
  la_func :: string
  la_errno :: int
  la_items :: "log_item list"

definition line_text :: "(int \<Rightarrow> tm) \<Rightarrow> (int \<Rightarrow> string) \<Rightarrow> log_args \<Rightarrow> string" where
  "line_text lt se r = head_text lt se (la_now2 r) (macro_level (la_macro r)) (macro_errno (la_macro r) (la_errno r))
       (macro_func (la_macro r) (la_func r)) @ concat (map item_text (la_items r)) @ tail_text (la_file r) (la_line r)"

definition args_ok :: "(int \<Rightarrow> tm) \<Rightarrow> (int \<Rightarrow> string) \<Rightarrow> log_args \<Rightarrow> bool" where
  "args_ok lt se r \<longleftrightarrow> 0 \<le> microSecondsSinceEpoch (la_now2 r) \<and> int64 (la_errno r) \<and> int64 (la_line r) \<and>
     list_all item_ok (la_items r) \<and> length (line_text lt se r) \<le> 3952"

definition shown :: "log_args \<Rightarrow> log_process \<Rightarrow> bool" where
  "shown r p \<longleftrightarrow> \<not> (macro_level (la_macro r) < WARN \<and> macro_level (la_macro r) < g_logLevel (lp_globals p))"

abbreviation run_args :: "(int \<Rightarrow> tm) \<Rightarrow> (int \<Rightarrow> string) \<Rightarrow> log_args \<Rightarrow> log_process \<Rightarrow> log_process res" where
  "run_args lt se r \<equiv> run_statement lt se (la_now1 r) (la_now2 r) (la_macro r) (la_file r) (la_line r) (la_func r)
     (la_errno r) (la_items r)"

lemma statement_cases:
  assumes "args_ok lt se r"
  obtains (hidden) g where "\<not> shown r p" "run_args lt se r p = Inr (p\<lparr>lp_globals := g\<rparr>)"
  | (normal) g where "shown r p" "macro_level (la_macro r) \<noteq> FATAL"
      "run_args lt se r p = call_output (line_text lt se r) (p\<lparr>lp_globals := g\<rparr>)"
  | (fatal) "shown r p" "macro_level (la_macro r) = FATAL" "run_args lt se r p =
      bindR (call_output (line_text lt se r) p) (\<lambda>p1. Inr (p1\<lparr>to_flush := to_flush p1 + 1\<rparr>))"
proof -
  note A = assms [unfolded args_ok_def]
  let ?g = "(lp_globals p)\<lparr>g_out := []\<rparr>"
  have spec: "if macro_level (la_macro r) < WARN \<and> macro_level (la_macro r) < g_logLevel ?g
    then log_statement lt se (la_now1 r) (la_now2 r) (la_macro r) (la_file r) (la_line r) (la_func r) (la_errno r) (la_items r) ?g = Inr ?g
    else if macro_level (la_macro r) = FATAL
    then log_statement lt se (la_now1 r) (la_now2 r) (la_macro r) (la_file r) (la_line r) (la_func r) (la_errno r) (la_items r) ?g =
      Inl (FatalLog (line_text lt se r))
    else \<exists>g'. log_statement lt se (la_now1 r) (la_now2 r) (la_macro r) (la_file r) (la_line r) (la_func r) (la_errno r) (la_items r) ?g =
      Inr g' \<and> g_out g' = g_out ?g @ [line_text lt se r] \<and> g_logLevel g' = g_logLevel ?g"
    by (rule log_statement_spec) (use A in \<open>simp_all add: line_text_def\<close>)
  have sh: "shown r p \<longleftrightarrow> \<not> (macro_level (la_macro r) < WARN \<and> macro_level (la_macro r) < g_logLevel ?g)"
    by (simp add: shown_def)
  show ?thesis
  proof (cases "shown r p")
    case False
    show ?thesis by (rule hidden [OF False, of ?g]) (use spec sh False in \<open>simp add: run_statement_def\<close>)
  next
    case True
    show ?thesis
    proof (cases "macro_level (la_macro r) = FATAL")
      case F: True
      then show ?thesis using spec sh True by (intro fatal) (simp_all add: run_statement_def)
    next
      case F: False
      then obtain g' where "log_statement lt se (la_now1 r) (la_now2 r) (la_macro r) (la_file r) (la_line r) (la_func r)
        (la_errno r) (la_items r) ?g = Inr g'" "g_out g' = [line_text lt se r]"
        using spec sh True by auto
      moreover have "bindR q (foldR call_output []) = q" for q :: "log_process res" by (cases q) simp_all
      ultimately show ?thesis by (intro normal [of g']) (use True F in \<open>simp_all add: run_statement_def\<close>)
    qed
  qed
qed

text \<open>The text a statement hands to the output function, and what the log should hold of it: nothing below the
  level, else its line; of a line that does not fit its stream, what the stream has kept.\<close>

definition handed_over :: "(int \<Rightarrow> tm) \<Rightarrow> (int \<Rightarrow> string) \<Rightarrow> log_args \<Rightarrow> log_process \<Rightarrow> string" where
  "handed_over lt se r p =
     (case log_statement lt se (la_now1 r) (la_now2 r) (la_macro r) (la_file r) (la_line r) (la_func r) (la_errno r)
         (la_items r) ((lp_globals p)\<lparr>g_out := []\<rparr>) of
        Inr g \<Rightarrow> concat (g_out g) | Inl (FatalLog data) \<Rightarrow> data | Inl e \<Rightarrow> [])"

definition entry_text :: "(int \<Rightarrow> tm) \<Rightarrow> (int \<Rightarrow> string) \<Rightarrow> log_args \<Rightarrow> log_process \<Rightarrow> string" where
  "entry_text lt se r p =
     (if \<not> args_ok lt se r then handed_over lt se r p else if shown r p then line_text lt se r else [])"

section \<open>The process\<close>

text \<open>
  Threads execute statements, any of them, and finish fatal ones, and the back end takes its steps, until
  the process aborts. \<open>emitted\<close> is the text of the statements executed so far.
\<close>

inductive front_step ::
    "(int \<Rightarrow> tm) \<Rightarrow> (int \<Rightarrow> string) \<Rightarrow> log_process \<times> string \<Rightarrow> log_process \<times> string \<Rightarrow> bool" for lt se where
  lp_statement: "\<not> aborted p \<Longrightarrow> run_args lt se r p = Inr p' \<Longrightarrow>
    front_step lt se (p, emitted) (p', emitted @ entry_text lt se r p)"
| lp_flush: "\<not> aborted p \<Longrightarrow> 0 < to_flush p \<Longrightarrow> front_step lt se (p, emitted) (fatal_flush p, emitted)"
| lp_abort: "\<not> aborted p \<Longrightarrow> 0 < to_abort p \<Longrightarrow> front_step lt se (p, emitted) (fatal_abort p, emitted)"

inductive log_process_step ::
    "(int \<Rightarrow> tm) \<Rightarrow> (int \<Rightarrow> string) \<Rightarrow> log_process \<times> string \<Rightarrow> log_process \<times> string \<Rightarrow> bool" for lt se where
  lp_front: "front_step lt se s t \<Longrightarrow> log_process_step lt se s t"
| lp_backend: "\<not> aborted p \<Longrightarrow> async_log p = Some s \<Longrightarrow> async_file_step lt s s' \<Longrightarrow> logged (fst s') = logged (fst s) \<Longrightarrow>
    log_process_step lt se (p, emitted) (p\<lparr>async_log := Some s'\<rparr>, emitted)"

inductive_cases front_stepE: "front_step lt se (p, e) s"
inductive_cases log_process_stepE: "log_process_step lt se (p, e) s"

definition log_process_start :: "(int \<Rightarrow> tm) \<Rightarrow> log_process \<times> string \<Rightarrow> bool" where
  "log_process_start lt s \<longleftrightarrow> snd s = [] \<and>
     (\<exists>p opened now base roll. 0 < now \<and> useAsyncLog lt opened now base roll p = Inr (fst s))"

definition log_process_inv :: "log_process \<times> string \<Rightarrow> bool" where
  "log_process_inv s \<longleftrightarrow> g_output (fst s) = OutAsync \<and>
     (\<exists>a lf. async_log (fst s) = Some (a, lf) \<and> async_file_inv (a, lf) \<and> logged a = snd s)"

lemma append_logged: "AsyncLogging_append l a = Inr a' \<Longrightarrow> logged a' = logged a @ l \<and> log_out a' = log_out a"
  by (auto simp: AsyncLogging_append_def Let_def split: option.splits if_splits)

lemma append_total:
  assumes "async_inv a"
  shows "\<exists>a'. AsyncLogging_append l a = Inr a'"
proof -
  obtain cur where "currentBuffer a = Some cur" using assms by (auto simp: async_inv_def)
  then show ?thesis by (cases "length l < fb_avail cur") (simp_all add: AsyncLogging_append_def Let_def)
qed

lemma call_output_inv:
  assumes "log_process_inv (p, e)" and "length l \<le> kSmallBuffer" and "call_output l p = Inr p'"
  shows "log_process_inv (p', e @ l)"
proof -
  obtain a lf where a: "g_output p = OutAsync" "async_log p = Some (a, lf)" "async_file_inv (a, lf)" "logged a = e"
    using assms(1) by (auto simp: log_process_inv_def)
  then obtain a' where a': "AsyncLogging_append l a = Inr a'" "p' = p\<lparr>async_log := Some (a', lf)\<rparr>"
    using assms(3) by (auto simp: call_output_def bindR_eq_Inr)
  have "async_inv a'" using append_inv [OF _ _ a'(1)] a(3) assms(2)
    by (simp add: async_file_inv_def kLargeBuffer_def kSmallBuffer_def)
  then show ?thesis using a a' append_logged [OF a'(1)] by (simp add: log_process_inv_def async_file_inv_def)
qed

lemma fatal_keeps:
  "g_output (fatal_flush p) = g_output p" "async_log (fatal_flush p) = async_log p"
  "g_output (fatal_abort p) = g_output p" "async_log (fatal_abort p) = async_log p"
  by (simp_all add: fatal_flush_def fatal_abort_def call_flush_def defaultFlush_def split: FlushFunc.split)

text \<open>A statement that returns has handed one text over, or none.\<close>

lemma run_statement_cases:
  assumes "run_args lt se r p = Inr p'"
  obtains (silent) g where "handed_over lt se r p = []" "p' = p\<lparr>lp_globals := g\<rparr>"
  | (line) g where "length (handed_over lt se r p) \<le> kSmallBuffer"
      "call_output (handed_over lt se r p) (p\<lparr>lp_globals := g\<rparr>) = Inr p'"
  | (fatal) p1 where "length (handed_over lt se r p) \<le> kSmallBuffer"
      "call_output (handed_over lt se r p) p = Inr p1" "p' = p1\<lparr>to_flush := to_flush p1 + 1\<rparr>"
proof -
  define q where q: "q = log_statement lt se (la_now1 r) (la_now2 r) (la_macro r) (la_file r) (la_line r) (la_func r)
    (la_errno r) (la_items r) ((lp_globals p)\<lparr>g_out := []\<rparr>)"
  have run: "(case q of Inr g \<Rightarrow> foldR call_output (g_out g) (p\<lparr>lp_globals := g\<rparr>)
      | Inl (FatalLog data) \<Rightarrow> bindR (call_output data p) (\<lambda>p1. Inr (p1\<lparr>to_flush := to_flush p1 + 1\<rparr>))
      | Inl e \<Rightarrow> Inl e) = Inr p'"
    using assms by (simp only: run_statement_def q)
  have h: "handed_over lt se r p = (case q of Inr g \<Rightarrow> concat (g_out g) | Inl (FatalLog data) \<Rightarrow> data | Inl e \<Rightarrow> [])"
    by (simp only: handed_over_def q)
  show ?thesis
  proof (cases q)
    case (Inr g)
    from log_statement_text(1) [OF q this] show ?thesis
    proof (elim disjE exE conjE)
      assume "g_out g = g_out ((lp_globals p)\<lparr>g_out := []\<rparr>)"
      then show ?thesis using Inr run h by (intro silent [of g]) simp_all
    next
      fix d
      assume "g_out g = g_out ((lp_globals p)\<lparr>g_out := []\<rparr>) @ [d]" "length d \<le> kSmallBuffer"
      then show ?thesis using Inr run h by (intro line [of g]) (simp_all add: bindR_eq_Inr)
    qed
  next
    case (Inl e)
    with run obtain d where e: "e = FatalLog d" by (cases e) simp_all
    then obtain p1 where "call_output d p = Inr p1" "p' = p1\<lparr>to_flush := to_flush p1 + 1\<rparr>"
      using Inl run by (auto simp: bindR_eq_Inr)
    then show ?thesis using e Inl h log_statement_text(2) [OF q] by (intro fatal [of p1]) simp_all
  qed
qed

text \<open>Of a line that fits, it is the line.\<close>

lemma handed_over_line:
  assumes "args_ok lt se r" and "run_args lt se r p = Inr p'"
  shows "handed_over lt se r p = entry_text lt se r p"
proof -
  note A = assms(1) [unfolded args_ok_def]
  let ?g = "(lp_globals p)\<lparr>g_out := []\<rparr>"
  have spec: "if macro_level (la_macro r) < WARN \<and> macro_level (la_macro r) < g_logLevel ?g
    then log_statement lt se (la_now1 r) (la_now2 r) (la_macro r) (la_file r) (la_line r) (la_func r) (la_errno r) (la_items r) ?g = Inr ?g
    else if macro_level (la_macro r) = FATAL
    then log_statement lt se (la_now1 r) (la_now2 r) (la_macro r) (la_file r) (la_line r) (la_func r) (la_errno r) (la_items r) ?g =
      Inl (FatalLog (line_text lt se r))
    else \<exists>g'. log_statement lt se (la_now1 r) (la_now2 r) (la_macro r) (la_file r) (la_line r) (la_func r) (la_errno r) (la_items r) ?g =
      Inr g' \<and> g_out g' = g_out ?g @ [line_text lt se r] \<and> g_logLevel g' = g_logLevel ?g"
    by (rule log_statement_spec) (use A in \<open>simp_all add: line_text_def\<close>)
  have "shown r p \<longleftrightarrow> \<not> (macro_level (la_macro r) < WARN \<and> macro_level (la_macro r) < g_logLevel ?g)"
    by (simp add: shown_def)
  with spec show ?thesis using assms(1) by (auto simp: entry_text_def handed_over_def split: if_splits)
qed

lemma statement_inv:
  assumes inv: "log_process_inv (p, e)" and run: "run_args lt se r p = Inr p'"
  shows "log_process_inv (p', e @ entry_text lt se r p)"
proof -
  have t: "entry_text lt se r p = handed_over lt se r p"
    using handed_over_line [OF _ run] by (cases "args_ok lt se r") (simp_all add: entry_text_def)
  have glob: "log_process_inv (p\<lparr>lp_globals := g\<rparr>, e)" for g using inv by (simp add: log_process_inv_def)
  from run show ?thesis
  proof (cases rule: run_statement_cases)
    case (silent g)
    then show ?thesis using glob t by simp
  next
    case (line g)
    then show ?thesis using call_output_inv [OF glob line(1)] t by simp
  next
    case (fatal p1)
    with call_output_inv [OF inv fatal(1,2)] t show ?thesis by (simp add: log_process_inv_def)
  qed
qed

lemma front_step_inv:
  assumes "log_process_inv s" and "front_step lt se s t"
  shows "log_process_inv t"
  using assms(2)
proof cases
  case (lp_statement p r p' e)
  then show ?thesis using assms(1) statement_inv by blast
qed (use assms(1) in \<open>simp_all add: log_process_inv_def fatal_keeps\<close>)

lemma log_process_step_inv:
  assumes "log_process_inv s" and "log_process_step lt se s t"
  shows "log_process_inv t"
  using assms(2)
proof cases
  case lp_front
  then show ?thesis using assms(1) front_step_inv by blast
next
  case (lp_backend p s s' e)
  then show ?thesis using assms(1) async_file_step_inv [of s lt s'] by (cases s; cases s') (simp add: log_process_inv_def)
qed

lemma log_process_start_inv:
  assumes "log_process_start lt s"
  shows "log_process_inv s"
proof -
  obtain q where q: "s = (q, [])" using assms by (cases s) (simp add: log_process_start_def)
  with assms obtain p opened now base roll where "0 < now" "useAsyncLog lt opened now base roll p = Inr q"
    by (auto simp: log_process_start_def)
  then obtain lf where lf: "LogFile_new lt opened now base roll 3 1024 = Inr lf" "g_output q = OutAsync"
    "async_log q = Some (AsyncLogging_start, lf)"
    by (auto simp: useAsyncLog_def setOutput_def Let_def bindR_eq_Inr split: option.splits)
  then have "async_file_start lt (AsyncLogging_start, lf)" using \<open>0 < now\<close> by (auto simp: async_file_start_def)
  then have "async_file_inv (AsyncLogging_start, lf)" by (rule af.inv_start)
  then show ?thesis using lf q by (simp add: log_process_inv_def) (simp add: AsyncLogging_start_def)
qed

interpretation lp: invariant_system "log_process_start lt" "log_process_step lt se" log_process_inv for lt se
  by unfold_locales (auto intro: log_process_start_inv log_process_step_inv)

section \<open>Properties\<close>

text \<open>C14. After \<open>useAsyncLog\<close> every line on its way is accounted for: whenever the back end is not in
  the middle of a batch, the text on disk, over all the files, followed by what the front end holds is
  the lines of the statements executed at or above the configured level, in order, none lost, doubled
  or changed. A line is whole when it has at most 3952 bytes, so that 48 are left in the 4000 of its
  stream, its integers have 64 bits and its time is not negative; of a line that is longer the text is what
  its stream has kept, at most 4000 bytes.\<close>

theorem log_statements_reach_disk:
  assumes "reachable (log_process_start lt) (log_process_step lt se) (p, emitted)"
  shows "\<exists>a lf cur. async_log p = Some (a, lf) \<and> currentBuffer a = Some cur \<and>
    (backend a \<noteq> BWrite \<longrightarrow> disk_text (disk lf) @ concat (map fb_text (buffers a)) @ fb_text cur = emitted)"
  using lp.reachable_inv [OF assms] by (auto simp: log_process_inv_def async_file_inv_def async_inv_def)

lemma call_output_async:
  assumes "call_output l p = Inr q" and "g_output p = OutAsync" and "async_log p = Some (a, lf)"
  shows "g_output q = OutAsync \<and> (\<exists>b. async_log q = Some (b, lf) \<and> log_out b = log_out a)"
  using assms append_logged by (auto simp: call_output_def bindR_eq_Inr)

text \<open>Without the back end nothing is written.\<close>

lemma front_step_keeps:
  assumes "front_step lt se (p, e) (q, e')" and "g_output p = OutAsync" and "async_log p = Some (a, lf)"
  shows "g_output q = OutAsync \<and> (\<exists>b. async_log q = Some (b, lf) \<and> log_out b = log_out a)"
  using assms(1)
proof cases
  case (lp_statement r)
  from lp_statement(3) show ?thesis
  proof (cases rule: run_statement_cases)
    case (line g)
    then show ?thesis using call_output_async [OF line(2)] assms(2,3) by simp
  next
    case (fatal p1)
    then show ?thesis using call_output_async [OF fatal(2)] assms(2,3) by simp
  qed (use assms(2,3) in simp)
qed (use assms(2,3) in \<open>simp_all add: fatal_keeps\<close>)

lemma front_steps_keep:
  assumes "(front_step lt se)\<^sup>*\<^sup>* s t" and "g_output (fst s) = OutAsync" and "async_log (fst s) = Some (a, lf)"
  shows "g_output (fst t) = OutAsync \<and> (\<exists>b. async_log (fst t) = Some (b, lf) \<and> log_out b = log_out a)"
  using assms(1)
proof (induction rule: rtranclp_induct)
  case (step t u)
  then obtain b where b: "g_output (fst t) = OutAsync" "async_log (fst t) = Some (b, lf)" "log_out b = log_out a" by blast
  have "front_step lt se (fst t, snd t) (fst u, snd u)" using step.hyps(2) by simp
  from front_step_keeps [OF this b(1,2)] b(3) show ?case by simp
qed (use assms(2,3) in simp)

text \<open>C30. Under asynchronous logging a fatal statement does not see to its line: it puts the line, one that
  fits its stream, into the front end's buffer, flushes \<open>stdout\<close>, the default of the flush function, and aborts,
  after which no thread is left to write anything. Its own steps, and those of all the other threads that log, leave the file as it
  was when the statement began; only steps that the back end happens to take before the abort can save
  the line.\<close>

theorem fatal_line_not_flushed:
  assumes "g_output p = OutAsync" and "g_flush p = FlushDefault" and "async_log p = Some (a, lf)" and "async_inv a"
    and "macro_level (la_macro r) = FATAL" and "args_ok lt se r"
  shows "\<exists>p1 a1. run_args lt se r p = Inr p1 \<and> async_log p1 = Some (a1, lf) \<and>
    logged a1 = logged a @ line_text lt se r \<and> log_out a1 = log_out a \<and> 0 < to_flush p1 \<and>
    (let p2 = fatal_flush p1; p3 = fatal_abort p2 in 0 < to_abort p2 \<and> async_log p3 = Some (a1, lf) \<and>
       stdout_text p3 = stdout_text p @ stdout_pending p \<and> (\<forall>e s. \<not> log_process_step lt se (p3, e) s)) \<and>
    (\<forall>e q e'. (front_step lt se)\<^sup>*\<^sup>* (p1, e) (q, e') \<longrightarrow> (\<exists>b. async_log q = Some (b, lf) \<and> log_out b = log_out a))"
proof -
  have "shown r p" using assms(5) by (simp add: shown_def less_LogLevel_def)
  obtain a' where a': "AsyncLogging_append (line_text lt se r) a = Inr a'" using append_total [OF assms(4)] by blast
  let ?p = "p\<lparr>async_log := Some (a', lf), to_flush := to_flush p + 1\<rparr>"
  let ?q = "fatal_abort (fatal_flush ?p)"
  from assms(6) have run: "run_args lt se r p = Inr ?p"
    by (cases rule: statement_cases [where p = p]) (use \<open>shown r p\<close> assms(1,3,5) a' in \<open>simp_all add: call_output_def\<close>)
  have "\<not> log_process_step lt se (?q, e) s" for e s
    by (auto elim!: log_process_stepE front_stepE simp: fatal_abort_def)
  moreover have "async_log ?q = Some (a', lf)" by (simp add: fatal_keeps)
  moreover have "stdout_text ?q = stdout_text p @ stdout_pending p" "0 < to_abort (fatal_flush ?p)"
    using assms(2) by (simp_all add: fatal_abort_def fatal_flush_def call_flush_def defaultFlush_def)
  moreover have "\<exists>b. async_log q = Some (b, lf) \<and> log_out b = log_out a"
    if "(front_step lt se)\<^sup>*\<^sup>* (?p, e) (q, e')" for e q e'
    using front_steps_keep [OF that, of a' lf] assms(1) append_logged [OF a'] by simp
  ultimately show ?thesis using run append_logged [OF a']
    by (intro exI [of _ ?p] exI [of _ a']) (simp add: Let_def)
qed

section \<open>Examples\<close>

definition demo_process :: log_process where
  "demo_process = \<lparr>lp_globals = demo_globals, g_output = OutDefault, g_flush = FlushDefault, stdout_pending = [],
     stdout_text = [], user_out = [], user_flushes = 0, async_log = None,
     to_flush = 0, to_abort = 0, aborted = False\<rparr>"

definition demo_args :: "log_macro \<Rightarrow> log_args" where
  "demo_args m = \<lparr>la_now1 = Timestamp 42, la_now2 = Timestamp 42, la_macro = m, la_file = ''src/a.cc'', la_line = 12,
     la_func = ''f'', la_errno = 28, la_items = [ItemStr ''fd '', ItemInt 7]\<rparr>"

lemma demo_args_ok: "line_text demo_time (\<lambda>e. ''disk full'') (demo_args LOG_SYSERR) = demo_line"
  "args_ok demo_time (\<lambda>e. ''disk full'') (demo_args LOG_SYSERR)"
  "args_ok demo_time (\<lambda>e. ''disk full'') (demo_args LOG_FATAL)"
proof -
  show t: "line_text demo_time (\<lambda>e. ''disk full'') (demo_args LOG_SYSERR) = demo_line" by code_simp
  have f: "length (line_text demo_time (\<lambda>e. ''disk full'') (demo_args LOG_FATAL)) \<le> 3952" by code_simp
  show "args_ok demo_time (\<lambda>e. ''disk full'') (demo_args LOG_SYSERR)"
    unfolding args_ok_def t by (simp add: demo_args_def demo_line_def int64_def)
  show "args_ok demo_time (\<lambda>e. ''disk full'') (demo_args LOG_FATAL)"
    unfolding args_ok_def using f by (simp add: demo_args_def int64_def)
qed

lemma demo_async: "useAsyncLog demo_tm True 10 ''app'' 4 demo_process =
    Inr (demo_process\<lparr>g_output := OutAsync, async_log := Some (AsyncLogging_start, demo_log)\<rparr>)"
proof -
  have "LogFile_new demo_tm True 10 ''app'' 4 3 1024 = Inr demo_log" by code_simp
  then show ?thesis by (simp add: useAsyncLog_def setOutput_def demo_process_def)
qed

theorem log_statements_reach_disk_witness:
  "\<exists>p e a lf cur. reachable (log_process_start demo_tm) (log_process_step demo_tm (\<lambda>e. [])) (p, e) \<and> e \<noteq> [] \<and>
    async_log p = Some (a, lf) \<and> currentBuffer a = Some cur"
proof -
  let ?p = "demo_process\<lparr>g_output := OutAsync, async_log := Some (AsyncLogging_start, demo_log)\<rparr>"
  let ?r = "demo_args LOG_SYSERR" and ?l = "line_text demo_tm (\<lambda>e. []) (demo_args LOG_SYSERR)"
  have "length ?l \<le> 3952" by code_simp
  then have ok: "args_ok demo_tm (\<lambda>e. []) ?r" unfolding args_ok_def by (simp add: demo_args_def int64_def)
  have sh: "shown ?r ?p" "macro_level (la_macro ?r) \<noteq> FATAL" by (simp_all add: shown_def demo_args_def less_LogLevel_def)
  obtain a' where "AsyncLogging_append ?l AsyncLogging_start = Inr a'" using append_total [OF async_start_inv] by blast
  with ok obtain p' where run: "run_args demo_tm (\<lambda>e. []) ?r ?p = Inr p'"
    by (cases rule: statement_cases [where p = ?p]) (use sh in \<open>simp_all add: call_output_def\<close>)
  have "log_process_start demo_tm (?p, [])"
    unfolding log_process_start_def fst_conv snd_conv using demo_async zero_less_numeral by blast
  then have "reachable (log_process_start demo_tm) (log_process_step demo_tm (\<lambda>e. [])) (?p, [])" by (rule reach_start)
  moreover have "front_step demo_tm (\<lambda>e. []) (?p, []) (p', [] @ entry_text demo_tm (\<lambda>e. []) ?r ?p)"
    by (rule lp_statement [OF _ run]) (simp add: demo_process_def)
  then have "log_process_step demo_tm (\<lambda>e. []) (?p, []) (p', ?l)"
    using sh(1) ok lp_front by (fastforce simp: entry_text_def)
  ultimately have r: "reachable (log_process_start demo_tm) (log_process_step demo_tm (\<lambda>e. [])) (p', ?l)"
    using reach_step by fast
  moreover have "?l \<noteq> []" by (simp add: line_text_def tail_text_def)
  ultimately show ?thesis using log_statements_reach_disk [OF r] by blast
qed

theorem fatal_line_not_flushed_witness:
  "\<exists>p p' a'. g_output p = OutAsync \<and> run_args demo_time (\<lambda>e. ''disk full'') (demo_args LOG_FATAL) p = Inr p' \<and>
    async_log p' = Some (a', demo_log) \<and> logged a' \<noteq> [] \<and> log_out a' = []"
proof -
  let ?p = "demo_process\<lparr>g_output := OutAsync, async_log := Some (AsyncLogging_start, demo_log)\<rparr>"
  have "line_text demo_time (\<lambda>e. ''disk full'') (demo_args LOG_FATAL) \<noteq> []" by (simp add: line_text_def tail_text_def)
  moreover have "g_output ?p = OutAsync" "g_flush ?p = FlushDefault" "async_log ?p = Some (AsyncLogging_start, demo_log)"
    "macro_level (la_macro (demo_args LOG_FATAL)) = FATAL" by (simp_all add: demo_process_def demo_args_def)
  moreover from fatal_line_not_flushed [OF this(1-3) async_start_inv this(4) demo_args_ok(3)]
  obtain p' a' where "run_args demo_time (\<lambda>e. ''disk full'') (demo_args LOG_FATAL) ?p = Inr p'"
    "async_log p' = Some (a', demo_log)" "logged a' = logged AsyncLogging_start @ line_text demo_time (\<lambda>e. ''disk full'') (demo_args LOG_FATAL)"
    "log_out a' = log_out AsyncLogging_start" by (elim exE conjE)
  ultimately show ?thesis
    by (intro exI [of _ ?p] exI [of _ p'] exI [of _ a']) (simp add: AsyncLogging_start_def)
qed

end
