(* ===== verification/Connector.thy ===== *)
theory Connector
  imports Socket Channel_Release TcpConnection
begin

text \<open>
  \<open>src/net/Connector.h\<close>, \<open>Connector.cc\<close>: the active side of a connection. The state is the loop's
  with the connector's members; \<open>socks\<close> is the set of the sockets the connector has opened and not
  closed. The answers of \<open>socket\<close>, \<open>connect\<close>, \<open>getsockopt\<close>, \<open>getsockname\<close> and \<open>getpeername\<close>, and the
  addresses the allocator returns for a channel and for a timer, are arguments.
\<close>

section \<open>Delays\<close>

text \<open>
  The quotient of two integers as a \<open>double\<close>, rounded to nearest: enough bits of the quotient, with a
  last bit for what follows them, rounded to 53 bits.
\<close>

definition dbl_quotient :: "nat \<Rightarrow> nat \<Rightarrow> double" where
  "dbl_quotient n d =
     (let s = 53 + bit_length d;
          q = 2 * (n * 2 ^ s div d) + (if n * 2 ^ s mod d = 0 then 0 else 1);
          k = bit_length q - 53
      in Dbl (int (round_half_even q k)) (int k - int (s + 1)))"

definition kMaxRetryDelayMs :: nat where
  "kMaxRetryDelayMs = 30 * 1000"

definition kInitRetryDelayMs :: nat where
  "kInitRetryDelayMs = 500"

section \<open>State and operations\<close>

datatype States = CN_kDisconnected | CN_kConnecting | CN_kConnected

record connector_world = conn_world +
  cn_connect :: bool
  cn_state :: States
  cn_channel :: "chan_ptr option"
  cn_retryDelayMs :: nat
  serverAddr :: sockaddr_in
  socks :: "int set"

definition sock_opened :: "int \<Rightarrow> 'z connector_world_scheme \<Rightarrow> 'z connector_world_scheme" where
  "sock_opened fd st = st\<lparr>socks := insert fd (socks st)\<rparr>"

definition sock_closed :: "int \<Rightarrow> 'z connector_world_scheme \<Rightarrow> 'z connector_world_scheme" where
  "sock_closed fd st = st\<lparr>socks := socks st - {fd}\<rparr>"

definition Connector_new :: "sockaddr_in \<Rightarrow> 'z connector_world_scheme \<Rightarrow> 'z connector_world_scheme" where
  "Connector_new addr st =
     st\<lparr>cn_connect := False, cn_state := CN_kDisconnected, cn_channel := None,
        cn_retryDelayMs := kInitRetryDelayMs, serverAddr := addr\<rparr>"

definition Connector_delete :: "'z connector_world_scheme \<Rightarrow> 'z connector_world_scheme res" where
  "Connector_delete st = assertR (cn_channel st = None) ''!channel_'' (Inr st)"

text \<open>\<open>cn_retry_callback\<close> stands for \<open>std::bind(\&Connector::startInLoop, shared_from_this())\<close>.\<close>

definition cn_retry_callback :: nat where
  "cn_retry_callback = 0"

definition Connector_retry ::
    "timer_ptr \<Rightarrow> int \<Rightarrow> 'z connector_world_scheme \<Rightarrow> 'z connector_world_scheme res" where
  "Connector_retry tp fd st =
     (let st1 = (sock_closed fd st)\<lparr>cn_state := CN_kDisconnected\<rparr> in
      if cn_connect st1
      then bindR (runAfter tp (dbl_quotient (cn_retryDelayMs st1) 1000) cn_retry_callback st1) (\<lambda>(_, st2).
             Inr (st2\<lparr>cn_retryDelayMs := min (cn_retryDelayMs st2 * 2) kMaxRetryDelayMs\<rparr>))
      else Inr st1)"

definition Connector_connecting ::
    "chan_ptr \<Rightarrow> int \<Rightarrow> 'z connector_world_scheme \<Rightarrow> 'z connector_world_scheme res" where
  "Connector_connecting p fd st =
     (let st1 = st\<lparr>cn_state := CN_kConnecting\<rparr> in
      assertR (cn_channel st1 = None) ''!channel_''
        (bindR (new_Channel st1 p (Channel_setErrorCallback (Channel_setWriteCallback
                  (Channel_new (loop_id st1) fd)))) (\<lambda>st2.
           Channel_enableWriting (st2\<lparr>cn_channel := Some p\<rparr>) p)))"

text \<open>The \<open>errno\<close> values of the \<open>switch\<close>, by the branch they select.\<close>

definition EINTR :: int where "EINTR = 4"
definition EAGAIN :: int where "EAGAIN = 11"
definition EADDRINUSE :: int where "EADDRINUSE = 98"
definition EADDRNOTAVAIL :: int where "EADDRNOTAVAIL = 99"
definition ENETUNREACH :: int where "ENETUNREACH = 101"
definition EISCONN :: int where "EISCONN = 106"
definition ECONNREFUSED :: int where "ECONNREFUSED = 111"
definition EINPROGRESS :: int where "EINPROGRESS = 115"

lemmas errno_values = EINTR_def EAGAIN_def EADDRINUSE_def EADDRNOTAVAIL_def ENETUNREACH_def EISCONN_def
  ECONNREFUSED_def EINPROGRESS_def

definition errno_connecting :: "int set" where
  "errno_connecting = {0, EINPROGRESS, EINTR, EISCONN}"

definition errno_retry :: "int set" where
  "errno_retry = {EAGAIN, EADDRINUSE, EADDRNOTAVAIL, ECONNREFUSED, ENETUNREACH}"

record connect_answers =
  ans_socket :: int
  ans_errno :: int
  ans_channel :: chan_ptr
  ans_timer :: timer_ptr

definition Connector_connect ::
    "connect_answers \<Rightarrow> 'z connector_world_scheme \<Rightarrow> 'z connector_world_scheme res" where
  "Connector_connect a st =
     bindR (createNonblockingFd (ans_socket a)) (\<lambda>fd.
       let st1 = sock_opened fd st; savedErrno = ans_errno a in
       if savedErrno \<in> errno_connecting then Connector_connecting (ans_channel a) fd st1
       else if savedErrno \<in> errno_retry then Connector_retry (ans_timer a) fd st1
       else Inr (sock_closed fd st1))"

definition Connector_startInLoop ::
    "connect_answers \<Rightarrow> 'z connector_world_scheme \<Rightarrow> 'z connector_world_scheme res" where
  "Connector_startInLoop a st = (if cn_connect st then Connector_connect a st else Inr st)"

definition Connector_removeAndResetChannel ::
    "'z connector_world_scheme \<Rightarrow> (int \<times> 'z connector_world_scheme) res" where
  "Connector_removeAndResetChannel st =
     (case cn_channel st of
        None \<Rightarrow> Inl (BadAccess ''channel_'')
      | Some p \<Rightarrow>
          bindR (Channel_disableAll st p) (\<lambda>st1.
            bindR (Channel_remove st1 p) (\<lambda>st2.
              bindR (chan_deref st2 p) (\<lambda>ch.
                Inr (ch_fd ch, queueInLoop F_Connector_resetChannel st2)))))"

definition Connector_resetChannel :: "'z connector_world_scheme \<Rightarrow> 'z connector_world_scheme res" where
  "Connector_resetChannel st =
     (case cn_channel st of
        None \<Rightarrow> Inr st
      | Some p \<Rightarrow> bindR (delete_Channel st p) (\<lambda>st1. Inr (st1\<lparr>cn_channel := None\<rparr>)))"

definition Connector_stopInLoop :: "timer_ptr \<Rightarrow> 'z connector_world_scheme \<Rightarrow> 'z connector_world_scheme res" where
  "Connector_stopInLoop tp st =
     (if cn_state st = CN_kConnecting
      then bindR (Connector_removeAndResetChannel (st\<lparr>cn_state := CN_kDisconnected\<rparr>)) (\<lambda>(fd, st1).
             Connector_retry tp fd st1)
      else Inr st)"

text \<open>
  \<open>so\<close> is the answer of \<open>getsockopt\<close>, \<open>local\<close> and \<open>peer\<close> those of \<open>getsockname\<close> and
  \<open>getpeername\<close>; \<open>ncb\<close> is \<open>newConnectionCallback_\<close>.
\<close>

definition Connector_handleWrite ::
    "(int \<Rightarrow> 'z connector_world_scheme \<Rightarrow> 'z connector_world_scheme res) option \<Rightarrow>
     int + int \<Rightarrow> sockaddr_in option \<Rightarrow> sockaddr_in option \<Rightarrow> timer_ptr \<Rightarrow>
     'z connector_world_scheme \<Rightarrow> 'z connector_world_scheme res" where
  "Connector_handleWrite ncb so local peer tp st =
     (if cn_state st = CN_kConnecting
      then bindR (Connector_removeAndResetChannel st) (\<lambda>(fd, st1).
             if getSocketError so \<noteq> 0 then Connector_retry tp fd st1
             else if isSelfConnect local peer then Connector_retry tp fd st1
             else let st2 = st1\<lparr>cn_state := CN_kConnected\<rparr> in
               if cn_connect st2
               then (case ncb of Some f \<Rightarrow> f fd st2 | None \<Rightarrow> Inr (sock_closed fd st2))
               else Inr (sock_closed fd st2))
      else assertR (cn_state st = CN_kDisconnected) ''state_.load() == kDisconnected'' (Inr st))"

definition Connector_handleError ::
    "timer_ptr \<Rightarrow> 'z connector_world_scheme \<Rightarrow> 'z connector_world_scheme res" where
  "Connector_handleError tp st =
     (if cn_state st = CN_kConnecting
      then bindR (Connector_removeAndResetChannel st) (\<lambda>(fd, st1). Connector_retry tp fd st1)
      else Inr st)"

fun exec_connector_functor ::
    "connect_answers \<Rightarrow> Functor \<Rightarrow> 'z connector_world_scheme \<Rightarrow> 'z connector_world_scheme res" where
  "exec_connector_functor a F_Connector_startInLoop st = Connector_startInLoop a st"
| "exec_connector_functor a F_Connector_stopInLoop st = Connector_stopInLoop (ans_timer a) st"
| "exec_connector_functor a F_Connector_resetChannel st = Connector_resetChannel st"
| "exec_connector_functor a f st = exec_timer_functor f st"

definition Connector_start ::
    "connect_answers \<Rightarrow> 'z connector_world_scheme \<Rightarrow> 'z connector_world_scheme res" where
  "Connector_start a st =
     runInLoop (exec_connector_functor a) F_Connector_startInLoop (st\<lparr>cn_connect := True\<rparr>)"

definition Connector_restart ::
    "connect_answers \<Rightarrow> 'z connector_world_scheme \<Rightarrow> 'z connector_world_scheme res" where
  "Connector_restart a st =
     Connector_startInLoop a (st\<lparr>cn_state := CN_kConnecting, cn_retryDelayMs := kInitRetryDelayMs\<rparr>)"

definition Connector_stop :: "'z connector_world_scheme \<Rightarrow> 'z connector_world_scheme" where
  "Connector_stop st = queueInLoop F_Connector_stopInLoop (st\<lparr>cn_connect := False\<rparr>)"

text \<open>The callbacks bound to the connector's channel.\<close>

fun connector_channel_callback ::
    "(int \<Rightarrow> 'z connector_world_scheme \<Rightarrow> 'z connector_world_scheme res) option \<Rightarrow>
     int + int \<Rightarrow> sockaddr_in option \<Rightarrow> sockaddr_in option \<Rightarrow> timer_ptr \<Rightarrow> chan_ptr \<Rightarrow> chan_event \<Rightarrow>
     'z connector_world_scheme \<Rightarrow> 'z connector_world_scheme res" where
  "connector_channel_callback ncb so local peer tp p WriteEv st = Connector_handleWrite ncb so local peer tp st"
| "connector_channel_callback ncb so local peer tp p ErrorEv st = Connector_handleError tp st"
| "connector_channel_callback ncb so local peer tp p _ st = Inr st"

section \<open>Retrying\<close>

text \<open>The delay before the attempt that follows \<open>k\<close> failures in a row.\<close>

definition backoff :: "nat \<Rightarrow> nat" where
  "backoff k = min (500 * 2 ^ k) 30000"

lemma backoff_values: "backoff k \<in> {500, 1000, 2000, 4000, 8000, 16000, 30000}"
proof (cases "k < 6")
  case True
  then have "k = 0 \<or> k = 1 \<or> k = 2 \<or> k = 3 \<or> k = 4 \<or> k = 5" by linarith
  then show ?thesis by (elim disjE) (simp_all add: backoff_def)
next
  case False
  then have "(2::nat) ^ 6 \<le> 2 ^ k" by (intro power_increasing) simp_all
  then show ?thesis by (simp add: backoff_def)
qed

lemma backoff_Suc: "min (backoff k * 2) kMaxRetryDelayMs = backoff (Suc k)"
  by (simp add: backoff_def kMaxRetryDelayMs_def min_def)

lemma backoff_0: "backoff 0 = kInitRetryDelayMs"
  by (simp add: backoff_def kInitRetryDelayMs_def)

text \<open>Every one of the delays is exact in binary, and so is its product with a million.\<close>

lemma bit_length_eq: "2 ^ k \<le> n \<Longrightarrow> n < 2 ^ Suc k \<Longrightarrow> bit_length n = Suc k"
proof (induction k arbitrary: n)
  case 0
  then have "n = 1" by simp
  then show ?case by (simp add: bit_length.simps)
next
  case (Suc k)
  then have "n \<noteq> 0" "2 ^ k \<le> n div 2" "n div 2 < 2 ^ Suc k" by auto
  with Suc.IH [of "n div 2"] show ?case by (subst bit_length.simps) simp
qed

lemma dbl_quotient_whole:
  assumes "n * 2 ^ 63 = 1000 * q" and "2 ^ (k + 52) \<le> 2 * q" and "2 * q < 2 ^ (k + 53)" and "2 * q = m * 2 ^ k"
  shows "dbl_quotient n 1000 = Dbl (int m) (int k - 64)"
proof -
  have b: "bit_length 1000 = 10" "bit_length (2 * q) = k + 53"
    using bit_length_eq [of 9 1000] bit_length_eq [of "k + 52" "2 * q"] assms(2,3)
    by (simp_all add: add.commute)
  have "n * 2 ^ (53 + 10) div 1000 = q" "n * 2 ^ (53 + 10) mod 1000 = 0" using assms(1) by simp_all
  then show ?thesis unfolding dbl_quotient_def b(1) Let_def
    using b(2) assms(4) by (simp add: round_half_even_def)
qed

lemma addTime_delta_exact:
  assumes "m * 1000000 = m' * 2 ^ k" and "2 ^ (k + 52) \<le> m * 1000000" and "m * 1000000 < 2 ^ (k + 53)"
  shows "addTime_delta (Dbl (int m) e) = dbl_trunc (Dbl (int m') (e + int k))"
proof -
  have b: "bit_length (m * 1000000) = k + 53"
    using bit_length_eq [of "k + 52" "m * 1000000"] assms(2,3) by (simp add: add.commute)
  have n: "nat (int m * 1000000) = m * 1000000" by (simp add: nat_mult_distrib)
  have "0 < m" using assms(2) by (cases m) simp_all
  then have "sgn (int m * 1000000) = 1" by (simp add: sgn_mult)
  moreover have "round_half_even (m * 1000000) k = m'" unfolding assms(1) by (simp add: round_half_even_def)
  ultimately show ?thesis
    by (simp add: addTime_delta_def dbl_mult_int_def kMicroSecondsPerSecond_def Let_def n b)
qed

lemma delay_deltas:
  "addTime_delta (dbl_quotient 500 1000) = 500000"
  "addTime_delta (dbl_quotient 1000 1000) = 1000000"
  "addTime_delta (dbl_quotient 2000 1000) = 2000000"
  "addTime_delta (dbl_quotient 4000 1000) = 4000000"
  "addTime_delta (dbl_quotient 8000 1000) = 8000000"
  "addTime_delta (dbl_quotient 16000 1000) = 16000000"
  "addTime_delta (dbl_quotient 30000 1000) = 30000000"
proof -
  show "addTime_delta (dbl_quotient 500 1000) = 500000"
    using dbl_quotient_whole [of 500 4611686018427387904 11 4503599627370496] addTime_delta_exact [of 4503599627370496 8589934592000000 19 "11 - 64"]
    by (simp add: dbl_trunc_def signed_divide_int_def)
  show "addTime_delta (dbl_quotient 1000 1000) = 1000000"
    using dbl_quotient_whole [of 1000 9223372036854775808 12 4503599627370496] addTime_delta_exact [of 4503599627370496 8589934592000000 19 "12 - 64"]
    by (simp add: dbl_trunc_def signed_divide_int_def)
  show "addTime_delta (dbl_quotient 2000 1000) = 2000000"
    using dbl_quotient_whole [of 2000 18446744073709551616 13 4503599627370496] addTime_delta_exact [of 4503599627370496 8589934592000000 19 "13 - 64"]
    by (simp add: dbl_trunc_def signed_divide_int_def)
  show "addTime_delta (dbl_quotient 4000 1000) = 4000000"
    using dbl_quotient_whole [of 4000 36893488147419103232 14 4503599627370496] addTime_delta_exact [of 4503599627370496 8589934592000000 19 "14 - 64"]
    by (simp add: dbl_trunc_def signed_divide_int_def)
  show "addTime_delta (dbl_quotient 8000 1000) = 8000000"
    using dbl_quotient_whole [of 8000 73786976294838206464 15 4503599627370496] addTime_delta_exact [of 4503599627370496 8589934592000000 19 "15 - 64"]
    by (simp add: dbl_trunc_def signed_divide_int_def)
  show "addTime_delta (dbl_quotient 16000 1000) = 16000000"
    using dbl_quotient_whole [of 16000 147573952589676412928 16 4503599627370496] addTime_delta_exact [of 4503599627370496 8589934592000000 19 "16 - 64"]
    by (simp add: dbl_trunc_def signed_divide_int_def)
  show "addTime_delta (dbl_quotient 30000 1000) = 30000000"
    using dbl_quotient_whole [of 30000 276701161105643274240 16 8444249301319680] addTime_delta_exact [of 8444249301319680 8053063680000000 20 "16 - 64"]
    by (simp add: dbl_trunc_def signed_divide_int_def)
qed

lemma backoff_delta: "addTime_delta (dbl_quotient (backoff k) 1000) = 1000 * int (backoff k)"
  using backoff_values [of k] by (elim insertE emptyE) (simp_all add: delay_deltas)

lemma sock_simps [simp]:
  fixes st :: "'z connector_world_scheme"
  shows "timerQueue (sock_closed fd st) = timerQueue st" "isInLoopThread (sock_closed fd st) = isInLoopThread st"
    "clock (sock_closed fd st) = clock st" "cn_connect (sock_closed fd st) = cn_connect st"
    "cn_retryDelayMs (sock_closed fd st) = cn_retryDelayMs st" "socks (sock_closed fd st) = socks st - {fd}"
  by (simp_all add: sock_closed_def isInLoopThread_def)

lemma retry_spec:
  assumes "tq_rest (timerQueue st)" and "isInLoopThread st" and "timer_heap (timerQueue st) tp = None"
    and "0 < tp" and "tp < UINTPTR_MAX" and "cn_retryDelayMs st = backoff k"
  shows "\<exists>st'. Connector_retry tp fd st = Inr st' \<and> socks st' = socks st - {fd} \<and>
    cn_state st' = CN_kDisconnected \<and>
    (if cn_connect st
     then cn_retryDelayMs st' = backoff (Suc k) \<and> tq_rest (timerQueue st') \<and>
       set (timers (timerQueue st')) = insert
         (Timestamp (microSecondsSinceEpoch (clock st) + 1000 * int (backoff k)), tp) (set (timers (timerQueue st))) \<and>
       map_option callback (timer_heap (timerQueue st') tp) = Some cn_retry_callback
     else timerQueue st' = timerQueue st \<and> cn_retryDelayMs st' = cn_retryDelayMs st)"
proof (cases "cn_connect st")
  case True
  let ?st1 = "(sock_closed fd st)\<lparr>cn_state := CN_kDisconnected\<rparr>"
  let ?w = "addTime (clock ?st1) (dbl_quotient (backoff k) 1000)"
  have f: "timerQueue ?st1 = timerQueue st" "isInLoopThread ?st1 = isInLoopThread st" "clock ?st1 = clock st"
    "cn_connect ?st1 = cn_connect st" "cn_retryDelayMs ?st1 = backoff k" "socks ?st1 = socks st - {fd}"
    using assms(6) by (simp_all add: sock_closed_def isInLoopThread_def)
  have w: "?w = Timestamp (microSecondsSinceEpoch (clock st) + 1000 * int (backoff k))"
    by (simp add: addTime_def backoff_delta)
  obtain tid q where q: "EventLoop_addTimer tp cn_retry_callback ?w (Dbl 0 0) ?st1 = Inr (tid, ?st1\<lparr>timerQueue := q\<rparr>)"
    "tq_rest q" "set (timers q) = insert (?w, tp) (set (timers (timerQueue ?st1)))"
    "timer_heap q = (timer_heap (timerQueue ?st1))(tp \<mapsto> Timer_new cn_retry_callback ?w (Dbl 0 0)
      (s_numCreated (timerQueue ?st1) + 1))"
    using addTimer_in_loop [of ?st1 tp cn_retry_callback ?w "Dbl 0 0"] assms(1-5) unfolding f by auto
  have "Connector_retry tp fd st = Inr (?st1\<lparr>timerQueue := q,
      cn_retryDelayMs := min (backoff k * 2) kMaxRetryDelayMs\<rparr>)"
    unfolding Connector_retry_def Let_def f(4,5) runAfter_def runAt_def q(1)
    using True assms(6) by simp
  then show ?thesis using True q w f by (simp add: backoff_Suc Timer_new_def)
next
  case False
  then show ?thesis by (simp add: Connector_retry_def Let_def)
qed

text \<open>After the \<open>k\<close>-th failure in a row the connector closes the socket, is disconnected, and
  has a timer that expires exactly \<open>500 * 2 ^ k\<close> milliseconds, but at most 30 seconds, after the
  clock's reading (the product with a million and the division by a thousand are exact in
  \<open>double\<close>); when it has been stopped it only closes the socket.\<close>

theorem connector_retry_backoff:
  assumes "tq_rest (timerQueue st)" and "isInLoopThread st" and "timer_heap (timerQueue st) tp = None"
    and "0 < tp" and "tp < UINTPTR_MAX" and "cn_retryDelayMs st = backoff k"
  shows "\<exists>st'. Connector_retry tp fd st = Inr st' \<and> socks st' = socks st - {fd} \<and>
    cn_state st' = CN_kDisconnected \<and>
    (if cn_connect st
     then cn_retryDelayMs st' = backoff (Suc k) \<and> tq_rest (timerQueue st') \<and>
       set (timers (timerQueue st')) = insert
         (Timestamp (microSecondsSinceEpoch (clock st) + 1000 * int (backoff k)), tp) (set (timers (timerQueue st))) \<and>
       map_option callback (timer_heap (timerQueue st') tp) = Some cn_retry_callback
     else timerQueue st' = timerQueue st \<and> cn_retryDelayMs st' = cn_retryDelayMs st)"
  using assms by (rule retry_spec)

section \<open>Events of the connecting channel\<close>

lemma removeChannel_active:
  fixes st :: "'z EventLoop_scheme"
  assumes "chan_store st p = Some ch" and "ch_loop ch = loop_id st" and "isInLoopThread st"
    and "isNoneEvent ch" and "eventHandling st" and "p \<in> set (activeChannels st)"
  shows "Channel_remove st p = Inl (AssertFail ''std::find(activeChannels_, channel) == end'')"
  using assms by (simp add: Channel_remove_def EventLoop_removeChannel_def)

lemma removeAndReset_in_event:
  fixes st :: "'z connector_world_scheme"
  assumes inv: "loop_inv st" and p: "cn_channel st = Some p" "chan_store st p = Some ch"
    and l: "ch_loop ch = loop_id st" and t: "isInLoopThread st" and i: "ch_index ch = kAdded"
    and act: "eventHandling st" "p \<in> set (activeChannels st)"
  shows "Connector_removeAndResetChannel st = Inl (AssertFail ''std::find(activeChannels_, channel) == end'')"
proof -
  let ?c = "ch\<lparr>ch_events := mask_disableAll (ch_events ch), addedToLoop := True\<rparr>"
  let ?st1 = "update_result st p ?c"
  have "fd_free st ch" using i by (simp add: fd_free_def index_defs)
  from change_events_eq [OF inv p(2) l t this]
  have d: "Channel_disableAll st p = Inr ?st1" by (simp add: Channel_disableAll_def)
  have none: "isNoneEvent ?c" by (simp add: isNoneEvent_def mask_disableAll_eq kNoneEvent_def)
  have "Channel_remove ?st1 p = Inl (AssertFail ''std::find(activeChannels_, channel) == end'')"
  proof (rule removeChannel_active)
    show "chan_store ?st1 p = Some (set_index ?c kDeleted)" using i none by (simp add: update_result_def)
    show "isNoneEvent (set_index ?c kDeleted)" using none by (simp add: isNoneEvent_def)
  qed (use l t act in simp_all)
  with d p(1) show ?thesis by (simp add: Connector_removeAndResetChannel_def)
qed

text \<open>The channel \<open>connecting\<close> makes.\<close>

definition connector_channel :: "Channel \<Rightarrow> bool" where
  "connector_channel ch \<longleftrightarrow> has_writeCallback ch \<and> has_errorCallback ch \<and> \<not> has_closeCallback ch \<and>
     \<not> has_readCallback ch \<and> \<not> tied ch"

lemma connector_dispatch:
  assumes "connector_channel ch" and "has (ch_revents ch) POLLOUT \<or> has (ch_revents ch) (POLLERR OR POLLNVAL)"
  obtains e es where "dispatch ch = e # es" "e = WriteEv \<or> e = ErrorEv"
  using assms
  by (cases "has (ch_revents ch) (POLLERR OR POLLNVAL)"; cases "has (ch_revents ch) POLLOUT")
    (simp_all add: connector_channel_def dispatch_def)

text \<open>C34. No connection attempt survives its first event. When the poller reports the connecting
  socket writable or in error, both handlers call \<open>removeAndResetChannel\<close> while the channel is among
  the active ones, and the assertion of \<open>EventLoop::removeChannel\<close> ends the process.\<close>

theorem connect_event_aborts:
  assumes "loop_inv st" and "isInLoopThread st" and "cn_state st = CN_kConnecting"
    and "cn_channel st = Some p" and "chan_store st p = Some ch" and "connector_channel ch"
    and "ch_loop ch = loop_id st" and "ch_index ch = kAdded"
    and "has ev POLLOUT \<or> has ev (POLLERR OR POLLNVAL)"
  shows "loop_iteration (connector_channel_callback ncb so local peer tp) (exec_connector_functor a)
    (WaitOk [(p, ev)], now) st = Inl (AssertFail ''std::find(activeChannels_, channel) == end'')"
proof -
  let ?st0 = "st\<lparr>activeChannels := []\<rparr>"
  have inv0: "loop_inv ?st0" using assms(1) by (simp add: loop_inv_def)
  have pinv: "poller_inv st" using assms(1) by (simp add: loop_inv_def)
  have "channels st (ch_fd ch) = Some p"
    using poller_invD(2) [OF pinv assms(5)] assms(8) by (simp add: chan_inv_def index_defs)
  then have own: "epoll_set st (ch_fd ch) = Some (ch_events ch, p)"
    using assms(5,8) unfolding poller_invD(4) [OF pinv] by (simp add: registered_def)
  have ne: "0 < events_size st" using assms(1) poller_invD(1) by (auto simp: loop_inv_def)
  have w: "wait_contract ?st0 [(p, ev)]" using own ne by (auto simp: wait_contract_def)
  let ?n = "if length [(p, ev)] = events_size ?st0 then 2 * events_size ?st0 else events_size ?st0"
  let ?st1 = "?st0\<lparr>chan_store := with_revents [(p, ev)] (chan_store ?st0), events_size := ?n\<rparr>"
  have poll: "EPollPoller_poll ?st0 (WaitOk [(p, ev)]) [] = Inr (?st1, [p])"
    using poll_eq [of ?st0 "[(p, ev)]" "[]"] inv0 w by (simp add: loop_inv_def)
  have inv1: "loop_inv ?st1" using poll_inv [OF inv0 w poll] .
  let ?ch = "set_revents ch ev"
  let ?st2 = "?st1\<lparr>activeChannels := [p], pollReturnTime := now, eventHandling := True\<rparr>"
  have s2: "chan_store ?st2 p = Some ?ch" using assms(5) by (simp add: with_revents_def)
  obtain e es where d: "dispatch ?ch = e # es" "e = WriteEv \<or> e = ErrorEv"
    using connector_dispatch [of ?ch] assms(6,9) by (auto simp: connector_channel_def set_revents_def)
  let ?st3 = "chan_put ?st2 p (?ch\<lparr>ch_eventHandling := True\<rparr>)"
  have "loop_inv ?st2" using inv1 loop_inv_cong [of ?st2 ?st1] by simp
  then have inv3: "loop_inv ?st3"
    using chan_put_inv [of ?st2 p ?ch "?ch\<lparr>ch_eventHandling := True\<rparr>"] s2 by (simp add: loop_inv_def chan_put_def)
  have "Connector_removeAndResetChannel ?st3 = Inl (AssertFail ''std::find(activeChannels_, channel) == end'')"
    by (rule removeAndReset_in_event [OF inv3, of p "?ch\<lparr>ch_eventHandling := True\<rparr>"])
      (use assms in \<open>simp_all add: chan_put_def isInLoopThread_def set_revents_def\<close>)
  then have "connector_channel_callback ncb so local peer tp p e ?st3 =
      Inl (AssertFail ''std::find(activeChannels_, channel) == end'')"
    using d(2) assms(3)
    by (auto simp: Connector_handleWrite_def Connector_handleError_def chan_put_def)
  then have "Channel_handleEvent (connector_channel_callback ncb so local peer tp) p ?st2 =
      Inl (AssertFail ''std::find(activeChannels_, channel) == end'')"
    using s2 d(1) assms(6) by (simp add: Channel_handleEvent_def connector_channel_def set_revents_def)
  then show ?thesis using poll by (simp add: loop_iteration_def)
qed

section \<open>Connecting and stopping\<close>

lemma loop_inv_connector [simp]:
  fixes st :: "'z connector_world_scheme"
  shows "loop_inv (st\<lparr>cn_state := s\<rparr>) = loop_inv st" "loop_inv (st\<lparr>cn_channel := c\<rparr>) = loop_inv st"
    "loop_inv (sock_opened fd st) = loop_inv st"
  by (rule loop_inv_cong; simp add: sock_opened_def)+

lemma connecting_ok:
  fixes st :: "'z connector_world_scheme"
  assumes "loop_inv st" and "isInLoopThread st" and "cn_channel st = None" and "chan_store st p = None"
    and "channels st fd = None"
  shows "\<exists>st' ch. Connector_connecting p fd st = Inr st' \<and> loop_inv st' \<and> cn_state st' = CN_kConnecting \<and>
    cn_channel st' = Some p \<and> socks st' = socks st \<and> isInLoopThread st' \<and> loop_id st' = loop_id st \<and>
    epoll_set st' = (epoll_set st)(fd \<mapsto> (kWriteEvent, p)) \<and>
    channels st' = (channels st)(fd \<mapsto> p) \<and> chan_store st' = (chan_store st)(p \<mapsto> ch) \<and>
    connector_channel ch \<and> ch_fd ch = fd \<and> ch_index ch = kAdded \<and> ch_loop ch = loop_id st \<and>
    \<not> ch_eventHandling ch \<and> eventHandling st' = eventHandling st \<and>
    pendingFunctors st' = pendingFunctors st \<and> cn_retryDelayMs st' = cn_retryDelayMs st \<and>
    connector_world.more st' = connector_world.more st \<and> timerQueue st' = timerQueue st"
proof -
  let ?st1 = "st\<lparr>cn_state := CN_kConnecting\<rparr>"
  let ?ch = "Channel_setErrorCallback (Channel_setWriteCallback (Channel_new (loop_id ?st1) fd))"
  have c: "ch_index ?ch = kNew" "ch_events ?ch = kNoneEvent" "ch_fd ?ch = fd" "ch_loop ?ch = loop_id st"
    by (simp_all add: Channel_setErrorCallback_def Channel_setWriteCallback_def Channel_new_def kNew_def kNoneEvent_def)
  have n: "new_Channel ?st1 p ?ch = Inr (chan_put ?st1 p ?ch)" using assms(4) by (simp add: new_Channel_def)
  have inv1: "loop_inv (chan_put ?st1 p ?ch)"
    using new_Channel_inv [OF _ n c(1,2)] assms(1) by simp
  let ?st2 = "(chan_put ?st1 p ?ch)\<lparr>cn_channel := Some p\<rparr>"
  let ?c = "?ch\<lparr>ch_events := mask_enableWriting (ch_events ?ch), addedToLoop := True\<rparr>"
  have inv2: "loop_inv ?st2" using inv1 by simp
  have e: "change_events mask_enableWriting ?st2 p = Inr (update_result ?st2 p ?c)"
    by (rule change_events_eq [OF inv2]) (use assms c in
      \<open>simp_all add: chan_put_def isInLoopThread_def fd_free_def\<close>)
  then have inv3: "loop_inv (update_result ?st2 p ?c)" by (rule change_events_inv [OF inv2])
  have "ch_events ?c = kWriteEvent"
    by (simp add: mask_enableWriting_def Channel_setErrorCallback_def Channel_setWriteCallback_def Channel_new_def)
  moreover have "Connector_connecting p fd st = Inr (update_result ?st2 p ?c)"
    using assms(3) n e by (simp add: Connector_connecting_def Let_def Channel_enableWriting_def)
  moreover have "connector_channel (set_index ?c kAdded)" "\<not> ch_eventHandling ?c"
    by (simp_all add: connector_channel_def Channel_setErrorCallback_def Channel_setWriteCallback_def
        Channel_new_def set_index_def)
  ultimately show ?thesis using inv3 c assms(2)
    by (intro exI [of _ "update_result ?st2 p ?c"] exI [of _ "set_index ?c kAdded"])
      (simp add: update_result_def chan_put_def isInLoopThread_def index_defs set_index_def)
qed

text \<open>C33. \<open>connect\<close> on every answer of the system call. When the attempt is in progress (or already
  complete) the socket is registered for writing and the connector is connecting. On a transient
  error the socket is closed, and unless the connector has been stopped a timer with \<open>startInLoop\<close> as its
  callback enters the queue, for the time the delay after the clock's reading, and the delay is doubled up to its
  bound. On any other error the socket is closed. No branch leaks a descriptor, and no other branch touches the
  timers. (The queue is at rest and the allocator gives a new timer; the delay is that after \<open>k\<close> failures.)\<close>

theorem connect_outcomes:
  assumes "loop_inv st" and "isInLoopThread st" and "cn_channel st = None"
    and "chan_store st (ans_channel a) = None" and "0 \<le> ans_socket a"
    and "channels st (ans_socket a) = None" and "ans_socket a \<notin> socks st"
    and "tq_rest (timerQueue st)" and "timer_heap (timerQueue st) (ans_timer a) = None"
    and "0 < ans_timer a" and "ans_timer a < UINTPTR_MAX" and "cn_retryDelayMs st = backoff k"
  shows "\<exists>st'. Connector_connect a st = Inr st' \<and>
    (if ans_errno a \<in> errno_connecting
     then cn_state st' = CN_kConnecting \<and> cn_channel st' = Some (ans_channel a) \<and>
       socks st' = insert (ans_socket a) (socks st) \<and>
       epoll_set st' = (epoll_set st)(ans_socket a \<mapsto> (kWriteEvent, ans_channel a)) \<and> timerQueue st' = timerQueue st
     else cn_state st' = (if ans_errno a \<in> errno_retry then CN_kDisconnected else cn_state st) \<and>
       socks st' = socks st \<and>
       (if ans_errno a \<in> errno_retry \<and> cn_connect st
        then cn_retryDelayMs st' = backoff (Suc k) \<and>
          set (timers (timerQueue st')) = insert
            (Timestamp (microSecondsSinceEpoch (clock st) + 1000 * int (backoff k)), ans_timer a) (set (timers (timerQueue st))) \<and>
          map_option callback (timer_heap (timerQueue st') (ans_timer a)) = Some cn_retry_callback
        else timerQueue st' = timerQueue st))"
proof -
  let ?fd = "ans_socket a" and ?st1 = "sock_opened (ans_socket a) st"
  have f: "isInLoopThread ?st1 = isInLoopThread st" "cn_channel ?st1 = cn_channel st" "chan_store ?st1 = chan_store st"
    "channels ?st1 = channels st" "socks ?st1 = insert ?fd (socks st)" "timerQueue ?st1 = timerQueue st"
    "cn_retryDelayMs ?st1 = cn_retryDelayMs st" "cn_connect ?st1 = cn_connect st" "epoll_set ?st1 = epoll_set st"
    "clock ?st1 = clock st"
    by (simp_all add: sock_opened_def isInLoopThread_def)
  have s: "insert ?fd (socks st) - {?fd} = socks st" using assms(7) by simp
  have fd: "createNonblockingFd ?fd = Inr ?fd" using assms(5) by (simp add: createNonblockingFd_def)
  consider (conn) "ans_errno a \<in> errno_connecting" | (retry) "ans_errno a \<notin> errno_connecting" "ans_errno a \<in> errno_retry"
    | (other) "ans_errno a \<notin> errno_connecting" "ans_errno a \<notin> errno_retry" by blast
  then show ?thesis
  proof cases
    case conn
    have "\<exists>st' ch. Connector_connecting (ans_channel a) ?fd ?st1 = Inr st' \<and> cn_state st' = CN_kConnecting \<and>
        cn_channel st' = Some (ans_channel a) \<and> socks st' = socks ?st1 \<and>
        epoll_set st' = (epoll_set ?st1)(?fd \<mapsto> (kWriteEvent, ans_channel a)) \<and> timerQueue st' = timerQueue ?st1"
      using connecting_ok [of ?st1 "ans_channel a" ?fd] assms(1-4,6) unfolding f by fastforce
    then show ?thesis using conn fd f(5,6,9) by (auto simp: Connector_connect_def Let_def)
  next
    case retry
    obtain st' where "Connector_retry (ans_timer a) ?fd ?st1 = Inr st'" "socks st' = socks ?st1 - {?fd}"
      "cn_state st' = CN_kDisconnected"
      "if cn_connect st
       then cn_retryDelayMs st' = backoff (Suc k) \<and> tq_rest (timerQueue st') \<and>
         set (timers (timerQueue st')) = insert
           (Timestamp (microSecondsSinceEpoch (clock st) + 1000 * int (backoff k)), ans_timer a) (set (timers (timerQueue st))) \<and>
         map_option callback (timer_heap (timerQueue st') (ans_timer a)) = Some cn_retry_callback
       else timerQueue st' = timerQueue st \<and> cn_retryDelayMs st' = cn_retryDelayMs st"
      using retry_spec [of ?st1 "ans_timer a" k ?fd] assms(2,8-12) unfolding f by blast
    then show ?thesis using retry fd s by (simp add: Connector_connect_def Let_def f(5))
  next
    case other
    then show ?thesis using fd s by (simp add: Connector_connect_def Let_def f(5))
      (simp add: sock_opened_def sock_closed_def)
  qed
qed

text \<open>Stopping a connector that is waiting for its connection releases everything: \<open>stopInLoop\<close>
  unregisters the channel and closes the socket without arming a timer, the queued \<open>resetChannel\<close>
  destroys the channel with all its assertions, and the connector can then be destroyed.\<close>

theorem connector_stop_releases:
  assumes "loop_inv st" and "isInLoopThread st" and "\<not> eventHandling st" and "cn_state st = CN_kConnecting"
    and "cn_channel st = Some p" and "chan_store st p = Some ch" and "ch_loop ch = loop_id st"
    and "ch_index ch = kAdded" and "\<not> ch_eventHandling ch"
  shows "\<exists>st1 st2. Connector_stopInLoop tp (st\<lparr>cn_connect := False\<rparr>) = Inr st1 \<and>
    F_Connector_resetChannel \<in> set (pendingFunctors st1) \<and> cn_state st1 = CN_kDisconnected \<and>
    timerQueue st1 = timerQueue st \<and> socks st1 = socks st - {ch_fd ch} \<and>
    Connector_resetChannel st1 = Inr st2 \<and> Connector_delete st2 = Inr st2 \<and>
    epoll_set st2 = (epoll_set st)(ch_fd ch := None) \<and> channels st2 = (channels st)(ch_fd ch := None) \<and>
    chan_store st2 = (chan_store st)(p := None)"
proof -
  let ?s = "st\<lparr>cn_connect := False, cn_state := CN_kDisconnected\<rparr>"
  let ?s2 = "?s\<lparr>channels := (channels st)(ch_fd ch := None),
       chan_store := (chan_store st)(p \<mapsto> withdrawn ch), epoll_set := (epoll_set st)(ch_fd ch := None)\<rparr>"
  have inv: "loop_inv ?s" using assms(1) loop_inv_cong [of ?s st] by simp
  obtain c where c: "Channel_disableAll ?s p = Inr (update_result ?s p c)"
    "Channel_remove (update_result ?s p c) p = Inr ?s2"
    by (rule channel_withdraw [OF inv, of p ch]) (use assms in
      \<open>simp_all add: isInLoopThread_def fd_free_def index_defs\<close>)
  have w: "ch_fd (withdrawn ch) = ch_fd ch" by (simp add: withdrawn_def)
  let ?q = "queueInLoop F_Connector_resetChannel ?s2"
  let ?st1 = "(sock_closed (ch_fd ch) ?q)\<lparr>cn_state := CN_kDisconnected\<rparr>"
  have rm: "Connector_removeAndResetChannel ?s = Inr (ch_fd ch, ?q)"
    using assms(5) c w by (simp add: Connector_removeAndResetChannel_def chan_deref_def)
  have q: "cn_connect ?q = False" "cn_channel ?q = Some p" "chan_store ?q = (chan_store st)(p \<mapsto> withdrawn ch)"
    "channels ?q = (channels st)(ch_fd ch := None)" "epoll_set ?q = (epoll_set st)(ch_fd ch := None)"
    "loop_id ?q = loop_id st" "timerQueue ?q = timerQueue st" "socks ?q = socks st"
    "F_Connector_resetChannel \<in> set (pendingFunctors ?q)"
    using assms(5) by (simp_all add: queueInLoop_def wakeup_def Let_def)
  have st1: "Connector_stopInLoop tp (st\<lparr>cn_connect := False\<rparr>) = Inr ?st1"
    using assms(4) rm q(1) by (simp add: Connector_stopInLoop_def Connector_retry_def Let_def)
  let ?st2 = "?st1\<lparr>chan_store := (chan_store ?st1)(p := None), cn_channel := None\<rparr>"
  have "delete_Channel ?st1 p = Inr (?st1\<lparr>chan_store := (chan_store ?st1)(p := None)\<rparr>)"
    by (rule delete_withdrawn [of _ _ ch]) (use q assms(7,9) in \<open>simp_all add: sock_closed_def\<close>)
  then have st2: "Connector_resetChannel ?st1 = Inr ?st2"
    using q(2) by (simp add: Connector_resetChannel_def sock_closed_def)
  show ?thesis
    by (rule exI [of _ ?st1], rule exI [of _ ?st2])
      (use st1 st2 q in \<open>simp add: Connector_delete_def sock_closed_def\<close>)
qed

text \<open>\<open>restart\<close> stores \<open>kConnecting\<close> before it connects. When the system call then fails for good,
  the state stays \<open>kConnecting\<close> without a channel, and a later \<open>stop\<close> follows a null pointer.\<close>

theorem restart_failure_breaks_stop:
  assumes "cn_connect st" and "cn_channel st = None" and "0 \<le> ans_socket a"
    and "ans_errno a \<notin> errno_connecting" and "ans_errno a \<notin> errno_retry"
  shows "\<exists>st'. Connector_restart a st = Inr st' \<and> cn_state st' = CN_kConnecting \<and>
    Connector_stopInLoop tp (Connector_stop st') = Inl (BadAccess ''channel_'')"
proof -
  let ?st' = "sock_closed (ans_socket a) (sock_opened (ans_socket a)
      (st\<lparr>cn_state := CN_kConnecting, cn_retryDelayMs := kInitRetryDelayMs\<rparr>))"
  have "Connector_restart a st = Inr ?st'"
    using assms by (simp add: Connector_restart_def Connector_startInLoop_def Connector_connect_def
        createNonblockingFd_def Let_def)
  moreover have "cn_state ?st' = CN_kConnecting" "cn_channel ?st' = None"
    using assms(2) by (simp_all add: sock_closed_def sock_opened_def)
  moreover have "cn_state (Connector_stop ?st') = cn_state ?st'" "cn_channel (Connector_stop ?st') = cn_channel ?st'"
    by (simp_all add: Connector_stop_def queueInLoop_def wakeup_def Let_def)
  ultimately show ?thesis
    by (simp add: Connector_stopInLoop_def Connector_removeAndResetChannel_def)
qed

section \<open>Examples\<close>

text \<open>A connector on a fresh loop, after \<open>connect_\<close> has been set.\<close>

definition connector_demo :: "EventLoop \<Rightarrow> connector_world" where
  "connector_demo l = conn_world.extend (EventLoop.EventLoop.extend l (conn_world.fields Map.empty))
     (connector_world.fields True CN_kDisconnected None 500 (InetAddress_port 8888) {})"

lemma connector_demo_ok:
  obtains l where "loop_inv (connector_demo l)" "isInLoopThread (connector_demo l)"
    "\<not> eventHandling (connector_demo l)" "chan_store (connector_demo l) 12 = None"
    "channels (connector_demo l) 6 = None" "socks (connector_demo l) = {}"
    "timerQueue (connector_demo l) = TimerQueue_new" "cn_channel (connector_demo l) = None"
    "cn_connect (connector_demo l)" "cn_retryDelayMs (connector_demo l) = 500" "clock (connector_demo l) = Timestamp 0"
proof -
  obtain l where l: "EventLoop_new False 1 7 linux_epoll_fails 3 10 4 11 5 False (Timestamp 0) = Inr l"
    using demo_loop_exists by blast
  have "loop_inv l" using EventLoop_new_inv [OF linux_epoll_contract l] .
  then have "loop_inv (connector_demo l)"
    by (subst loop_inv_cong [where st' = l]) (simp_all add: connector_demo_def EventLoop.EventLoop.defs conn_world.defs connector_world.defs)
  moreover have "isInLoopThread (connector_demo l)" "\<not> eventHandling (connector_demo l)"
    "chan_store (connector_demo l) 12 = None" "channels (connector_demo l) 6 = None" "socks (connector_demo l) = {}"
    "timerQueue (connector_demo l) = TimerQueue_new" "cn_channel (connector_demo l) = None"
    "cn_connect (connector_demo l)" "cn_retryDelayMs (connector_demo l) = 500" "clock (connector_demo l) = Timestamp 0"
    using l by (auto simp: loop_eval linux_epoll_fails_def connector_demo_def conn_world.defs connector_world.defs)
  ultimately show ?thesis using that by blast
qed

definition demo_answers :: "int \<Rightarrow> connect_answers" where
  "demo_answers e = \<lparr>ans_socket = 6, ans_errno = e, ans_channel = 12, ans_timer = 20\<rparr>"

lemma demo_answers_simps [simp]:
  "ans_socket (demo_answers e) = 6" "ans_errno (demo_answers e) = e" "ans_channel (demo_answers e) = 12"
  "ans_timer (demo_answers e) = 20"
  by (simp_all add: demo_answers_def)

lemma timer_demo: "timer_heap TimerQueue_new tp = None" "(0::nat) < 20" "(20::nat) < UINTPTR_MAX"
  by (simp_all add: TimerQueue_new_def UINTPTR_MAX_def)

theorem connector_retry_backoff_witness:
  "\<exists>(st::connector_world) st'. Connector_retry 20 6 st = Inr st' \<and> cn_retryDelayMs st' = 1000 \<and>
    (Timestamp 500000, 20) \<in> set (timers (timerQueue st'))"
proof -
  obtain l where l: "isInLoopThread (connector_demo l)" "timerQueue (connector_demo l) = TimerQueue_new"
    "cn_connect (connector_demo l)" "cn_retryDelayMs (connector_demo l) = 500" "clock (connector_demo l) = Timestamp 0"
    using connector_demo_ok by metis
  have "cn_retryDelayMs (connector_demo l) = backoff 0" using l(4) by (simp add: backoff_def)
  from connector_retry_backoff [OF _ l(1) _ timer_demo(2,3) this, of 6] l TimerQueue_new_rest timer_demo(1)
  obtain st' where "Connector_retry 20 6 (connector_demo l) = Inr st'" "cn_retryDelayMs st' = 1000"
    "(Timestamp 500000, 20) \<in> set (timers (timerQueue st'))" by (auto simp: backoff_def)
  then show ?thesis by blast
qed

theorem connect_outcomes_witness:
  "\<exists>(st::connector_world) st1 st2. Connector_connect (demo_answers EINPROGRESS) st = Inr st1 \<and>
    cn_state st1 = CN_kConnecting \<and> socks st1 = {6} \<and> epoll_set st1 6 = Some (kWriteEvent, 12) \<and>
    Connector_connect (demo_answers ECONNREFUSED) st = Inr st2 \<and> cn_state st2 = CN_kDisconnected \<and> socks st2 = {} \<and>
    timers (timerQueue st) = [] \<and> set (timers (timerQueue st2)) = {(Timestamp 500000, 20)}"
proof -
  obtain l where l: "loop_inv (connector_demo l)" "isInLoopThread (connector_demo l)"
    "cn_channel (connector_demo l) = None" "chan_store (connector_demo l) 12 = None"
    "channels (connector_demo l) 6 = None" "socks (connector_demo l) = {}"
    "timerQueue (connector_demo l) = TimerQueue_new" "cn_retryDelayMs (connector_demo l) = 500"
    "cn_connect (connector_demo l)" "clock (connector_demo l) = Timestamp 0"
    using connector_demo_ok by metis
  have b: "cn_retryDelayMs (connector_demo l) = backoff 0" "backoff 0 = 500" using l(8) by (simp_all add: backoff_def)
  have t: "timers TimerQueue_new = []" by (simp add: TimerQueue_new_def)
  have pre: "tq_rest (timerQueue (connector_demo l))" "timer_heap (timerQueue (connector_demo l)) 20 = None"
    "6 \<notin> socks (connector_demo l)" using l(6,7) TimerQueue_new_rest timer_demo(1) by simp_all
  have "EINPROGRESS \<in> errno_connecting" by (simp add: errno_connecting_def)
  with connect_outcomes [of "connector_demo l" "demo_answers EINPROGRESS" 0] l(1-6) pre b(1) timer_demo(2,3)
  obtain st1 where s1: "Connector_connect (demo_answers EINPROGRESS) (connector_demo l) = Inr st1"
    "cn_state st1 = CN_kConnecting" "socks st1 = {6}" "epoll_set st1 6 = Some (kWriteEvent, 12)" by auto
  have "ECONNREFUSED \<notin> errno_connecting" "ECONNREFUSED \<in> errno_retry"
    by (simp_all add: errno_connecting_def errno_retry_def errno_values)
  with connect_outcomes [of "connector_demo l" "demo_answers ECONNREFUSED" 0] l(1-5,9) pre b(1) timer_demo(2,3)
  obtain st2 where "Connector_connect (demo_answers ECONNREFUSED) (connector_demo l) = Inr st2"
    "cn_state st2 = CN_kDisconnected" "socks st2 = socks (connector_demo l)" "set (timers (timerQueue st2)) = insert
      (Timestamp (microSecondsSinceEpoch (clock (connector_demo l)) + 1000 * int (backoff 0)), 20)
      (set (timers (timerQueue (connector_demo l))))" by auto
  with s1 l(6,7,10) t b(2) show ?thesis by (intro exI [of _ "connector_demo l"] exI [of _ st1] exI [of _ st2]) simp
qed

text \<open>The state after a first attempt that is in progress.\<close>

lemma connecting_demo:
  obtains st :: connector_world and ch where "loop_inv st" "isInLoopThread st" "\<not> eventHandling st"
    "cn_state st = CN_kConnecting" "cn_channel st = Some 12" "chan_store st 12 = Some ch" "connector_channel ch"
    "ch_loop ch = loop_id st" "ch_index ch = kAdded" "\<not> ch_eventHandling ch" "ch_fd ch = 6"
proof -
  obtain l where l: "loop_inv (connector_demo l)" "isInLoopThread (connector_demo l)" "cn_channel (connector_demo l) = None"
    "chan_store (connector_demo l) 12 = None" "channels (connector_demo l) 6 = None" "\<not> eventHandling (connector_demo l)"
    using connector_demo_ok by metis
  from connecting_ok [OF l(1-5)] l(6) that show ?thesis by fastforce
qed

theorem connect_event_aborts_witness:
  "\<exists>st::connector_world. loop_iteration (connector_channel_callback None (Inr 0) None None 20)
    (exec_connector_functor (demo_answers 0)) (WaitOk [(12, POLLOUT)], Timestamp 0) st =
    Inl (AssertFail ''std::find(activeChannels_, channel) == end'')"
proof -
  obtain st :: connector_world and ch where st: "loop_inv st" "isInLoopThread st" "cn_state st = CN_kConnecting"
    "cn_channel st = Some 12" "chan_store st 12 = Some ch" "connector_channel ch" "ch_loop ch = loop_id st"
    "ch_index ch = kAdded" using connecting_demo by metis
  have "has POLLOUT POLLOUT" by (simp add: has_def poll_flags)
  then show ?thesis using connect_event_aborts [OF st, of POLLOUT] by blast
qed

theorem connector_stop_releases_witness:
  "\<exists>(st::connector_world) st1 st2. cn_state st = CN_kConnecting \<and>
    Connector_stopInLoop 20 (st\<lparr>cn_connect := False\<rparr>) = Inr st1 \<and> Connector_resetChannel st1 = Inr st2 \<and>
    epoll_set st2 6 = None \<and> Connector_delete st2 = Inr st2"
proof -
  obtain st :: connector_world and ch where st: "loop_inv st" "isInLoopThread st" "\<not> eventHandling st"
    "cn_state st = CN_kConnecting" "cn_channel st = Some 12" "chan_store st 12 = Some ch" "ch_loop ch = loop_id st"
    "ch_index ch = kAdded" "\<not> ch_eventHandling ch" "ch_fd ch = 6" using connecting_demo by metis
  from connector_stop_releases [OF st(1-9), of 20] st(4,10) show ?thesis by (metis fun_upd_same)
qed

theorem restart_failure_breaks_stop_witness:
  "\<exists>(st::connector_world) st'. Connector_restart (demo_answers 13) st = Inr st' \<and>
    Connector_stopInLoop 20 (Connector_stop st') = Inl (BadAccess ''channel_'')"
proof -
  obtain l where l: "cn_connect (connector_demo l)" "cn_channel (connector_demo l) = None"
    using connector_demo_ok by metis
  have "13 \<notin> errno_connecting" "13 \<notin> errno_retry"
    by (simp_all add: errno_connecting_def errno_retry_def errno_values)
  then show ?thesis using restart_failure_breaks_stop [OF l, of "demo_answers 13" 20] by auto
qed

end
