(* ===== verification/TcpClient.thy ===== *)
theory TcpClient
  imports Connector Connection_Close
begin

text \<open>
  \<open>src/net/TcpClient.h\<close>, \<open>TcpClient.cc\<close>: one connection over a connector. The state is that of the loop
  with its connections and the connector's members, extended by the client's. \<open>close_cb\<close> is the close
  callback each connection holds. The members \<open>retry_\<close>, \<open>connect_\<close> and \<open>nextConnId_\<close>, which nothing
  initialises, have the values given to the constructor.
\<close>

section \<open>State\<close>

datatype CloseCallback = CB_TcpClient_removeConnection | CB_detail_removeConnection

record client_world = connector_world +
  cl_name :: string
  cl_retry :: bool
  cl_connect :: bool
  cl_nextConnId :: int
  cl_connection :: "nat option"
  close_cb :: "nat \<rightharpoonup> CloseCallback"

definition client_CheckLoopNotNull :: "nat option \<Rightarrow> nat res" where
  "client_CheckLoopNotNull loop =
     (case loop of None \<Rightarrow> Inl (FatalLog ''TcpConnection Loop is null'') | Some l \<Rightarrow> Inr l)"

definition TcpClient_new ::
    "bool \<Rightarrow> bool \<Rightarrow> int \<Rightarrow> nat option \<Rightarrow> sockaddr_in \<Rightarrow> string \<Rightarrow> client_world \<Rightarrow> client_world res" where
  "TcpClient_new retry0 connect0 id0 loop addr nameArg st =
     bindR (client_CheckLoopNotNull loop) (\<lambda>l.
       Inr ((Connector_new addr st)\<lparr>cl_name := nameArg, cl_retry := retry0, cl_connect := connect0,
              cl_nextConnId := id0, cl_connection := None, close_cb := Map.empty\<rparr>))"

definition TcpClient_enableRetry :: "client_world \<Rightarrow> client_world" where
  "TcpClient_enableRetry st = st\<lparr>cl_retry := True\<rparr>"

section \<open>The connection\<close>

definition detail_removeConnection :: "nat \<Rightarrow> client_world \<Rightarrow> client_world" where
  "detail_removeConnection c st = queueInLoop (F_connectDestroyed c) st"

text \<open>\<open>a\<close> is the answers of the system calls of the connection attempt that \<open>restart\<close> makes.\<close>

definition TcpClient_removeConnection :: "connect_answers \<Rightarrow> nat \<Rightarrow> client_world \<Rightarrow> client_world res" where
  "TcpClient_removeConnection a c st =
     (let st1 = queueInLoop (F_connectDestroyed c) (st\<lparr>cl_connection := None\<rparr>) in
      if cl_retry st1 \<and> cl_connect st1 then Connector_restart a st1 else Inr st1)"

definition run_close_cb :: "connect_answers \<Rightarrow> nat \<Rightarrow> client_world \<Rightarrow> client_world res" where
  "run_close_cb a c st =
     (case close_cb st c of
        None \<Rightarrow> Inl (Thrown ''bad_function_call'')
      | Some CB_TcpClient_removeConnection \<Rightarrow> TcpClient_removeConnection a c st
      | Some CB_detail_removeConnection \<Rightarrow> Inr (detail_removeConnection c st))"

text \<open>The callbacks of the connection, \<open>user\<close> being those of the client.\<close>

definition client_callbacks ::
    "client_world conn_callbacks \<Rightarrow> connect_answers \<Rightarrow> client_world conn_callbacks" where
  "client_callbacks user a = user\<lparr>closeCallback := run_close_cb a\<rparr>"

definition client_connName :: "sockaddr_in \<Rightarrow> client_world \<Rightarrow> string" where
  "client_connName peer st =
     cl_name st @ snprintf_buf 32 ('':'' @ toIpPort peer @ ''#'' @ to_string (cl_nextConnId st))"

text \<open>
  \<open>newConnection\<close>: \<open>peer\<close> is the answer of \<open>getpeername\<close>, \<open>c\<close> and \<open>p\<close> the addresses of the new
  connection and of its channel. The increment of \<open>nextConnId_\<close> must not overflow.
\<close>

definition TcpClient_newConnection ::
    "client_world conn_callbacks \<Rightarrow> connect_answers \<Rightarrow> sockaddr_in option \<Rightarrow> nat \<Rightarrow> chan_ptr \<Rightarrow> int \<Rightarrow>
     client_world \<Rightarrow> client_world res" where
  "TcpClient_newConnection user a peer c p fd st =
     (let peerAddr = getPeerAddr peer; connName = client_connName peerAddr st in
      requireR (cl_nextConnId st < 2 ^ 31 - 1) (Thrown ''signed integer overflow'')
        (bindR (TcpConnection_new (Some (loop_id st)) connName fd c p
                  (st\<lparr>cl_nextConnId := cl_nextConnId st + 1\<rparr>)) (\<lambda>st1.
           let st2 = st1\<lparr>close_cb := (close_cb st1)(c \<mapsto> CB_TcpClient_removeConnection),
                         cl_connection := Some c\<rparr>
           in connectEstablished (client_callbacks user a) c st2)))"

section \<open>Calls of the user\<close>

text \<open>The functors the client binds, when they run. Running one does not destroy it: \<open>doPendingFunctors\<close> destroys
  all those it has run when it returns, which is \<open>client_doPendingFunctors\<close> below.\<close>

fun exec_client_functor ::
    "client_world conn_callbacks \<Rightarrow> connect_answers \<Rightarrow> Functor \<Rightarrow> client_world \<Rightarrow> client_world res" where
  "exec_client_functor user a F_Connector_startInLoop st = Connector_startInLoop a st"
| "exec_client_functor user a F_Connector_stopInLoop st = Connector_stopInLoop (ans_timer a) st"
| "exec_client_functor user a F_Connector_resetChannel st = Connector_resetChannel st"
| "exec_client_functor user a (F_TcpClient_setCloseCallback c) st =
     Inr (st\<lparr>close_cb := (close_cb st)(c \<mapsto> CB_detail_removeConnection)\<rparr>)"
| "exec_client_functor user a f st = exec_conn_functor (client_callbacks user a) f st"

definition TcpClient_connect :: "connect_answers \<Rightarrow> client_world \<Rightarrow> client_world res" where
  "TcpClient_connect a st = Connector_start a (st\<lparr>cl_connect := True\<rparr>)"

definition TcpClient_disconnect ::
    "client_world conn_callbacks \<Rightarrow> connect_answers \<Rightarrow> client_world \<Rightarrow> client_world res" where
  "TcpClient_disconnect user a st =
     (let st1 = st\<lparr>cl_connect := False\<rparr> in
      case cl_connection st1 of
        None \<Rightarrow> Inr st1
      | Some c \<Rightarrow> TcpConnection_shutdown (exec_client_functor user a) c st1)"

definition TcpClient_stop :: "client_world \<Rightarrow> client_world" where
  "TcpClient_stop st = Connector_stop (st\<lparr>cl_connect := False\<rparr>)"

text \<open>
  Functors that hold a shared pointer to a connection (the others of the connection hold \<open>this\<close>), and what
  becomes of it: \<open>doPendingFunctors\<close> destroys the functors it has run when it returns, and with them the
  connections of which they hold the last pointers, those of \<open>owned\<close>.
\<close>

fun functor_conn :: "Functor \<Rightarrow> nat option" where
  "functor_conn (F_forceCloseInLoop c) = Some c"
| "functor_conn (F_writeComplete c) = Some c"
| "functor_conn (F_connectDestroyed c) = Some c"
| "functor_conn (F_TcpClient_setCloseCallback c) = Some c"
| "functor_conn f = None"

definition release_functors :: "(nat \<Rightarrow> bool) \<Rightarrow> Functor list \<Rightarrow> client_world \<Rightarrow> client_world res" where
  "release_functors owned fs st =
     foldR (\<lambda>c s. if owned c then TcpConnection_delete c s else Inr s) (remdups (List.map_filter functor_conn fs)) st"

definition client_doPendingFunctors ::
    "client_world conn_callbacks \<Rightarrow> connect_answers \<Rightarrow> (nat \<Rightarrow> bool) \<Rightarrow> client_world \<Rightarrow> client_world res" where
  "client_doPendingFunctors user a owned st =
     bindR (doPendingFunctors (exec_client_functor user a) st) (release_functors owned (pendingFunctors st))"

text \<open>
  The destructor, then those of \<open>connection_\<close> and \<open>connector_\<close>: \<open>unique\<close> tells whether \<open>connection_\<close> is the
  only pointer to the connection, \<open>shared\<close> whether a retry timer still holds the connector. A connection that
  only the client holds is destroyed with it, unless a functor has got a pointer in between.
\<close>

definition TcpClient_delete ::
    "client_world conn_callbacks \<Rightarrow> connect_answers \<Rightarrow> bool \<Rightarrow> bool \<Rightarrow> client_world \<Rightarrow> client_world res" where
  "TcpClient_delete user a unique shared st =
     bindR (case cl_connection st of
              Some c \<Rightarrow>
                bindR (runInLoop (exec_client_functor user a) (F_TcpClient_setCloseCallback c) st) (\<lambda>st1.
                  if unique
                  then bindR (TcpConnection_forceClose c st1) (\<lambda>st2.
                         if list_ex (\<lambda>f. functor_conn f = Some c) (pendingFunctors st2) then Inr st2
                         else TcpConnection_delete c st2)
                  else Inr st1)
            | None \<Rightarrow> Inr (Connector_stop st))
       (\<lambda>st2. if shared then Inr st2 else Connector_delete st2)"

section \<open>Establishing a connection\<close>

lemma loop_inv_client [simp]:
  fixes st :: client_world
  shows "loop_inv (st\<lparr>cl_nextConnId := i\<rparr>) = loop_inv st" "loop_inv (st\<lparr>cl_connection := k\<rparr>) = loop_inv st"
    "loop_inv (st\<lparr>close_cb := b, cl_connection := k\<rparr>) = loop_inv st"
  by (rule loop_inv_cong; simp)+

lemma enableReading_mask [simp]: "mask_enableReading kNoneEvent = kReadEvent"
  by (simp add: mask_enableReading_def kNoneEvent_def)

lemma new_buffer_empty: "contents (Buffer_new kInitialSize) = []"
  by (simp add: contents_def seg_def readableBytes_def Buffer_new_def szsub_def)

lemma newConnection_spec:
  assumes "loop_inv st" and "isInLoopThread st" and "chan_store st p = None" and "channels st fd = None"
    and "conns st c = None" and "cl_nextConnId st < 2 ^ 31 - 1"
  obtains s x ch where
    "TcpClient_newConnection user a peer c p fd st = connectionCallback user c s" "loop_inv s"
    "isInLoopThread s" "conns s c = Some x" "conn_state x = kConnected"
    "conn_name x = client_connName (getPeerAddr peer) st" "conn_channel x = p"
    "inputBuffer x = Buffer_new kInitialSize" "outputBuffer x = Buffer_new kInitialSize"
    "chan_store s = (chan_store st)(p \<mapsto> ch)" "ch_index ch = kAdded" "ch_loop ch = loop_id s" "ch_fd ch = fd"
    "channels s = (channels st)(fd \<mapsto> p)" "epoll_set s = (epoll_set st)(fd \<mapsto> (kReadEvent, p))"
    "socks s = socks st" "cn_connect s = cn_connect st" "cn_channel s = cn_channel st"
    "cl_retry s = cl_retry st" "cl_connect s = cl_connect st" "cl_connection s = Some c"
    "close_cb s c = Some CB_TcpClient_removeConnection" "cl_nextConnId s = cl_nextConnId st + 1"
proof -
  let ?st0 = "st\<lparr>cl_nextConnId := cl_nextConnId st + 1\<rparr>"
  let ?ch = "Channel_setErrorCallback (Channel_setCloseCallback (Channel_setWriteCallback
      (Channel_setReadCallback (Channel_new (loop_id st) fd))))"
  obtain x where x: "TcpConnection_new (Some (loop_id st)) (client_connName (getPeerAddr peer) st) fd c p ?st0 =
      Inr (conn_put (chan_put ?st0 p ?ch) c x)" "conn_state x = kConnecting" "conn_channel x = p"
    "conn_name x = client_connName (getPeerAddr peer) st" "inputBuffer x = Buffer_new kInitialSize"
    "outputBuffer x = Buffer_new kInitialSize"
    using assms(3,5) by (simp add: TcpConnection_new_def CheckLoopNotNull_def new_Channel_def chan_put_def)
  let ?s2 = "(conn_put (chan_put ?st0 p ?ch) c x)\<lparr>close_cb := (close_cb st)(c \<mapsto> CB_TcpClient_removeConnection),
      cl_connection := Some c\<rparr>"
  let ?x = "x\<lparr>conn_state := kConnected\<rparr>" and ?t = "Channel_tie ?ch"
  let ?s3 = "chan_put (conn_put ?s2 c ?x) p ?t"
  have cf: "ch_index ?ch = kNew" "ch_events ?ch = kNoneEvent" "ch_fd ?ch = fd" "ch_loop ?ch = loop_id st"
    by (simp_all add: Channel_setErrorCallback_def Channel_setCloseCallback_def Channel_setWriteCallback_def
        Channel_setReadCallback_def Channel_new_def kNew_def kNoneEvent_def)
  have tf: "ch_index ?t = kNew" "ch_events ?t = kNoneEvent" "ch_fd ?t = fd" "ch_loop ?t = loop_id st"
    using cf by (simp_all add: Channel_tie_def)
  have n: "new_Channel ?st0 p ?t = Inr (chan_put ?st0 p ?t)" using assms(3) by (simp add: new_Channel_def)
  have "loop_inv (chan_put ?st0 p ?t)" by (rule new_Channel_inv [OF _ n tf(1,2)]) (use assms(1) in simp)
  then have inv3: "loop_inv ?s3"
    by (subst loop_inv_cong [where st' = "chan_put ?st0 p ?t"]) (simp_all add: chan_put_def conn_put_def)
  let ?c = "?t\<lparr>ch_events := mask_enableReading (ch_events ?t), addedToLoop := True\<rparr>"
  let ?s = "update_result ?s3 p ?c"
  have e: "change_events mask_enableReading ?s3 p = Inr ?s"
    by (rule change_events_eq [OF inv3]) (use assms tf in
      \<open>simp_all add: chan_put_def conn_put_def isInLoopThread_def fd_free_def\<close>)
  have inv: "loop_inv ?s" by (rule change_events_inv [OF inv3 e])
  have ev: "ch_events ?c = kReadEvent" using tf(2) by simp
  have "connectEstablished (client_callbacks user a) c ?s2 = connectionCallback user c ?s"
    using assms(2) x(2,3) e
    by (simp add: connectEstablished_def setState_def Channel_enableReading_def client_callbacks_def chan_deref_def
        conn_put_def chan_put_def assertInLoopThread_def isInLoopThread_def)
  then have r: "TcpClient_newConnection user a peer c p fd st = connectionCallback user c ?s"
    using assms(6) x(1) by (simp add: TcpClient_newConnection_def Let_def conn_put_def chan_put_def)
  have fr: "conns ?s c = Some ?x" "cl_connection ?s = Some c" "cl_nextConnId ?s = cl_nextConnId st + 1"
    "close_cb ?s c = Some CB_TcpClient_removeConnection" "socks ?s = socks st" "cn_connect ?s = cn_connect st"
    "cn_channel ?s = cn_channel st" "cl_retry ?s = cl_retry st" "cl_connect ?s = cl_connect st"
    "loop_id ?s = loop_id st" "isInLoopThread ?s = isInLoopThread st"
    by (simp_all add: update_result_def chan_put_def conn_put_def isInLoopThread_def)
  have ep: "epoll_set ?s = (epoll_set st)(fd \<mapsto> (kReadEvent, p))" "channels ?s = (channels st)(fd \<mapsto> p)"
    "chan_store ?s = (chan_store st)(p \<mapsto> ?c\<lparr>ch_index := kAdded\<rparr>)"
    using ev tf by (simp_all add: update_result_def chan_put_def conn_put_def index_defs set_index_def)
  show ?thesis
    by (rule that [OF r inv _ fr(1) _ _ _ _ _ ep(3) _ _ _ ep(2,1) fr(5-9) fr(2,4,3)])
      (use assms(2) fr x tf(3,4) in simp_all)
qed

text \<open>When the connector hands over a descriptor, the client makes a connection with the next
  name, keeps it, registers its channel for reading and calls the connection callback once, with the
  connection established, its buffers empty and its close callback set.\<close>

theorem client_connection_established:
  assumes "loop_inv st" and "isInLoopThread st" and "chan_store st p = None" and "channels st fd = None"
    and "conns st c = None" and "cl_nextConnId st < 2 ^ 31 - 1"
  shows "\<exists>s x. TcpClient_newConnection user a peer c p fd st = connectionCallback user c s \<and> loop_inv s \<and>
    conns s c = Some x \<and> conn_state x = kConnected \<and> conn_name x = client_connName (getPeerAddr peer) st \<and>
    contents (inputBuffer x) = [] \<and> contents (outputBuffer x) = [] \<and>
    epoll_set s = (epoll_set st)(fd \<mapsto> (kReadEvent, p)) \<and> cl_connection s = Some c \<and>
    close_cb s c = Some CB_TcpClient_removeConnection \<and> cl_nextConnId s = cl_nextConnId st + 1"
  by (rule newConnection_spec [OF assms, of user a peer]) (auto simp: new_buffer_empty)

section \<open>Reconnecting\<close>

lemma client_more:
  fixes st st' :: client_world
  shows "connector_world.more st' = connector_world.more st \<Longrightarrow> cl_connection st' = cl_connection st"
  by (cases st; cases st') simp

text \<open>When an established connection of a client that retries ends, its channel leaves the poller, its
  destruction is queued on the loop, and the connector starts again at once, with the initial delay:
  its new socket is registered for writing, if \<open>connect\<close> is then in progress and the user's callback
  leaves the loop alone. (With the assertions of the loop in force no connection of a client is ever established,
  theory \<open>Connector\<close>.)\<close>

theorem client_reconnects:
  assumes "loop_inv st" and "isInLoopThread st" and "conns st c = Some x"
    and "conn_state x = kConnected \<or> conn_state x = kDisconnecting"
    and "chan_store st (conn_channel x) = Some ch" and "ch_loop ch = loop_id st" and "ch_index ch = kAdded"
    and "\<And>s. connectionCallback user c s = Inr s" and "close_cb st c = Some CB_TcpClient_removeConnection"
    and "cl_retry st" and "cl_connect st" and "cn_connect st" and "cn_channel st = None"
    and "0 \<le> ans_socket a" and "channels st (ans_socket a) = None" and "chan_store st (ans_channel a) = None"
    and "ans_errno a \<in> errno_connecting"
  shows "\<exists>st'. TcpConnection_handleClose (client_callbacks user a) c st = Inr st' \<and> cl_connection st' = None \<and>
    F_connectDestroyed c \<in> set (pendingFunctors st') \<and> cn_state st' = CN_kConnecting \<and>
    cn_channel st' = Some (ans_channel a) \<and> cn_retryDelayMs st' = kInitRetryDelayMs \<and>
    socks st' = insert (ans_socket a) (socks st) \<and>
    epoll_set st' = (epoll_set st)(ch_fd ch := None, ans_socket a \<mapsto> (kWriteEvent, ans_channel a))"
proof -
  let ?s1 = "conn_put st c (x\<lparr>conn_state := kDisconnected\<rparr>)"
  have l1: "loop_inv ?s1" "chan_store ?s1 (conn_channel x) = Some ch" "ch_loop ch = loop_id ?s1" "isInLoopThread ?s1"
    using assms(1,2,5,6) by (simp_all add: conn_put_def isInLoopThread_def)
  obtain s2 where s2: "Channel_disableAll ?s1 (conn_channel x) = Inr s2"
    and f2: "s2 = ?s1\<lparr>chan_store := (chan_store ?s1)(conn_channel x \<mapsto> ch\<lparr>ch_events := 0, addedToLoop := True, ch_index := kDeleted\<rparr>),
            epoll_set := (epoll_set ?s1)(ch_fd ch := None)\<rparr>"
    using disableAll_Inr [OF l1 assms(7)] by blast
  have l2: "loop_inv s2" using s2 change_events_inv [OF l1(1)] by (simp add: Channel_disableAll_def)
  let ?s3 = "queueInLoop (F_connectDestroyed c) (s2\<lparr>cl_connection := None\<rparr>)"
  let ?s4 = "sock_opened (ans_socket a) (?s3\<lparr>cn_state := CN_kConnecting, cn_retryDelayMs := kInitRetryDelayMs\<rparr>)"
  have inv4: "loop_inv ?s4"
    using l2 by (subst loop_inv_cong [where st' = s2]) (simp_all add: sock_opened_def queueInLoop_def wakeup_def Let_def)
  have f4: "isInLoopThread ?s4" "cn_channel ?s4 = None" "chan_store ?s4 (ans_channel a) = None"
    "channels ?s4 (ans_socket a) = None" "socks ?s4 = insert (ans_socket a) (socks st)"
    "epoll_set ?s4 = (epoll_set st)(ch_fd ch := None)"
    using assms(2,5,13,15,16)
    by (auto simp: f2 conn_put_def sock_opened_def queueInLoop_def wakeup_def Let_def isInLoopThread_def)
  have fs: "cl_retry ?s3" "cl_connect ?s3" "cl_connection ?s4 = None" "F_connectDestroyed c \<in> set (pendingFunctors ?s4)"
    "cn_retryDelayMs ?s4 = kInitRetryDelayMs" "cn_connect ?s3"
    using assms(10-12) by (simp_all add: f2 conn_put_def sock_opened_def queueInLoop_def wakeup_def Let_def)
  obtain st' where st': "Connector_connecting (ans_channel a) (ans_socket a) ?s4 = Inr st'" "cn_state st' = CN_kConnecting"
    "cn_channel st' = Some (ans_channel a)" "socks st' = socks ?s4"
    "epoll_set st' = (epoll_set ?s4)(ans_socket a \<mapsto> (kWriteEvent, ans_channel a))"
    "pendingFunctors st' = pendingFunctors ?s4" "cn_retryDelayMs st' = cn_retryDelayMs ?s4"
    "connector_world.more st' = connector_world.more ?s4"
    using connecting_ok [OF inv4 f4(1-4)] by blast
  have "cl_connection st' = cl_connection ?s4" using client_more [OF st'(8)] .
  with fs st' have k: "cl_connection st' = None" "F_connectDestroyed c \<in> set (pendingFunctors st')"
    "cn_retryDelayMs st' = kInitRetryDelayMs" by simp_all
  have "Connector_restart a ?s3 = Inr st'"
    using st'(1) fs(6) assms(14,17)
    by (simp add: Connector_restart_def Connector_startInLoop_def Connector_connect_def createNonblockingFd_def Let_def)
  then have "TcpClient_removeConnection a c s2 = Inr st'"
    using fs(1,2) by (simp add: TcpClient_removeConnection_def Let_def)
  then have "TcpConnection_handleClose (client_callbacks user a) c st = Inr st'"
    using assms(2,3,4,8,9) s2
    by (auto simp: TcpConnection_handleClose_def setState_def client_callbacks_def run_close_cb_def f2 conn_put_def)
  with st' k f4 show ?thesis by auto
qed

section \<open>Destroying a client\<close>

text \<open>Destroying a client that is still connecting fails the assertion of the connector's destructor: \<open>stop\<close>
  only queues the functor that would have withdrawn the channel.\<close>

theorem client_destroyed_connecting:
  assumes "cl_connection st = None" and "cn_channel st \<noteq> None"
  shows "TcpClient_delete user a unique False st = Inl (AssertFail ''!channel_'')"
  using assms
  by (simp add: TcpClient_delete_def Connector_delete_def Connector_stop_def queueInLoop_def wakeup_def Let_def assertR_def)

text \<open>Destroying one whose connection is established and its own: \<open>forceClose\<close> marks the connection as
  disconnected, so that the \<open>forceCloseInLoop\<close> it queues does nothing, and when that functor, which holds the
  last pointer, has been destroyed with the others, the connection's destructor finds its channel still registered.
  (No connection of a client is ever established with the assertions in force, theory \<open>Connector\<close>.)\<close>

theorem client_destructor_leaves_channel:
  assumes "isInLoopThread st" and "pendingFunctors st = []" and "cl_connection st = Some c" and "conns st c = Some x"
    and "conn_state x = kConnected" and "cn_channel st = None" and "chan_store st (conn_channel x) = Some ch" and "addedToLoop ch"
  shows "\<exists>st'. TcpClient_delete user a True False st = Inr st' \<and> pendingFunctors st' = [F_forceCloseInLoop c] \<and>
    client_doPendingFunctors user a (\<lambda>d. d = c) st' = Inl (AssertFail ''!addedToLoop_'')"
proof -
  let ?s1 = "st\<lparr>close_cb := (close_cb st)(c \<mapsto> CB_detail_removeConnection)\<rparr>"
  let ?s = "queueInLoop (F_forceCloseInLoop c) (conn_put ?s1 c (x\<lparr>conn_state := kDisconnected\<rparr>))"
  have p: "pendingFunctors ?s = [F_forceCloseInLoop c]" "conns ?s c = Some (x\<lparr>conn_state := kDisconnected\<rparr>)"
    "chan_store ?s = chan_store st"
    using assms(2) by (simp_all add: queueInLoop_def wakeup_def Let_def conn_put_def)
  have "TcpClient_delete user a True False st = Inr ?s"
    using assms by (simp add: TcpClient_delete_def runInLoop_def TcpConnection_forceClose_def setState_def
        Connector_delete_def conn_put_def queueInLoop_def wakeup_def Let_def conn_deref_def)
  moreover have "client_doPendingFunctors user a (\<lambda>d. d = c) ?s = Inl (AssertFail ''!addedToLoop_'')"
    using p assms(7,8)
    by (simp add: client_doPendingFunctors_def doPendingFunctors_def release_functors_def map_filter_simps
        forceCloseInLoop_def TcpConnection_delete_def delete_Channel_def conn_deref_def chan_deref_def assertR_def)
  ultimately show ?thesis using p(1) by blast
qed

section \<open>Examples\<close>

definition client_demo :: "EventLoop \<Rightarrow> client_world" where
  "client_demo l = connector_world.extend (connector_demo l) (client_world.fields ''cli'' True True 1 None Map.empty)"

definition user_demo :: "client_world conn_callbacks" where
  "user_demo = \<lparr>connectionCallback = (\<lambda>c. Inr), messageCallback = (\<lambda>c t. Inr), closeCallback = (\<lambda>c. Inr),
    writeCompleteCallback = None\<rparr>"

lemma client_demo_ok:
  obtains l where "loop_inv (client_demo l)" "isInLoopThread (client_demo l)"
    "chan_store (client_demo l) 12 = None" "chan_store (client_demo l) 14 = None"
    "channels (client_demo l) 6 = None" "channels (client_demo l) 8 = None" "conns (client_demo l) 1 = None"
    "cl_nextConnId (client_demo l) = 1" "cl_name (client_demo l) = ''cli''" "socks (client_demo l) = {}"
    "cn_channel (client_demo l) = None" "cl_connection (client_demo l) = None"
    "cn_connect (client_demo l)" "cl_connect (client_demo l)" "cl_retry (client_demo l)"
proof -
  obtain l where l: "EventLoop_new False 1 7 linux_epoll_fails 3 10 4 11 5 False (Timestamp 0) = Inr l"
    using demo_loop_exists by blast
  have "loop_inv l" using EventLoop_new_inv [OF linux_epoll_contract l] .
  note ex = client_demo_def connector_demo_def EventLoop.EventLoop.defs conn_world.defs connector_world.defs client_world.defs
  from \<open>loop_inv l\<close> have "loop_inv (client_demo l)"
    by (subst loop_inv_cong [where st' = l]) (simp_all add: ex)
  moreover have "isInLoopThread (client_demo l)" "chan_store (client_demo l) 12 = None"
    "chan_store (client_demo l) 14 = None" "channels (client_demo l) 6 = None" "channels (client_demo l) 8 = None"
    using l by (auto simp: loop_eval linux_epoll_fails_def ex)
  ultimately show ?thesis using that by (simp add: ex)
qed

theorem client_connection_established_witness:
  "\<exists>st s x. TcpClient_newConnection user_demo (demo_answers 0) (Some (InetAddress_port 8888)) 1 12 6 st = Inr s \<and>
    conns s 1 = Some x \<and> conn_state x = kConnected \<and> conn_name x = ''cli:0.0.0.0:8888#1'' \<and>
    epoll_set s 6 = Some (kReadEvent, 12)"
proof -
  obtain l where l: "loop_inv (client_demo l)" "isInLoopThread (client_demo l)" "chan_store (client_demo l) 12 = None"
    "channels (client_demo l) 6 = None" "conns (client_demo l) 1 = None" "cl_nextConnId (client_demo l) = 1"
    "cl_name (client_demo l) = ''cli''" using client_demo_ok by metis
  have n: "snprintf_buf 32 ('':'' @ toIpPort (InetAddress_port 8888) @ ''#'' @ to_string 1) = '':0.0.0.0:8888#1''"
    by code_simp
  from client_connection_established [OF l(1-5), of user_demo "demo_answers 0" "Some (InetAddress_port 8888)"] l(6)
  obtain s x where "TcpClient_newConnection user_demo (demo_answers 0) (Some (InetAddress_port 8888)) 1 12 6 (client_demo l) =
      Inr s" "conns s 1 = Some x" "conn_state x = kConnected"
    "conn_name x = client_connName (InetAddress_port 8888) (client_demo l)"
    "epoll_set s = (epoll_set (client_demo l))(6 \<mapsto> (kReadEvent, 12))"
    by (auto simp: user_demo_def getPeerAddr_def)
  then show ?thesis using n l(6,7) by (intro exI [of _ "client_demo l"] exI [of _ s] exI [of _ x]) (simp add: client_connName_def)
qed

text \<open>The state after the connector's descriptor 6 has been taken over.\<close>

lemma client_connected_demo:
  obtains s :: client_world and x ch where "loop_inv s" "isInLoopThread s" "conns s 1 = Some x" "conn_state x = kConnected"
    "chan_store s (conn_channel x) = Some ch" "ch_loop ch = loop_id s" "ch_index ch = kAdded"
    "close_cb s 1 = Some CB_TcpClient_removeConnection" "cl_retry s" "cl_connect s" "cn_connect s" "cn_channel s = None"
    "channels s 8 = None" "chan_store s 14 = None" "ch_fd ch = 6" "cl_connection s = Some 1" "epoll_set s 6 = Some (kReadEvent, 12)"
proof -
  obtain l where l: "loop_inv (client_demo l)" "isInLoopThread (client_demo l)"
    "chan_store (client_demo l) 12 = None" "chan_store (client_demo l) 14 = None"
    "channels (client_demo l) 6 = None" "channels (client_demo l) 8 = None" "conns (client_demo l) 1 = None"
    "cl_nextConnId (client_demo l) = 1" "cn_channel (client_demo l) = None"
    "cn_connect (client_demo l)" "cl_connect (client_demo l)" "cl_retry (client_demo l)" using client_demo_ok by metis
  have "cl_nextConnId (client_demo l) < 2 ^ 31 - 1" using l(8) by simp
  note spec = newConnection_spec [OF l(1-3,5,7) this, of user_demo "demo_answers 0" None]
  show ?thesis
  proof (rule spec)
    fix s :: client_world and x ch
    assume "loop_inv s" "isInLoopThread s" "conns s 1 = Some x" "conn_state x = kConnected" "conn_channel x = 12"
      "chan_store s = (chan_store (client_demo l))(12 \<mapsto> ch)" "ch_index ch = kAdded" "ch_loop ch = loop_id s"
      "ch_fd ch = 6" "channels s = (channels (client_demo l))(6 \<mapsto> 12)"
      "epoll_set s = (epoll_set (client_demo l))(6 \<mapsto> (kReadEvent, 12))"
      "cn_connect s = cn_connect (client_demo l)" "cn_channel s = cn_channel (client_demo l)"
      "cl_retry s = cl_retry (client_demo l)" "cl_connect s = cl_connect (client_demo l)" "cl_connection s = Some 1"
      "close_cb s 1 = Some CB_TcpClient_removeConnection"
    then show thesis using that [of s x ch] l(4,6,9-12) by simp
  qed
qed

theorem client_reconnects_witness:
  "\<exists>st st'. TcpConnection_handleClose (client_callbacks user_demo ((demo_answers EINPROGRESS)\<lparr>ans_socket := 8,
      ans_channel := 14\<rparr>)) 1 st = Inr st' \<and> epoll_set st 6 = Some (kReadEvent, 12) \<and> epoll_set st' 6 = None \<and>
    epoll_set st' 8 = Some (kWriteEvent, 14) \<and> cn_state st' = CN_kConnecting"
proof -
  obtain s :: client_world and x ch where s: "loop_inv s" "isInLoopThread s" "conns s 1 = Some x" "conn_state x = kConnected"
    "chan_store s (conn_channel x) = Some ch" "ch_loop ch = loop_id s" "ch_index ch = kAdded"
    "close_cb s 1 = Some CB_TcpClient_removeConnection" "cl_retry s" "cl_connect s" "cn_connect s" "cn_channel s = None"
    and n: "channels s 8 = None" "chan_store s 14 = None" "ch_fd ch = 6" "epoll_set s 6 = Some (kReadEvent, 12)"
    using client_connected_demo by metis
  let ?a = "(demo_answers EINPROGRESS)\<lparr>ans_socket := 8, ans_channel := 14\<rparr>"
  have a: "0 \<le> ans_socket ?a" "channels s (ans_socket ?a) = None" "chan_store s (ans_channel ?a) = None"
    "ans_errno ?a \<in> errno_connecting" using n by (simp_all add: errno_connecting_def)
  from client_reconnects [OF s(1-3) disjI1 [OF s(4)] s(5-7) _ s(8-12) a, of user_demo] n
  show ?thesis by (fastforce simp: user_demo_def)
qed

theorem client_destroyed_connecting_witness:
  "\<exists>st. cn_channel st = Some 12 \<and> TcpClient_delete user_demo (demo_answers 0) True False st = Inl (AssertFail ''!channel_'')"
proof -
  obtain l where l: "cl_connection (client_demo l) = None" using client_demo_ok by metis
  let ?s = "(client_demo l)\<lparr>cn_channel := Some 12\<rparr>"
  have "TcpClient_delete user_demo (demo_answers 0) True False ?s = Inl (AssertFail ''!channel_'')"
    by (rule client_destroyed_connecting) (use l in simp_all)
  then show ?thesis by (intro exI [of _ ?s]) simp
qed

end
