(* ===== verification/EchoServer.thy ===== *)
theory EchoServer
  imports Connection_Send Server_Frame
begin

text \<open>
  \<open>example/EchoServer.cc\<close>: the two callbacks of the echo server, on one connection. The program is
  run as a transition system in which the kernel's answers are arbitrary; \<open>received\<close> records the bytes
  that \<open>read\<close> has returned. The property is end to end: what leaves the socket is, at any moment, an
  initial part of what came in.
\<close>

section \<open>The callbacks\<close>

definition echo_onConnect :: "nat \<Rightarrow> 'z conn_world_scheme \<Rightarrow> 'z conn_world_scheme res" where
  "echo_onConnect c st = TcpConnection_setTcpNoDelay c True st"

text \<open>\<open>conn->send(buf)\<close>, where \<open>buf\<close> is the input buffer of the connection itself.\<close>

definition echo_onMessage :: "nat \<Rightarrow> Timestamp \<Rightarrow> 'z conn_world_scheme \<Rightarrow> 'z conn_world_scheme res" where
  "echo_onMessage c t st =
     bindR (conn_deref st c) (\<lambda>x.
       if conn_state x = kConnected
       then bindR (retrieveAllAsString (inputBuffer x)) (\<lambda>(msg, b).
              runInLoop (exec_call_functor False) (F_sendInLoop c msg) (conn_put st c (x\<lparr>inputBuffer := b\<rparr>)))
       else Inr st)"

text \<open>The close callback is the server's: it ends in \<open>connectDestroyed\<close> being queued.\<close>

definition echo_callbacks :: "'z conn_world_scheme conn_callbacks" where
  "echo_callbacks =
     \<lparr>connectionCallback = echo_onConnect, messageCallback = echo_onMessage,
      closeCallback = (\<lambda>c st. Inr (queueInLoop (F_connectDestroyed c) st)), writeCompleteCallback = None\<rparr>"

section \<open>The callbacks respect the connection\<close>

lemma contents_small: "Buffer_inv b \<Longrightarrow> length (contents b) \<le> vector_max_size"
  using length_contents [of b] readableBytes_eq [of b] by (auto simp: Buffer_inv_def)

lemma onMessage_cases:
  assumes inv: "conn_inv c st" and ok: "echo_onMessage c t st = Inr st'"
  obtains (ignored) x where "conns st c = Some x" "conn_state x \<noteq> kConnected" "st' = st"
  | (sent) x b where "conns st c = Some x" "conn_state x = kConnected" "Buffer_inv b" "contents b = []"
      "length (contents (inputBuffer x)) \<le> vector_max_size"
      "runInLoop (exec_call_functor False) (F_sendInLoop c (contents (inputBuffer x)))
         (conn_put st c (x\<lparr>inputBuffer := b\<rparr>)) = Inr st'"
proof -
  obtain x ch where I: "conns st c = Some x" "conn_ok x ch" using conn_invE [OF inv] .
  have B: "Buffer_inv (inputBuffer x)" using I(2) by (simp add: conn_ok_def)
  obtain b where "retrieveAllAsString (inputBuffer x) = Inr (contents (inputBuffer x), b)" "Buffer_inv b" "contents b = []"
    using retrieveAsString_spec [OF B, of "readableBytes (inputBuffer x)"] length_contents [OF B]
    by (auto simp: retrieveAllAsString_def)
  then show ?thesis using ok I contents_small [OF B]
    by (cases "conn_state x = kConnected") (auto simp: echo_onMessage_def intro: ignored sent)
qed

lemma echo_message_ext:
  fixes st :: "'z conn_world_scheme"
  assumes inv: "conn_inv c st" and ok: "echo_onMessage c t st = Inr st'"
  shows "conn_ext c st st'"
  using inv ok
proof (cases rule: onMessage_cases)
  case (ignored x)
  then show ?thesis using conn_ext_refl [OF inv] by simp
next
  case (sent x b)
  let ?s = "conn_put st c (x\<lparr>inputBuffer := b\<rparr>)"
  have e: "conn_ext c st ?s"
    by (rule conn_put_ext [OF inv sent(1)]) (use sent(3) in \<open>auto simp: conn_evolves_def conn_ok_def\<close>)
  have "TcpConnection_send (exec_call_functor False) c (contents (inputBuffer x)) ?s = Inr st'"
    using sent(2,6) by (simp add: TcpConnection_send_def)
  then show ?thesis by (rule conn_ext_trans [OF e send_ext [OF conn_ext_inv [OF e] _ sent(5)]])
qed

lemma echo_connect_ext:
  fixes st :: "'z conn_world_scheme"
  assumes inv: "conn_inv c st" and ok: "echo_onConnect c st = Inr st'"
  shows "conn_ext c st st'"
proof -
  from ok obtain x where "conns st c = Some x" "st' = conn_put st c (x\<lparr>sock_nodelay := True\<rparr>)"
    by (auto simp: echo_onConnect_def TcpConnection_setTcpNoDelay_def bindR_eq_Inr conn_deref_eq)
  then show ?thesis using conn_put_ext [OF inv] by (auto simp: conn_evolves_def conn_ok_def)
qed

interpretation echo: conn_user echo_callbacks c for c
  by unfold_locales (auto simp: echo_callbacks_def queue_ext dest: echo_connect_ext echo_message_ext)

section \<open>Operations that leave the two streams alone\<close>

definition quiet :: "nat \<Rightarrow> 'z conn_world_scheme \<Rightarrow> 'z conn_world_scheme \<Rightarrow> bool" where
  "quiet c st st' \<longleftrightarrow>
     (\<forall>x. conns st c = Some x \<longrightarrow> (\<exists>x'. conns st' c = Some x' \<and> accepted x' = accepted x \<and>
        contents (inputBuffer x') = contents (inputBuffer x))) \<and>
     (\<forall>m. F_sendInLoop c m \<in> set (pendingFunctors st') \<longrightarrow> F_sendInLoop c m \<in> set (pendingFunctors st))"

lemma quiet_refl [simp]: "quiet c st st"
  by (simp add: quiet_def)

lemma quiet_trans: "quiet c s1 s2 \<Longrightarrow> quiet c s2 s3 \<Longrightarrow> quiet c s1 s3"
  unfolding quiet_def by (metis (no_types, lifting))

lemma quiet_put: "conns st c = Some x \<Longrightarrow> accepted x' = accepted x \<Longrightarrow>
    contents (inputBuffer x') = contents (inputBuffer x) \<Longrightarrow> quiet c st (conn_put st c x')"
  by (simp add: quiet_def conn_put_def)

lemma quiet_chan_put [simp]:
  fixes st :: "'z conn_world_scheme"
  shows "quiet c st (chan_put st p ch)"
  by (simp add: quiet_def chan_put_def)

lemma quiet_queue:
  fixes st :: "'z conn_world_scheme"
  shows "(\<And>m. f \<noteq> F_sendInLoop c m) \<Longrightarrow> quiet c st (queueInLoop f st)"
  by (auto simp: quiet_def queueInLoop_def wakeup_def Let_def)

lemma poller_quiet:
  fixes st :: "'z conn_world_scheme"
  shows "poller_frame st st' \<Longrightarrow> quiet c st st'"
  by (cases st; cases st') (simp add: poller_frame_def quiet_def)

lemma change_events_quiet:
  fixes st :: "'z conn_world_scheme"
  shows "change_events f st p = Inr st' \<Longrightarrow> quiet c st st'"
  by (rule poller_quiet [OF change_events_frame])

lemmas masks_quiet = change_events_quiet [of mask_disableAll, folded Channel_disableAll_def]
  change_events_quiet [of mask_enableReading, folded Channel_enableReading_def]
  change_events_quiet [of mask_enableWriting, folded Channel_enableWriting_def]
  change_events_quiet [of mask_disableWriting, folded Channel_disableWriting_def]
  poller_quiet [OF Channel_remove_frame]

lemma setState_quiet: "setState st c s = Inr st' \<Longrightarrow> quiet c st st'"
  by (auto simp: setState_def bindR_eq_Inr conn_deref_eq intro!: quiet_put)

lemma append_rest_quiet:
  assumes "append_rest st c msg n r = Inr st'"
  shows "quiet c st st'"
proof (cases "r > 0")
  case True
  then obtain x b ch where x: "conns st c = Some x"
    and d: "(if \<not> isWriting ch then Channel_enableWriting (conn_put st c (x\<lparr>outputBuffer := b\<rparr>)) (conn_channel x)
       else Inr (conn_put st c (x\<lparr>outputBuffer := b\<rparr>))) = Inr st'"
    using assms by (auto simp: append_rest_def res_iffs conn_deref_eq Let_def)
  have "quiet c st (conn_put st c (x\<lparr>outputBuffer := b\<rparr>))" using x by (rule quiet_put) simp_all
  with d show ?thesis using quiet_trans masks_quiet(3) by (auto split: if_splits) blast+
qed (use assms in \<open>simp add: append_rest_def\<close>)

lemma shutdownInLoop_quiet: "shutdownInLoop c st = Inr st' \<Longrightarrow> quiet c st st'"
  by (auto simp: shutdownInLoop_def res_iffs assertInLoopThread_def conn_deref_eq split: if_splits intro!: quiet_put)

lemma handleWrite_quiet:
  fixes st :: "'z conn_world_scheme"
  assumes "TcpConnection_handleWrite cbs c st = Inr st'"
  shows "quiet c st st'"
  using assms
proof (cases rule: handleWrite_cases)
  case (part x b w)
  then show ?thesis by (auto intro: quiet_put)
next
  case (drained x b w s2)
  let ?s = "conn_put st c (x\<lparr>outputBuffer := b, sock_written := w\<rparr>)"
  have "quiet c st ?s" using drained(1) by (rule quiet_put) simp_all
  moreover have "quiet c ?s s2" using drained(2) by (rule masks_quiet(4))
  moreover have "quiet c s2 (queueInLoop (F_writeComplete c) s2)" by (rule quiet_queue) simp
  ultimately show ?thesis using drained(3) shutdownInLoop_quiet
    by (auto simp: Let_def split: if_splits) (blast intro: quiet_trans)+
qed simp

lemma echo_connect_quiet: "echo_onConnect c st = Inr st' \<Longrightarrow> quiet c st st'"
  by (auto simp: echo_onConnect_def TcpConnection_setTcpNoDelay_def bindR_eq_Inr conn_deref_eq intro!: quiet_put)

lemma echo_close_quiet:
  fixes st :: "'z conn_world_scheme"
  shows "quiet c st (queueInLoop (F_connectDestroyed c) st)"
  by (rule quiet_queue) simp

lemma echo_callbacks_simps [simp]:
  "connectionCallback echo_callbacks = echo_onConnect" "messageCallback echo_callbacks = echo_onMessage"
  "closeCallback echo_callbacks = (\<lambda>c st. Inr (queueInLoop (F_connectDestroyed c) st))"
  "writeCompleteCallback echo_callbacks = None" "\<not> wcb_set echo_callbacks"
  by (simp_all add: echo_callbacks_def wcb_set_def)

lemma handleClose_quiet:
  assumes "TcpConnection_handleClose echo_callbacks c st = Inr st'"
  shows "quiet c st st'"
proof -
  from assms obtain p s1 s2 s3 where "setState st c kDisconnected = Inr s1"
    "Channel_disableAll s1 p = Inr s2" "echo_onConnect c s2 = Inr s3"
    "st' = queueInLoop (F_connectDestroyed c) s3"
    by (auto simp: TcpConnection_handleClose_def res_iffs assertInLoopThread_def split: if_splits)
  then show ?thesis
    by (blast intro: quiet_trans setState_quiet masks_quiet(1) echo_connect_quiet echo_close_quiet)
qed

lemma connectEstablished_quiet:
  assumes "connectEstablished echo_callbacks c st = Inr st'"
  shows "quiet c st st'"
proof -
  from assms obtain p ch s1 s2 where "setState st c kConnected = Inr s1"
    "Channel_enableReading (chan_put s1 p (Channel_tie ch)) p = Inr s2"
    "echo_onConnect c s2 = Inr st'"
    by (auto simp: connectEstablished_def res_iffs assertInLoopThread_def split: if_splits)
  then show ?thesis
    by (blast intro: quiet_trans setState_quiet quiet_chan_put masks_quiet(2) echo_connect_quiet)
qed

lemma connectDestroyed_quiet:
  assumes "connectDestroyed echo_callbacks c st = Inr st'"
  shows "quiet c st st'"
proof -
  from assms obtain x where x: "conns st c = Some x"
    by (auto simp: connectDestroyed_def res_iffs assertInLoopThread_def conn_deref_eq split: if_splits)
  with assms obtain s2 where s2: "(if conn_state x = kConnected
        then bindR (setState st c kDisconnected) (\<lambda>st1. bindR (Channel_disableAll st1 (conn_channel x)) (echo_onConnect c))
        else Inr st) = Inr s2" "Channel_remove s2 (conn_channel x) = Inr st'"
    by (auto simp: connectDestroyed_def bindR_eq_Inr assertInLoopThread_eq_Inr cong: if_cong)
  have "quiet c st s2" using s2(1)
    by (auto simp: bindR_eq_Inr split: if_splits)
      (blast intro: quiet_trans setState_quiet masks_quiet(1) echo_connect_quiet)
  then show ?thesis using masks_quiet(5) [OF s2(2)] by (rule quiet_trans)
qed

section \<open>The system\<close>

text \<open>The bytes an event reads.\<close>

fun delivered :: "chan_event \<Rightarrow> io_result \<Rightarrow> string" where
  "delivered ReadEv (IoOk data) = data"
| "delivered _ _ = []"

inductive echo_step :: "nat \<Rightarrow> conn_world \<times> string \<Rightarrow> conn_world \<times> string \<Rightarrow> bool" for c :: nat where
  es_event: "conns st c = Some x \<Longrightarrow>
    conn_channel_callback echo_callbacks c ev (st\<lparr>this_thread := threadId st\<rparr>) = Inr st' \<Longrightarrow>
    echo_step c (st, received) (st', received @ delivered ev (sock_read x))"
| es_functor: "pendingFunctors st = f # fs \<Longrightarrow>
    f \<in> {F_shutdownInLoop c, F_forceCloseInLoop c, F_writeComplete c, F_connectEstablished c,
         F_connectDestroyed c} \<union> range (F_sendInLoop c) \<Longrightarrow>
    exec_conn_functor echo_callbacks f (st\<lparr>this_thread := threadId st, pendingFunctors := fs\<rparr>) = Inr st' \<Longrightarrow>
    echo_step c (st, received) (st', received)"
| es_established: "connectEstablished echo_callbacks c (st\<lparr>this_thread := threadId st\<rparr>) = Inr st' \<Longrightarrow>
    echo_step c (st, received) (st', received)"
| es_write: "conns st c = Some x \<Longrightarrow>
    echo_step c (st, received) (conn_put st c (x\<lparr>sock_write := w\<rparr>), received)"
| es_read: "conns st c = Some x \<Longrightarrow> io_small r \<Longrightarrow>
    echo_step c (st, received) (conn_put st c (x\<lparr>sock_read := r\<rparr>), received)"

definition echo_start :: "nat \<Rightarrow> conn_world \<times> string \<Rightarrow> bool" where
  "echo_start c s \<longleftrightarrow> conn_start c (fst s) \<and> snd s = []"

text \<open>Until the connection ends, what was received has been sent back except what is still unread.\<close>

definition echo_inv :: "nat \<Rightarrow> conn_world \<times> string \<Rightarrow> bool" where
  "echo_inv c s \<longleftrightarrow> conn_inv c (fst s) \<and> (\<forall>m. F_sendInLoop c m \<notin> set (pendingFunctors (fst s))) \<and>
     (\<exists>x. conns (fst s) c = Some x \<and> prefix (accepted x) (snd s) \<and>
        (state_rank (conn_state x) \<le> 1 \<longrightarrow> accepted x @ contents (inputBuffer x) = snd s))"

lemma echo_quiet:
  assumes "echo_inv c (st, r)" and "quiet c st st'" and "conn_ext c st st'"
  shows "echo_inv c (st', r)"
proof -
  from assms(1) obtain x where x: "conns st c = Some x" "prefix (accepted x) r"
    "state_rank (conn_state x) \<le> 1 \<longrightarrow> accepted x @ contents (inputBuffer x) = r"
    "\<forall>m. F_sendInLoop c m \<notin> set (pendingFunctors st)" by (auto simp: echo_inv_def)
  from assms(2) x(1) obtain x' where x': "conns st' c = Some x'" "accepted x' = accepted x"
    "contents (inputBuffer x') = contents (inputBuffer x)" by (auto simp: quiet_def)
  have "state_rank (conn_state x) \<le> state_rank (conn_state x')"
    using assms(3) x(1) x'(1) by (auto simp: conn_ext_def conn_evolves_def)
  then show ?thesis using assms(2) x x' conn_ext_inv [OF assms(3)] by (auto simp: echo_inv_def quiet_def)
qed

text \<open>What \<open>sendInLoop\<close> adds to the stream.\<close>

lemma sendInLoop_streams:
  fixes st :: "'z conn_world_scheme"
  assumes ok: "sendInLoop False c msg st = Inr st'" and x: "conns st c = Some x" "conn_state x = kConnected"
  shows "\<exists>x'. conns st' c = Some x' \<and> accepted x' = accepted x @ msg \<and>
    contents (inputBuffer x') = contents (inputBuffer x) \<and>
    (\<forall>m. F_sendInLoop c m \<in> set (pendingFunctors st') \<longrightarrow> F_sendInLoop c m \<in> set (pendingFunctors st))"
proof -
  have "\<exists>y n r. append_rest (conn_put st c y) c msg n r = Inr st' \<and> accepted y = accepted x @ msg \<and>
      inputBuffer y = inputBuffer x"
    using ok x
    by (auto simp: sendInLoop_def res_iffs assertInLoopThread_def Let_def split: if_splits write_result.splits)
      (rule exI, rule conjI, rule exI, rule exI, assumption, simp)+
  then obtain y n r where y: "append_rest (conn_put st c y) c msg n r = Inr st'" "accepted y = accepted x @ msg"
    "inputBuffer y = inputBuffer x" by blast
  from append_rest_quiet [OF y(1)] y(2,3) show ?thesis by (simp add: quiet_def conn_put_def)
qed

lemma echo_message_inv:
  assumes inv: "echo_inv c (st, r)" and t: "isInLoopThread st" and ok: "echo_onMessage c now st = Inr st'"
  shows "echo_inv c (st', r)"
proof -
  have ci: "conn_inv c st" using inv by (simp add: echo_inv_def)
  from ci ok show ?thesis
  proof (cases rule: onMessage_cases)
    case (ignored x)
    then show ?thesis using inv by simp
  next
    case (sent x b)
    let ?s = "conn_put st c (x\<lparr>inputBuffer := b\<rparr>)" and ?msg = "contents (inputBuffer x)"
    have "isInLoopThread ?s" using t by (simp add: conn_put_def isInLoopThread_def)
    then have "sendInLoop False c ?msg ?s = Inr st'" using sent(6) by (simp add: runInLoop_def)
    from sendInLoop_streams [OF this, of "x\<lparr>inputBuffer := b\<rparr>"] sent(2,4)
    obtain x' where x': "conns st' c = Some x'" "accepted x' = accepted x @ ?msg" "contents (inputBuffer x') = []"
      "\<forall>m. F_sendInLoop c m \<in> set (pendingFunctors st') \<longrightarrow> F_sendInLoop c m \<in> set (pendingFunctors st)"
      by (auto simp: conn_put_def)
    have "accepted x @ ?msg = r" using inv sent(1,2) by (simp add: echo_inv_def)
    then show ?thesis using x' inv conn_ext_inv [OF echo_message_ext [OF ci ok]] by (auto simp: echo_inv_def)
  qed
qed

lemma readFd_parts:
  assumes "readFd b0 r = Inr (n, e, b)" and "Buffer_inv b0" and "io_small r"
  shows "Buffer_inv b \<and> contents b = contents b0 @ delivered ReadEv r \<and> (n \<le> 0 \<longrightarrow> delivered ReadEv r = [])"
proof (cases r)
  case (IoErr err)
  then show ?thesis using assms(1,2) by (simp add: readFd_def)
next
  case (IoOk data)
  then show ?thesis using readFd_Inr [OF assms(2), of data n e b] assms(1,3) by auto
qed

lemma handleRead_echo:
  assumes inv: "echo_inv c (st, r)" and x: "conns st c = Some x"
    and ok: "TcpConnection_handleRead echo_callbacks c st = Inr st'"
  shows "echo_inv c (st', r @ delivered ReadEv (sock_read x))"
proof -
  have ci: "conn_inv c st" using inv by (simp add: echo_inv_def)
  then have B: "Buffer_inv (inputBuffer x)" "io_small (sock_read x)" using x by (auto simp: conn_inv_def conn_ok_def)
  from ok x obtain n e b where rd: "readFd (inputBuffer x) (sock_read x) = Inr (n, e, b)"
    and t: "isInLoopThread st" and rest: "(let s1 = conn_put st c (x\<lparr>inputBuffer := b\<rparr>) in
       if n > 0 then echo_onMessage c (pollReturnTime s1) s1
       else if n = 0 then TcpConnection_handleClose echo_callbacks c s1 else Inr s1) = Inr st'"
    by (auto simp: TcpConnection_handleRead_def assertInLoopThread_eq_Inr bindR_eq_Inr Let_def cong: if_cong)
  let ?s1 = "conn_put st c (x\<lparr>inputBuffer := b\<rparr>)" and ?d = "delivered ReadEv (sock_read x)"
  have b: "Buffer_inv b" "contents b = contents (inputBuffer x) @ ?d" "n \<le> 0 \<longrightarrow> ?d = []"
    using readFd_parts [OF rd B] by simp_all
  have e1: "conn_ext c st ?s1"
    by (rule conn_put_ext [OF ci x]) (use b(1) in \<open>auto simp: conn_evolves_def conn_ok_def\<close>)
  have i1: "echo_inv c (?s1, r @ ?d)"
    using inv x b(2) conn_ext_inv [OF e1] by (auto simp: echo_inv_def conn_put_def intro: prefix_order.trans)
  have t1: "isInLoopThread ?s1" using t by (simp add: conn_put_def isInLoopThread_def)
  show ?thesis
    using rest echo_message_inv [OF i1 t1] i1
      echo_quiet [OF i1 handleClose_quiet echo.handleClose_ext [OF conn_ext_inv [OF e1]]]
    by (auto simp: Let_def split: if_splits)
qed

lemma echo_put:
  assumes "echo_inv c (st, r)" and "conns st c = Some x" and "conn_evolves x x'" and "\<And>ch. conn_ok x ch \<Longrightarrow> conn_ok x' ch"
    and "accepted x' = accepted x" and "contents (inputBuffer x') = contents (inputBuffer x)"
  shows "echo_inv c (conn_put st c x', r)"
  using echo_quiet [OF assms(1) quiet_put [OF assms(2,5,6)] conn_put_ext [OF _ assms(2-4)]] assms(1)
  by (simp add: echo_inv_def)

lemma echo_functor_quiet:
  fixes st :: "'z conn_world_scheme"
  assumes "exec_conn_functor echo_callbacks f st = Inr st'"
    and "f \<in> {F_shutdownInLoop c, F_forceCloseInLoop c, F_writeComplete c, F_connectEstablished c, F_connectDestroyed c}"
  shows "quiet c st st'"
  using assms shutdownInLoop_quiet handleClose_quiet connectEstablished_quiet connectDestroyed_quiet
  by (auto simp: forceCloseInLoop_def res_iffs split: if_splits)

lemma echo_event_inv:
  assumes inv: "echo_inv c (st, r)" and x: "conns st c = Some x"
    and ok: "conn_channel_callback echo_callbacks c ev st = Inr st'"
  shows "echo_inv c (st', r @ delivered ev (sock_read x))"
proof -
  have ext: "conn_ext c st st'" using echo.event_ext [OF _ ok] inv by (simp add: echo_inv_def)
  consider "ev = ReadEv" | "quiet c st st'" "delivered ev (sock_read x) = []"
    using ok by (cases ev) (auto simp: TcpConnection_handleError_def bindR_eq_Inr dest: handleWrite_quiet handleClose_quiet)
  then show ?thesis
  proof cases
    case 1
    then show ?thesis using handleRead_echo [OF inv x] ok by simp
  next
    case 2
    then show ?thesis using echo_quiet [OF inv _ ext] by simp
  qed
qed

lemma echo_step_inv:
  assumes "echo_inv c s" and "echo_step c s s'"
  shows "echo_inv c s'"
  using assms(2)
proof cases
  case (es_event st x ev st' r)
  have "echo_inv c (st\<lparr>this_thread := threadId st\<rparr>, r)" using assms(1) es_event(1) by (simp add: echo_inv_def)
  then show ?thesis using echo_event_inv [OF _ _ es_event(4), of r x] es_event(2,3) by simp
next
  case (es_functor st f fs st' r)
  let ?s = "st\<lparr>this_thread := threadId st, pendingFunctors := fs\<rparr>"
  have inv: "echo_inv c (st, r)" using assms(1) es_functor(1) by simp
  then have ci: "conn_inv c st" by (simp add: echo_inv_def)
  have i: "echo_inv c (?s, r)" using inv es_functor(3) conn_inv_pop [OF ci es_functor(3)] by (simp add: echo_inv_def)
  obtain x where x: "conns st c = Some x" "pend_ok c x (f # fs)" using conn_invE [OF ci] es_functor(3) by metis
  have "conn_ext c ?s st'"
    by (rule echo.functor_ext [OF conn_inv_pop [OF ci es_functor(3)] x(2) _ es_functor(4,5)]) (simp add: x(1))
  moreover have "f \<notin> range (F_sendInLoop c)" using inv es_functor(3) by (auto simp: echo_inv_def)
  then have "quiet c ?s st'" using echo_functor_quiet [OF es_functor(5)] es_functor(4) by blast
  ultimately show ?thesis using echo_quiet [OF i] es_functor(2) by blast
next
  case (es_established st st' r)
  let ?s = "st\<lparr>this_thread := threadId st\<rparr>"
  have i: "echo_inv c (?s, r)" using assms(1) es_established(1) by (simp add: echo_inv_def)
  then have "conn_inv c ?s" by (simp add: echo_inv_def)
  then show ?thesis
    using echo_quiet [OF i connectEstablished_quiet [OF es_established(3)] echo.connectEstablished_ext [OF _ es_established(3)]]
      es_established(2) by simp
next
  case (es_write st x r w)
  then show ?thesis using assms(1) by (auto simp: conn_evolves_def conn_ok_def intro: echo_put)
next
  case (es_read st x q r)
  then show ?thesis using assms(1) by (auto simp: conn_evolves_def conn_ok_def intro: echo_put)
qed

lemma echo_start_inv:
  assumes "echo_start c s"
  shows "echo_inv c s"
proof -
  obtain st where s: "s = (st, [])" "conn_start c st" using assms by (cases s) (auto simp: echo_start_def)
  then obtain st0 l name fd p where "pendingFunctors st0 = []" "TcpConnection_new (Some l) name fd c p st0 = Inr st"
    by (auto simp: conn_start_def)
  then have "pendingFunctors st = []"
    "\<exists>x. conns st c = Some x \<and> accepted x = [] \<and> inputBuffer x = Buffer_new kInitialSize"
    by (auto simp: TcpConnection_new_def CheckLoopNotNull_def res_iffs new_Channel_def chan_put_def conn_put_def)
  then show ?thesis using s conn_start_inv [OF s(2)] new_buffer_facts by (auto simp: echo_inv_def)
qed

interpretation echo_run: invariant_system "echo_start c" "echo_step c" "echo_inv c" for c
  by unfold_locales (auto intro: echo_start_inv echo_step_inv)

section \<open>One message\<close>

lemma echo_answer_spec:
  fixes st :: "'z conn_world_scheme"
  assumes "idle_conn c x ch k st" and "contents (inputBuffer x) = []" and "sock_read x = IoOk data" and "data \<noteq> []"
    and "length data \<le> readv_capacity (inputBuffer x)"
    and "storage (inputBuffer x) + extrabuf_size \<le> vector_max_size"
    and "storage (outputBuffer x) + length data \<le> vector_max_size"
  obtains st' x' ch' where "TcpConnection_handleRead echo_callbacks c st = Inr st'" "conns st' c = Some x'"
    "chan_store st' (conn_channel x) = Some ch'" "sock_written x' = sock_written x @ take k data"
    "contents (outputBuffer x') = drop k data" "contents (inputBuffer x') = []"
    "conn_state x' = kConnected" "isWriting ch' \<longleftrightarrow> k < length data"
proof -
  note I = assms(1) [unfolded idle_conn_def]
  have pre: "isInLoopThread st" "conns st c = Some x" "Buffer_inv (inputBuffer x)" using I by simp_all
  obtain b where b: "Buffer_inv b" "contents b = data" and rd: "TcpConnection_handleRead echo_callbacks c st =
      echo_onMessage c (pollReturnTime st) (conn_put st c (x\<lparr>inputBuffer := b\<rparr>))"
    using handleRead_data [OF pre assms(3,5,6), of echo_callbacks] assms(2,4) by auto
  obtain b' where b': "retrieveAllAsString b = Inr (data, b')" "Buffer_inv b'" "contents b' = []"
    using retrieveAsString_spec [OF b(1), of "readableBytes b"] length_contents [OF b(1)] b(2)
    by (auto simp: retrieveAllAsString_def)
  let ?y = "x\<lparr>inputBuffer := b'\<rparr>"
  have "idle_conn c ?y ch k (conn_put st c ?y)"
    using I b'(2) by (simp add: idle_conn_def conn_put_def isInLoopThread_def)
  then obtain st' x' ch' where
    s: "sendInLoop False c data (conn_put st c ?y) = Inr st'" "conns st' c = Some x'"
    "chan_store st' (conn_channel x) = Some ch'" "sent_conn data k ?y x' ch'"
    by (rule sendInLoop_idle [where msg = data and wcb = False]) (use assms(7) in auto)
  have "echo_onMessage c (pollReturnTime st) (conn_put st c (x\<lparr>inputBuffer := b\<rparr>)) = Inr st'"
    using I b'(1) s(1) by (simp add: echo_onMessage_def conn_put_def runInLoop_def isInLoopThread_def)
  with rd have "TcpConnection_handleRead echo_callbacks c st = Inr st'" by simp
  then show ?thesis by (rule that) (use s I b' in \<open>auto simp: sent_conn_def\<close>)
qed

section \<open>Properties\<close>

text \<open>C9. The echo server sends back exactly what it receives: in every reachable state the bytes
  written to the socket, followed by those in the output buffer, are an initial part of the bytes
  received; and as long as the connection is up they are all of them, except the ones in the input
  buffer.\<close>

theorem echo_sends_back:
  assumes "reachable (echo_start c) (echo_step c) (st, received)"
  shows "\<exists>x. conns st c = Some x \<and> prefix (sock_written x @ contents (outputBuffer x)) received \<and>
    (conn_state x = kConnected \<longrightarrow>
       sock_written x @ contents (outputBuffer x) @ contents (inputBuffer x) = received)"
proof -
  have i: "echo_inv c (st, received)" by (rule echo_run.reachable_inv [OF assms])
  then obtain x where x: "conns st c = Some x" "prefix (accepted x) received"
    "state_rank (conn_state x) \<le> 1 \<longrightarrow> accepted x @ contents (inputBuffer x) = received" by (auto simp: echo_inv_def)
  have "sock_written x @ contents (outputBuffer x) = accepted x"
    using i x(1) by (auto simp: echo_inv_def conn_inv_def conn_ok_def)
  with x show ?thesis by (intro exI [of _ x]) (auto simp flip: append_assoc)
qed

text \<open>C22. A readable descriptor of an idle connection is answered in the same event: the bytes that
  fit are written at once, the rest is queued with the channel waiting for writability, nothing is left
  in the input buffer, and no call fails.\<close>

theorem echo_answers_message:
  assumes "idle_conn c x ch k st" and "contents (inputBuffer x) = []" and "sock_read x = IoOk data" and "data \<noteq> []"
    and "length data \<le> readv_capacity (inputBuffer x)"
    and "storage (inputBuffer x) + extrabuf_size \<le> vector_max_size"
    and "storage (outputBuffer x) + length data \<le> vector_max_size"
  shows "\<exists>st' x' ch'. TcpConnection_handleRead echo_callbacks c st = Inr st' \<and> conns st' c = Some x' \<and>
    chan_store st' (conn_channel x) = Some ch' \<and> sock_written x' = sock_written x @ take k data \<and>
    contents (outputBuffer x') = drop k data \<and> contents (inputBuffer x') = [] \<and>
    conn_state x' = kConnected \<and> (isWriting ch' \<longleftrightarrow> k < length data)"
  by (rule echo_answer_spec [OF assms]) auto

section \<open>Examples\<close>

theorem echo_answers_message_witness:
  "\<exists>(st::conn_world) st' x' . TcpConnection_handleRead echo_callbacks 1 st = Inr st' \<and> conns st' 1 = Some x' \<and>
    sock_written x' = ''pi'' \<and> contents (outputBuffer x') = ''ng''"
proof -
  obtain st :: conn_world and x ch where s: "idle_conn 1 x ch 2 st" "sock_read x = IoOk ''ping''" "sock_written x = []"
    "inputBuffer x = Buffer_new kInitialSize" "outputBuffer x = Buffer_new kInitialSize" by (rule idle_demo)
  have "contents (inputBuffer x) = []" using s(4) new_buffer_facts readable_0_iff by metis
  moreover have "''ping'' \<noteq> []" "length ''ping'' \<le> readv_capacity (inputBuffer x)"
    "storage (inputBuffer x) + extrabuf_size \<le> vector_max_size"
    "storage (outputBuffer x) + length ''ping'' \<le> vector_max_size"
    using s(4,5) new_buffer_facts(3,4) by (simp_all add: extrabuf_size_def)
  ultimately obtain st' x' where "TcpConnection_handleRead echo_callbacks 1 st = Inr st'" "conns st' 1 = Some x'"
    "sock_written x' = sock_written x @ take 2 ''ping''" "contents (outputBuffer x') = drop 2 ''ping''"
    using echo_answers_message [OF s(1) _ s(2)] by metis
  then show ?thesis using s(3) by (intro exI [of _ st] exI [of _ st'] exI [of _ x']) simp
qed

text \<open>The connection of the concrete world, established by the echo server and then given a message.\<close>

lemma echo_demo:
  obtains st x where "reachable (echo_start 1) (echo_step 1) (st, ''ping'')" "conns st 1 = Some x"
    "conn_state x = kConnected" "sock_written x = ''ping''"
proof -
  note ev = demo_eval echo_onConnect_def TcpConnection_setTcpNoDelay_def
  have "\<not> isl (bindR demo_new (connectEstablished echo_callbacks 1))" by (simp add: ev)
  then obtain s where s: "bindR demo_new (connectEstablished echo_callbacks 1) = Inr s" using not_isl_Inr by blast
  then obtain s0 where s0: "demo_new = Inr s0" "connectEstablished echo_callbacks 1 s0 = Inr s" by (auto simp: bindR_eq_Inr)
  have "conn_inv 1 s0" using conn_start_inv [OF demo_new_start [OF s0(1)]] .
  then have inv: "loop_inv s" using conn_ext_inv [OF echo.connectEstablished_ext [OF _ s0(2)]] by (auto simp: conn_inv_def)
  obtain x ch where x: "isInLoopThread s" "conns s 1 = Some x" "conn_state x = kConnected"
    "chan_store s (conn_channel x) = Some ch" "ch_loop ch = loop_id s" "ch_index ch = kAdded" "\<not> isWriting ch"
    "inputBuffer x = Buffer_new kInitialSize" "outputBuffer x = Buffer_new kInitialSize" "\<not> sock_shutdown x" "sock_written x = []"
    using s by (auto simp: ev)
  let ?x1 = "x\<lparr>sock_write := WOk 10\<rparr>" and ?x = "x\<lparr>sock_write := WOk 10, sock_read := IoOk ''ping''\<rparr>"
  let ?s = "conn_put s 1 ?x"
  have nb: "contents (Buffer_new kInitialSize) = []" using new_buffer_facts readable_0_iff by metis
  have room: "storage (Buffer_new kInitialSize) + 4 \<le> vector_max_size"
    using new_buffer_facts(3) by (simp add: extrabuf_size_def)
  have idle: "idle_conn 1 ?x ch 10 ?s"
    using inv x new_buffer_facts nb by (simp add: idle_conn_def conn_put_def isInLoopThread_def)
  obtain st y where st: "TcpConnection_handleRead echo_callbacks 1 ?s = Inr st" "conns st 1 = Some y"
    "sock_written y = ''ping''" "conn_state y = kConnected"
    by (rule echo_answer_spec [OF idle, of "''ping''"]) (use x new_buffer_facts room nb in auto)
  have r0: "reachable (echo_start 1) (echo_step 1) (s0, [])"
    by (rule reach_start) (use demo_new_start [OF s0(1)] in \<open>simp add: echo_start_def\<close>)
  have t: "s0\<lparr>this_thread := threadId s0\<rparr> = s0" "?s\<lparr>this_thread := threadId ?s\<rparr> = ?s"
    using s0 x(1) by (auto simp: ev isInLoopThread_def conn_put_def)
  have "echo_step 1 (s0, []) (s, [])" by (rule es_established) (unfold t, rule s0(2))
  with r0 have r1: "reachable (echo_start 1) (echo_step 1) (s, [])" by (rule reach_step)
  have "echo_step 1 (s, []) (conn_put s 1 ?x1, [])" by (rule es_write [OF x(2)])
  with r1 have r2: "reachable (echo_start 1) (echo_step 1) (conn_put s 1 ?x1, [])" by (rule reach_step)
  have "echo_step 1 (conn_put s 1 ?x1, []) (conn_put (conn_put s 1 ?x1) 1 (?x1\<lparr>sock_read := IoOk ''ping''\<rparr>), [])"
    by (rule es_read) (simp_all add: conn_put_def vector_max_size_def)
  moreover have "conn_put (conn_put s 1 ?x1) 1 (?x1\<lparr>sock_read := IoOk ''ping''\<rparr>) = ?s" by (simp add: conn_put_def)
  ultimately have r3: "reachable (echo_start 1) (echo_step 1) (?s, [])" using r2 by (metis reach_step)
  have "echo_step 1 (?s, []) (st, [] @ delivered ReadEv (sock_read ?x))"
    by (rule es_event) (unfold t, use st(1) in \<open>simp_all add: conn_put_def\<close>)
  then have "echo_step 1 (?s, []) (st, ''ping'')" by simp
  with r3 have "reachable (echo_start 1) (echo_step 1) (st, ''ping'')" by (rule reach_step)
  then show ?thesis using that st by blast
qed

theorem echo_sends_back_witness:
  "\<exists>st x. reachable (echo_start 1) (echo_step 1) (st, ''ping'') \<and> conns st 1 = Some x \<and>
    conn_state x = kConnected \<and> sock_written x = ''ping'' \<and> contents (outputBuffer x) = []"
proof -
  obtain st x where s: "reachable (echo_start 1) (echo_step 1) (st, ''ping'')" "conns st 1 = Some x"
    "conn_state x = kConnected" "sock_written x = ''ping''" by (rule echo_demo)
  from echo_sends_back [OF s(1)] s show ?thesis by auto
qed

end
