(* ===== verification/Echo_Program.thy ===== *)
theory Echo_Program
  imports EchoServer Server_Program
begin

text \<open>
  The echo server of \<open>example/EchoServer.cc\<close> as a whole: \<open>main\<close> constructs an \<open>EventLoop\<close> and a
  \<open>TcpServer\<close> on port 8888, gives it the two callbacks and starts it, with no I/O threads. From there the
  program takes the steps of the server with these callbacks.
\<close>

section \<open>The program\<close>

text \<open>
  \<open>mk_loop\<close> is the construction of \<open>loop\<close> with the kernel's answers, \<open>answers\<close> and \<open>ret\<close> are those to the
  acceptor and to \<open>listen\<close>, \<open>p\<close> is the address of the acceptor's channel. \<open>ws\<close> would be the loops of
  I/O threads.
\<close>

definition EchoServer_main ::
    "EventLoop res \<Rightarrow> int \<times> int \<times> int \<times> int \<times> int \<Rightarrow> chan_ptr \<Rightarrow> (nat \<Rightarrow> acceptor_world) \<Rightarrow> int \<Rightarrow> server_world res" where
  "EchoServer_main mk_loop answers p ws ret =
     bindR mk_loop (\<lambda>loop.
       bindR (TcpServer_new answers p (InetAddress_ip_port ''0.0.0.0'' 8888) [] kNoReusePort (server_process loop))
         (TcpServer_start ws None ret))"

definition echo_program_start :: "nat \<Rightarrow> server_world \<Rightarrow> bool" where
  "echo_program_start l st \<longleftrightarrow> (\<exists>use_poll tid fails epollfd tp timerfd wp evtfd now answers p ws ret.
     EchoServer_main (EventLoop_new use_poll l tid fails epollfd tp timerfd wp evtfd False now) answers p ws ret = Inr st)"

section \<open>The callbacks on the server\<close>

lemma echo_message_frame:
  assumes "echo_onMessage c t st = Inr st'"
  shows "loop_frame st st'"
proof -
  obtain x where x: "conns st c = Some x" using assms by (auto simp: echo_onMessage_def bindR_eq_Inr conn_deref_eq)
  show ?thesis
  proof (cases "conn_state x = kConnected")
    case True
    then obtain msg b where r: "runInLoop (exec_call_functor False) (F_sendInLoop c msg) (conn_put st c (x\<lparr>inputBuffer := b\<rparr>)) = Inr st'"
      using assms x by (auto simp: echo_onMessage_def bindR_eq_Inr)
    have "loop_frame (conn_put st c (x\<lparr>inputBuffer := b\<rparr>)) st'"
      by (rule runInLoop_frame [OF r]) (auto intro: sendInLoop_frame)
    moreover have "loop_frame st (conn_put st c (x\<lparr>inputBuffer := b\<rparr>))" using x by (rule conn_put_frame) (simp add: conn_kept_def)
    ultimately show ?thesis using loop_frame_trans by blast
  qed (use assms x in \<open>simp add: echo_onMessage_def\<close>)
qed

lemma echo_benign: "benign echo_callbacks"
  by (auto simp: benign_def echo_onConnect_def TcpConnection_setTcpNoDelay_def bindR_eq_Inr conn_deref_eq conn_kept_def
      intro: echo_message_frame conn_put_frame)

section \<open>The start of the program\<close>

text \<open>Without I/O threads the loops that threads would construct do not matter.\<close>

lemma start_no_threads:
  assumes "numThreads (threadPool s) = 0"
  shows "TcpServer_start ws None ret s = TcpServer_start ws' None ret s"
  using assms by (simp add: TcpServer_start_def Pool_start_def Let_def)

lemma echo_ipPort: "toIpPort (InetAddress_ip_port ''0.0.0.0'' 8888) = ''0.0.0.0:8888''"
  by code_simp

text \<open>The echo server: its name is empty, its address the one \<open>main\<close> gives, its only loop the base loop.\<close>

lemma echo_main_inv:
  assumes "echo_program_start l st"
  shows "program_inv l ''0.0.0.0:8888'' [] [] st"
proof -
  let ?a = "InetAddress_ip_port ''0.0.0.0'' 8888"
  obtain lp answers p ws ret s where made: "made_loop l lp"
    and new: "TcpServer_new answers p ?a [] kNoReusePort (server_process lp) = Inr s"
    and start: "TcpServer_start ws None ret s = Inr st"
    using assms by (fastforce simp: echo_program_start_def EchoServer_main_def made_loop_def bindR_eq_Inr)
  note f = made_loop_fresh [OF made]
  let ?w = "(acceptor_world.truncate (server_process lp))\<lparr>loop_id := Suc l\<rparr>"
  have w: "fresh_loop ?w \<and> loop_id ?w \<noteq> l"
    using f by (simp add: fresh_loop_def acceptor_world.defs)
  have t: "srv_started s = 0" "numThreads (threadPool s) = 0" using new by (auto simp: TcpServer_new_def Pool_new_def res_iffs)
  then have n: "TcpServer_setThreadNum 0 s = Inr s" by (simp add: TcpServer_setThreadNum_def Pool_setThreadNum_def)
  have "TcpServer_start (\<lambda>_. ?w) None ret s = Inr st" using start start_no_threads [OF t(2)] by metis
  then have "server_started (server_process lp) ?a [] 0 (\<lambda>_. ?w) st"
    by (rule server_process_started [OF made w new n])
  from program_inv_start [OF this] show ?thesis using f(3) by (simp add: echo_ipPort)
qed

interpretation ep: invariant_system "echo_program_start l" "srv_step echo_callbacks"
    "program_inv l ''0.0.0.0:8888'' [] []" for l
  by unfold_locales (auto intro: echo_main_inv program_inv_step echo_benign)

section \<open>Property\<close>

text \<open>C11. The echo server as a program: in every state it reaches from \<open>main\<close>, its connections live on
  its one loop under the names \<open>-0.0.0.0:8888#i\<close>, those that are not disconnected are in the table, and
  a connection that closes is taken out of the table and queued for destruction in the same event,
  without a fault.\<close>

theorem echo_server_connections:
  assumes "reachable (echo_program_start l) (srv_step echo_callbacks) st"
  shows "(\<forall>l' c x. conns_of st l' c = Some x \<longrightarrow> l' = l \<and>
      (\<exists>i. 1 \<le> i \<and> i < nextConnId st \<and> conn_name x = ''-0.0.0.0:8888#'' @ to_string i) \<and>
      (conn_state x \<noteq> kDisconnected \<longrightarrow> connections st (conn_name x) = Some c)) \<and>
    (\<forall>c s. TcpConnection_handleClose (before_close echo_callbacks) c st = Inr s \<longrightarrow>
      (\<exists>x st'. TcpConnection_handleClose (server_callbacks echo_callbacks) c st = Inr st' \<and> conns st c = Some x \<and>
        connections s (conn_name x) = Some c \<and> connections st' = (connections s)(conn_name x := None) \<and>
        F_connectDestroyed c \<in> set (queue_of st' l)))"
proof -
  have I: "program_inv l ''0.0.0.0:8888'' [] [] st" by (rule ep.reachable_inv [OF assms])
  then have J: "srv_inv st" "balanced st" "srv_loop st = l" by (simp_all add: program_inv_def program_config_def)
  have conn: "l' = l \<and> (\<exists>i. 1 \<le> i \<and> i < nextConnId st \<and> conn_name x = ''-0.0.0.0:8888#'' @ to_string i) \<and>
      (conn_state x \<noteq> kDisconnected \<longrightarrow> connections st (conn_name x) = Some c)" if "conns_of st l' c = Some x" for l' c x
    using program_conn [OF I that] by auto
  have "\<exists>x st'. TcpConnection_handleClose (server_callbacks echo_callbacks) c st = Inr st' \<and> conns st c = Some x \<and>
      connections s (conn_name x) = Some c \<and> connections st' = (connections s)(conn_name x := None) \<and>
      F_connectDestroyed c \<in> set (queue_of st' l)"
    if ok: "TcpConnection_handleClose (before_close echo_callbacks) c st = Inr s" for c s
  proof -
    obtain x st' where e: "TcpConnection_handleClose (server_callbacks echo_callbacks) c st = Inr st'"
      "conns st c = Some x" "connections s (conn_name x) = Some c" "isInLoopThread s" "loop_frame st s"
      "if in_base_thread s
       then connections st' = (connections s)(conn_name x := None) \<and>
         queue_of st' = (queue_of s)(loop_id st := queue_of s (loop_id st) @ [F_connectDestroyed c])
       else connections st' = connections s \<and>
         queue_of st' = (queue_of s)(srv_loop s := queue_of s (srv_loop s) @ [F_removeConnectionInLoop c])"
      by (rule close_spec [OF J(1,2) echo_benign ok])
    have l: "loop_id st = l" using conn [of "loop_id st" c x] e(2) by (simp add: conns_of_def)
    have "srv_loop s = loop_id s" using loop_frame_server [OF e(5)] l J(3) by simp
    then have "in_base_thread s" using e(4) by (simp add: in_base_thread_def)
    then show ?thesis using e l by simp
  qed
  then show ?thesis using conn by blast
qed

section \<open>A run\<close>

definition demo_main :: "server_world res" where
  "demo_main = EchoServer_main (EventLoop_new False 1 7 linux_epoll_fails 3 10 4 11 5 False (Timestamp 0)) (6, 8, 0, 0, 0) 30
     (\<lambda>_. demo_acceptor 2 8) 0"

lemma demo_main_ok: "\<not> isl (bindR demo_main (TcpServer_newConnection echo_callbacks 1 20 9 sockaddr_zero))"
  by (simp add: demo_main_def EchoServer_main_def server_process_def loop_process_def loop_eval server_eval demo_eval echo_callbacks_def
      echo_onConnect_def TcpConnection_setTcpNoDelay_def)

lemma demo_main_facts: "demo_main = Inr st \<Longrightarrow> conn_loop st 1 = None"
  by (auto simp: demo_main_def EchoServer_main_def server_process_def loop_process_def loop_eval server_eval demo_eval)

theorem echo_server_connections_witness:
  "\<exists>st l c x i. reachable (echo_program_start 1) (srv_step echo_callbacks) st \<and> conns_of st l c = Some x \<and>
    conn_name x = ''-0.0.0.0:8888#'' @ to_string i"
proof -
  obtain st where "bindR demo_main (TcpServer_newConnection echo_callbacks 1 20 9 sockaddr_zero) = Inr st"
    using demo_main_ok not_isl_Inr by blast
  then obtain s0 where s0: "demo_main = Inr s0" "TcpServer_newConnection echo_callbacks 1 20 9 sockaddr_zero s0 = Inr st"
    by (auto simp: bindR_eq_Inr)
  have start: "echo_program_start 1 s0" using s0(1) unfolding demo_main_def echo_program_start_def by blast
  then have "reachable (echo_program_start 1) (srv_step echo_callbacks) s0" by (rule reach_start)
  moreover have "srv_step echo_callbacks s0 st" by (rule ss_accept [OF demo_main_facts [OF s0(1)] s0(2)])
  ultimately have r: "reachable (echo_program_start 1) (srv_step echo_callbacks) st" by (rule reach_step)
  have "loops_ok s0" using echo_main_inv [OF start] srv_invD(1) by (simp add: program_inv_def)
  from newConnection_exists [OF s0(2) this echo_benign] obtain l x' where x': "conns_of st l 1 = Some x'" by blast
  with echo_server_connections [OF r] obtain i where "conn_name x' = ''-0.0.0.0:8888#'' @ to_string i" by blast
  with r x' show ?thesis by blast
qed

end
