(* ===== verification/Spec2Isabelle.thy ===== *)
theory Spec2Isabelle
  imports Wakeup Http_Program Async_Logger TcpClient Echo_Program
begin

text \<open>
  A verification of \<open>muduo_learn\<close>, a reactor-style network library in C++ with a logging library
  and an HTTP server on top.

  \<^bold>\<open>The program.\<close> An \<open>EventLoop\<close> owns an \<open>EPollPoller\<close>, a \<open>TimerQueue\<close> and a queue of functors that
  other threads append to under a mutex and announce through an \<open>eventfd\<close>. A \<open>Channel\<close> ties a
  descriptor to the loop and dispatches the events the poller reports. A \<open>TcpConnection\<close> has a
  channel, an input and an output \<open>Buffer\<close> and a state, and calls back into user code;
  \<open>HttpConnection\<close> is such user code. Logging goes through \<open>LogStream\<close> into \<open>AsyncLogging\<close>, whose
  back-end thread swaps full buffers out of the front end.

  \<^bold>\<open>Conventions.\<close> A C++ object is a record, a pointer to one is an address into a store, a function
  that can fail returns a value of \<open>'a res\<close> whose left summand is a \<open>fault\<close> (failed assertion,
  fatal log, uncaught exception, access without a defined meaning). Assertions are checked, as in a
  debug build. \<open>size_t\<close> arithmetic wraps at \<open>2 ^ 64\<close>; event masks are 32-bit words. The kernel, the
  file system, the clock and user callbacks are not under \<open>src/\<close>: they are arguments or fields the
  environment sets, with what the code needs of them as named hypotheses (\<open>epoll_contract\<close>,
  \<open>wait_contract\<close>, \<open>fs_contract\<close>).

  \<^bold>\<open>Theories.\<close>
  \<^item> \<open>Prelude\<close>: faults, results, \<open>size_t\<close>, shared list lemmas; the locale \<open>invariant_system\<close>, from
    which every reachability argument below is drawn.
  \<^item> \<open>Buffer\<close> (\<open>src/net/Buffer.h\<close>, \<open>Buffer.cc\<close>): all operations; the locale \<open>byte_queue\<close> and its
    interpretation; appends and reads are a first-in first-out queue, \<open>readFd\<close> takes exactly the bytes
    delivered, \<open>findCRLF\<close> finds the first line end, and the one addition that can wrap.
  \<^item> \<open>Decimal\<close>, \<open>Timestamp\<close>, \<open>Std_Set\<close>: number texts, instants and double delays, ordered sets (locale
    \<open>ordered_set\<close>).
  \<^item> \<open>TimerQueue\<close> (\<open>Timer\<close>, \<open>TimerId\<close>, \<open>TimerQueue\<close>): insertion, expiry, cancellation, re-arming of the
    timer descriptor; invariant of all reachable queues; expired timers run in order.
  \<^item> \<open>Channel\<close>, \<open>EPollPoller\<close>, \<open>EventLoop\<close>: masks and dispatch, registration with the kernel, the functor
    queue, one iteration and the loop. The kernel's interest list equals what the channels ask for in
    every reachable state; the loop's construction and destruction pass all assertions.
  \<^item> \<open>Wakeup\<close>: the same queue under interleaving of any number of threads: no wake-up is lost, functors
    are conserved in order, and what is pending when the loop sleeps is run in the next iteration: by the
    loop thread alone in a number of steps that is given, and whatever the other threads do in between.
  \<^item> \<open>TcpConnection\<close>, \<open>Connection_Safety\<close>, \<open>Connection_Close\<close>, \<open>Connection_Send\<close>: the connection's
    operations; the locale \<open>conn_user\<close>, what a connection needs of its callbacks, with the invariant
    under arbitrary events and user calls (byte stream in order, shutdown after the last byte, the state
    advances); the closing sequence, sending on an idle connection, and the paths that abort.
  \<^item> \<open>EchoServer\<close> (\<open>example/EchoServer.cc\<close>): its callbacks interpret \<open>conn_user\<close>; what is written is at
    any moment an initial part of what was received.
  \<^item> \<open>InetAddress\<close>, \<open>Socket\<close>, \<open>Acceptor\<close>, \<open>Channel_Release\<close>: addresses and their text, the system calls
    on sockets, accepting and running out of descriptors, and the one lemma on disabling, removing and
    destroying a channel that the acceptor and the connector share.
  \<^item> \<open>EventLoopThread\<close> (with \<open>Thread\<close> and \<open>EventLoopThreadPool\<close>): starting a loop in a thread under
    interleaving, the pool's choice of loops.
  \<^item> \<open>TcpServer\<close>, \<open>Server_Frame\<close>, \<open>Server_Safety\<close>: the server over several loops, one of which is in
    focus (\<open>focus\<close>, \<open>on_loop\<close>); what a connection's operations leave alone; under every interleaving of
    the loops the table of connections is accurate and the assertion on removal holds.
  \<^item> \<open>Server_Balance\<close>: a new connection is handed to the next loop of the pool, and in every reachable
    state each connection lives on the loop its identifier determines.
  \<^item> \<open>Server_Close\<close>: closing a connection, from its event to the table of the server, cannot fail.
  \<^item> \<open>Server_Program\<close>, \<open>Echo_Program\<close> (\<open>example/EchoServer.cc\<close>), \<open>Http_Program\<close> (\<open>http/HttpServer.cc\<close>): the
    two \<open>main\<close> functions as a whole, instances of the server whose reachable states have all of the above;
    the HTTP server has four I/O threads and idle timers, the echo server neither.
  \<^item> \<open>Connector\<close>, \<open>TcpClient\<close>: connecting, every answer of \<open>connect\<close>, retries with back-off, stopping;
    establishing, reconnecting and destroying a client. The first event of a connecting channel fails an
    assertion of the loop, so what the client does with an established connection is never reached in a debug
    build; it is modelled, but no property rests on it.
  \<^item> \<open>Http_Context\<close>, \<open>HttpConnection\<close>, \<open>Http_Parsing\<close>, \<open>Http_Response\<close>, \<open>Http_Exchange\<close>, \<open>Http_Session\<close>: parser, form
    decoder and responses; the patterns against their meaning, termination, round trips, the decoding of every
    form against a declarative reading, complete responses, inputs that end the process; a request and its
    response over a connection; sequences of them on one that is kept, with the idle timers \<open>onConnection\<close> and
    \<open>onMessage\<close> start, none of which is ever cancelled: those that are due before a read run before it, and the
    answers to a session are stated up to the first of them.
  \<^item> \<open>LogStream\<close>, \<open>Logger\<close>: fixed buffers and stream operators, integer formatting; the line a log
    statement outputs.
  \<^item> \<open>LogFile\<close> (with \<open>FileUtil\<close>), \<open>AsyncLogging\<close>, \<open>Async_File\<close>: rolling files (which appends change the file, and when it grows
    past its limit), the double buffering
    under interleaving, and their composition: lines reach the disk in order, none lost in between.
  \<^item> \<open>Async_Logger\<close>: the output and flush functions of \<open>Logging.cc\<close> and \<open>useAsyncLog\<close>, which join the log
    statements to that composition: the lines of all statements, from the macro to the disk (of a line
    that does not fit its stream, what the stream keeps); and the fatal line, whose append, flush and abort are
    steps between which the back end may run, and which is lost unless it does.

  \<^bold>\<open>Loops and fuel.\<close> Recursions are structural or have a measure. The HTTP parse loop takes fuel, the
  number of readable bytes plus two, which \<open>parseRequest_terminates\<close> shows to be enough in every state.
  Loops that the environment drives take the list of its answers: the event loop one element for each
  return of \<open>epoll_wait\<close>, writing to a file one for each return of \<open>fwrite\<close>.

  \<^bold>\<open>Not modelled.\<close> The programs under \<open>test\<close>; the moves of thread identifiers through \<open>memcpy\<close> in
  \<open>CurrentThread.h\<close>; the marker class \<open>noncopyable\<close> and the type aliases of \<open>Callbacks.h\<close>;
  the text of log messages inside the network code, which no operation reads.
\<close>

end
